(* ===== verification/Prelude.thy ===== *)
theory Prelude
  imports Main "HOL-Library.Char_ord"
begin

text \<open>
  Shared vocabulary of the development.

  \<^item> Rust's \<open>Result\<close> is the sum type with the error on the left; \<open>rbind\<close> is the
    \<open>?\<close> operator and \<open>foldR\<close> the \<open>for\<close> loop whose body may return early with an error.
  \<^item> Rust's \<open>std::cmp::Ordering\<close>; the contract of the \<open>Ord\<close> trait and the ordered collections of
    the standard library are in the theory \<open>Ordered\<close>.
  \<^item> Rust strings are lists of bytes, so a \<open>char\<close> is one byte and string offsets are byte
    offsets.
\<close>

named_theorems result_simps \<open>case analysis of results\<close>
named_theorems cmp_simps \<open>evaluation of comparisons\<close>

section \<open>Results\<close>

type_synonym ('e, 'a) result = "'e + 'a"

datatype panic = Panic string

definition rbind :: "('e, 'a) result \<Rightarrow> ('a \<Rightarrow> ('e, 'b) result) \<Rightarrow> ('e, 'b) result" where
  "rbind m f = (case m of Inl e \<Rightarrow> Inl e | Inr x \<Rightarrow> f x)"

primrec foldR :: "('x \<Rightarrow> 's \<Rightarrow> ('e, 's) result) \<Rightarrow> 'x list \<Rightarrow> 's \<Rightarrow> ('e, 's) result" where
  "foldR f [] s = Inr s"
| "foldR f (x # xs) s = rbind (f x s) (foldR f xs)"

primrec mapR :: "('x \<Rightarrow> ('e, 'y) result) \<Rightarrow> 'x list \<Rightarrow> ('e, 'y list) result" where
  "mapR f [] = Inr []"
| "mapR f (x # xs) = rbind (f x) (\<lambda>y. rbind (mapR f xs) (\<lambda>ys. Inr (y # ys)))"

definition of_option :: "'e \<Rightarrow> 'a option \<Rightarrow> ('e, 'a) result" where
  "of_option e m = (case m of None \<Rightarrow> Inl e | Some x \<Rightarrow> Inr x)"

definition is_ok :: "('e, 'a) result \<Rightarrow> bool" where
  "is_ok m = (case m of Inl _ \<Rightarrow> False | Inr _ \<Rightarrow> True)"

lemma rbind_simps [simp, result_simps]:
  "rbind (Inl e) f = Inl e" "rbind (Inr x) f = f x"
  by (simp_all add: rbind_def)

lemma rbind_eq_Inr [result_simps]: "rbind m f = Inr y \<longleftrightarrow> (\<exists>x. m = Inr x \<and> f x = Inr y)"
  by (cases m) simp_all

lemma rbind_eq_Inl [result_simps]:
  "rbind m f = Inl e \<longleftrightarrow> m = Inl e \<or> (\<exists>x. m = Inr x \<and> f x = Inl e)"
  by (cases m) simp_all

lemma of_option_eq [simp, result_simps]:
  "of_option e m = Inr x \<longleftrightarrow> m = Some x" "of_option e m = Inl e' \<longleftrightarrow> m = None \<and> e' = e"
  by (auto simp: of_option_def split: option.splits)

lemma of_option_simps [simp]: "of_option e None = Inl e" "of_option e (Some x) = Inr x"
  by (simp_all add: of_option_def)

lemma is_ok_simps [simp]: "is_ok (Inl e) = False" "is_ok (Inr x) = True"
  by (simp_all add: is_ok_def)

text \<open>A loop keeps an invariant that each iteration keeps.\<close>

lemma foldR_invariant:
  assumes "foldR f xs s = Inr t" and "P s"
    and "\<And>x s t. x \<in> set xs \<Longrightarrow> P s \<Longrightarrow> f x s = Inr t \<Longrightarrow> P t"
  shows "P t"
  using assms
proof (induction xs arbitrary: s)
  case (Cons x xs)
  then obtain u where "f x s = Inr u" "foldR f xs u = Inr t"
    by (auto simp: rbind_eq_Inr)
  with Cons show ?case by (metis list.set_intros)
qed simp

lemma foldR_append: "foldR f (xs @ ys) s = rbind (foldR f xs s) (foldR f ys)"
proof (induction xs arbitrary: s)
  case (Cons x xs)
  then show ?case by (cases "f x s") simp_all
qed simp

lemma mapR_Inr_length: "mapR f xs = Inr ys \<Longrightarrow> length ys = length xs"
  by (induction xs arbitrary: ys) (auto simp: rbind_eq_Inr)

lemma mapR_Inr_nth: "mapR f xs = Inr ys \<Longrightarrow> i < length xs \<Longrightarrow> f (xs ! i) = Inr (ys ! i)"
proof (induction xs arbitrary: ys i)
  case (Cons x xs)
  then show ?case by (cases i) (auto simp: rbind_eq_Inr)
qed simp

section \<open>Orderings\<close>

datatype ordering = Less | Equal | Greater

primrec invert :: "ordering \<Rightarrow> ordering" where
  "invert Less = Greater"
| "invert Equal = Equal"
| "invert Greater = Less"

primrec then_cmp :: "ordering \<Rightarrow> ordering \<Rightarrow> ordering" where
  "then_cmp Less o2 = Less"
| "then_cmp Equal o2 = o2"
| "then_cmp Greater o2 = Greater"

definition ord_cmp :: "'a::linorder \<Rightarrow> 'a \<Rightarrow> ordering" where
  "ord_cmp x y = (if x < y then Less else if x = y then Equal else Greater)"

fun lex_cmp :: "('a \<Rightarrow> 'a \<Rightarrow> ordering) \<Rightarrow> 'a list \<Rightarrow> 'a list \<Rightarrow> ordering" where
  "lex_cmp c [] [] = Equal"
| "lex_cmp c [] (y # ys) = Less"
| "lex_cmp c (x # xs) [] = Greater"
| "lex_cmp c (x # xs) (y # ys) = then_cmp (c x y) (lex_cmp c xs ys)"

lemma invert_invert [simp]: "invert (invert x) = x" by (cases x) simp_all

lemma invert_eq [simp]:
  "invert x = Less \<longleftrightarrow> x = Greater" "invert x = Greater \<longleftrightarrow> x = Less"
  "invert x = Equal \<longleftrightarrow> x = Equal" "invert x = invert y \<longleftrightarrow> x = y"
  by (cases x; cases y; simp)+

lemma invert_then_cmp [simp]: "invert (then_cmp x y) = then_cmp (invert x) (invert y)"
  by (cases x) simp_all

lemma then_cmp_eq [cmp_simps]:
  "then_cmp x y = Less \<longleftrightarrow> x = Less \<or> x = Equal \<and> y = Less"
  "then_cmp x y = Greater \<longleftrightarrow> x = Greater \<or> x = Equal \<and> y = Greater"
  "then_cmp x y = Equal \<longleftrightarrow> x = Equal \<and> y = Equal"
  by (cases x; simp)+

lemma ord_cmp_eq [simp, cmp_simps]:
  "ord_cmp x y = Less \<longleftrightarrow> x < y" "ord_cmp x y = Greater \<longleftrightarrow> y < x"
  "ord_cmp x y = Equal \<longleftrightarrow> x = y"
  by (auto simp: ord_cmp_def)

section \<open>Decimal numerals\<close>

fun show_nat :: "nat \<Rightarrow> string" where
  "show_nat n = (if n < 10 then [char_of (48 + n)] else show_nat (n div 10) @ [char_of (48 + n mod 10)])"

declare show_nat.simps [simp del]

definition show_int :: "int \<Rightarrow> string" where
  "show_int i = (if i < 0 then CHR ''-'' # show_nat (nat (- i)) else show_nat (nat i))"

definition digit_val :: "char \<Rightarrow> nat" where
  "digit_val c = of_char c - 48"

definition is_digit :: "char \<Rightarrow> bool" where
  "is_digit c \<longleftrightarrow> CHR ''0'' \<le> c \<and> c \<le> CHR ''9''"

definition read_nat :: "string \<Rightarrow> nat" where
  "read_nat s = foldl (\<lambda>n c. 10 * n + digit_val c) 0 s"

lemma is_digit_iff: "is_digit c \<longleftrightarrow> 48 \<le> (of_char c :: nat) \<and> (of_char c :: nat) \<le> 57"
  by (simp add: is_digit_def less_eq_char_def)

lemma digit_char [simp]:
  assumes "d < 10"
  shows "is_digit (char_of (48 + d))" "digit_val (char_of (48 + d)) = d"
proof -
  have "(of_char (char_of (48 + d) :: char) :: nat) = (48 + d) mod 256" by (rule of_char_of)
  also have "\<dots> = 48 + d" using assms by simp
  finally have c: "(of_char (char_of (48 + d) :: char) :: nat) = 48 + d" .
  show "is_digit (char_of (48 + d))" using assms c by (simp add: is_digit_iff)
  show "digit_val (char_of (48 + d)) = d" using c by (simp add: digit_val_def)
qed

lemma show_nat_digits: "\<forall>c\<in>set (show_nat n). is_digit c"
proof (induction n rule: show_nat.induct)
  case (1 n)
  then show ?case by (subst show_nat.simps) auto
qed

lemma show_nat_not_Nil [simp]: "show_nat n \<noteq> []"
  by (subst show_nat.simps) simp

lemma read_nat_snoc [simp]: "read_nat (s @ [c]) = 10 * read_nat s + digit_val c"
  by (simp add: read_nat_def)

lemma read_show_nat [simp]: "read_nat (show_nat n) = n"
proof (induction n rule: show_nat.induct)
  case (1 n)
  show ?case
  proof (cases "n < 10")
    case True
    then show ?thesis using read_nat_snoc [of "[]"] by (subst show_nat.simps) (simp add: read_nat_def)
  next
    case False
    then have "read_nat (show_nat n) = 10 * (n div 10) + n mod 10"
      using 1 by (subst show_nat.simps) simp
    then show ?thesis by simp
  qed
qed

lemma show_int_inj: "show_int i = show_int j \<longleftrightarrow> i = j"
proof
  have minus: "CHR ''-'' \<notin> set (show_nat n)" for n
    using show_nat_digits [of n] by (auto simp: is_digit_iff)
  assume eq: "show_int i = show_int j"
  have "(i < 0) = (j < 0)"
    using eq minus [of "nat i"] minus [of "nat j"]
    by (auto simp: show_int_def split: if_splits) (metis list.set_intros(1))+
  moreover have "show_nat (nat \<bar>i\<bar>) = show_nat (nat \<bar>j\<bar>)"
    using eq calculation by (auto simp: show_int_def split: if_splits)
  then have "nat \<bar>i\<bar> = nat \<bar>j\<bar>" by (metis read_show_nat)
  ultimately show "i = j" by linarith
qed simp

section \<open>Truncating division\<close>

text \<open>Rust's \<open>/\<close> and \<open>%\<close> on signed integers round towards zero.\<close>

definition rust_div :: "int \<Rightarrow> int \<Rightarrow> int" where
  "rust_div a b = sgn a * sgn b * (\<bar>a\<bar> div \<bar>b\<bar>)"

definition rust_rem :: "int \<Rightarrow> int \<Rightarrow> int" where
  "rust_rem a b = a - b * rust_div a b"

lemma rust_div_pos: "0 < b \<Longrightarrow> rust_div a b = (if 0 \<le> a then a div b else - ((- a) div b))"
  by (auto simp: rust_div_def sgn_if)

lemma rust_rem_pos: "0 < b \<Longrightarrow> rust_rem a b = (if 0 \<le> a then a mod b else - ((- a) mod b))"
proof -
  assume "0 < b"
  moreover have "a + b * ((- a) div b) = - ((- a) mod b)"
    using minus_mult_div_eq_mod [of "- a" b] by linarith
  ultimately show ?thesis by (simp add: rust_rem_def rust_div_pos minus_mult_div_eq_mod)
qed

lemma rust_div_rem:
  assumes "0 < b"
  shows "\<bar>rust_div a b\<bar> = \<bar>a\<bar> div b" "\<bar>rust_rem a b\<bar> = \<bar>a\<bar> mod b" "a = b * rust_div a b + rust_rem a b"
proof -
  have nn: "0 \<le> a div b" if "0 \<le> a" for a using that assms by (simp add: pos_imp_zdiv_nonneg_iff)
  show "\<bar>rust_div a b\<bar> = \<bar>a\<bar> div b" using nn [of a] nn [of "- a"] assms by (simp add: rust_div_pos)
  show "\<bar>rust_rem a b\<bar> = \<bar>a\<bar> mod b" using assms by (simp add: rust_rem_pos)
  show "a = b * rust_div a b + rust_rem a b" by (simp add: rust_rem_def)
qed

section \<open>Signed 64-bit integers\<close>

definition i64_ok :: "int \<Rightarrow> bool" where
  "i64_ok i \<longleftrightarrow> - (2 ^ 63) \<le> i \<and> i < 2 ^ 63"

text \<open>\<open>str::parse::<i64>\<close>: an optional sign and at least one digit, within range.\<close>

definition str_parse_i64 :: "string \<Rightarrow> int option" where
  "str_parse_i64 s =
     (let (neg, ds) = (case s of [] \<Rightarrow> (False, [])
                        | c # r \<Rightarrow> if c = CHR ''-'' then (True, r) else if c = CHR ''+'' then (False, r) else (False, s));
          n = (if neg then - int (read_nat ds) else int (read_nat ds))
      in if ds \<noteq> [] \<and> list_all is_digit ds \<and> i64_ok n then Some n else None)"

lemma str_parse_show_int [simp]: "i64_ok i \<Longrightarrow> str_parse_i64 (show_int i) = Some i"
proof -
  assume ok: "i64_ok i"
  have digits: "list_all is_digit (show_nat n)" for n
    using show_nat_digits by (simp add: list_all_iff)
  have first: "show_nat n = c # cs \<Longrightarrow> is_digit c" for n c cs
    using show_nat_digits [of n] by simp
  show ?thesis
  proof (cases "i < 0")
    case True
    then show ?thesis using ok by (simp add: str_parse_i64_def show_int_def digits)
  next
    case False
    obtain c cs where c: "show_nat (nat i) = c # cs" by (cases "show_nat (nat i)") auto
    then have "c \<noteq> CHR ''-''" "c \<noteq> CHR ''+''" using first [OF c] by (auto simp: is_digit_iff)
    then show ?thesis
      using False ok c digits [of "nat i"] read_show_nat [of "nat i"]
      by (simp add: str_parse_i64_def show_int_def)
  qed
qed

end
