(* ===== verification/Ordered.thy ===== *)
theory Ordered
  imports Prelude
begin

text \<open>
  The contract of Rust's \<open>Ord\<close> trait and the ordered collections of the standard library.
  \<open>ordered_at c x\<close> collects what the contract says about one element \<open>x\<close>, so that the laws of
  a recursive comparison are proved by induction on its first argument; \<open>rust_ord\<close> asks for
  it at every element.  A \<open>BTreeSet\<close> is the strictly ascending list of its elements, a
  \<open>BTreeMap\<close> the list of its entries with strictly ascending keys.
\<close>

section \<open>The contract of \<open>Ord\<close>\<close>

definition ordered_at :: "('a \<Rightarrow> 'a \<Rightarrow> ordering) \<Rightarrow> 'a \<Rightarrow> bool" where
  "ordered_at c x \<longleftrightarrow>
     (\<forall>y. c y x = invert (c x y)) \<and>
     (\<forall>y z. c x y = Less \<longrightarrow> c y z = Less \<longrightarrow> c x z = Less) \<and>
     (\<forall>y z. c x y = Greater \<longrightarrow> c y z = Greater \<longrightarrow> c x z = Greater) \<and>
     (\<forall>y z. c x y = Equal \<longrightarrow> c x z = c y z) \<and>
     (\<forall>y z. c y z = Equal \<longrightarrow> c x y = c x z)"

lemma ordered_atI:
  assumes "\<And>y. c y x = invert (c x y)"
    and "\<And>y z. c x y = Less \<Longrightarrow> c y z = Less \<Longrightarrow> c x z = Less"
    and "\<And>y z. c x y = Greater \<Longrightarrow> c y z = Greater \<Longrightarrow> c x z = Greater"
    and "\<And>y z. c x y = Equal \<Longrightarrow> c x z = c y z"
    and "\<And>y z. c y z = Equal \<Longrightarrow> c x y = c x z"
  shows "ordered_at c x"
  unfolding ordered_at_def by (intro conjI allI impI) (fact assms)+

lemma ordered_at_anti: "ordered_at c x \<Longrightarrow> c y x = invert (c x y)"
  unfolding ordered_at_def by (drule conjunct1) (erule spec)

lemma ordered_at_Less:
  assumes "ordered_at c x" "c x y = Less" "c y z = Less"
  shows "c x z = Less"
proof -
  have "\<forall>y z. c x y = Less \<longrightarrow> c y z = Less \<longrightarrow> c x z = Less"
    using assms(1) unfolding ordered_at_def by (elim conjE)
  from this [rule_format, OF assms(2-3)] show ?thesis .
qed

lemma ordered_at_Greater:
  assumes "ordered_at c x" "c x y = Greater" "c y z = Greater"
  shows "c x z = Greater"
proof -
  have "\<forall>y z. c x y = Greater \<longrightarrow> c y z = Greater \<longrightarrow> c x z = Greater"
    using assms(1) unfolding ordered_at_def by (elim conjE)
  from this [rule_format, OF assms(2-3)] show ?thesis .
qed

lemma ordered_at_Equal_l:
  assumes "ordered_at c x" "c x y = Equal"
  shows "c x z = c y z"
proof -
  have "\<forall>y z. c x y = Equal \<longrightarrow> c x z = c y z"
    using assms(1) unfolding ordered_at_def by (elim conjE)
  from this [rule_format, OF assms(2)] show ?thesis .
qed

lemma ordered_at_Equal_r:
  assumes "ordered_at c x" "c y z = Equal"
  shows "c x y = c x z"
proof -
  have "\<forall>y z. c y z = Equal \<longrightarrow> c x y = c x z"
    using assms(1) unfolding ordered_at_def by (elim conjE)
  from this [rule_format, OF assms(2)] show ?thesis .
qed

lemmas ordered_at_trans = ordered_at_Less ordered_at_Greater
lemmas ordered_at_Equal = ordered_at_Equal_l ordered_at_Equal_r

lemma ordered_at_refl: "ordered_at c x \<Longrightarrow> c x x = Equal"
  using ordered_at_anti [of c x x] by (cases "c x x") simp_all

lemma ordered_at_ord_cmp [simp]: "ordered_at ord_cmp (x::'a::linorder)"
  by (rule ordered_atI) (auto simp: ord_cmp_def split: if_splits)

lemma ordered_at_step:
  assumes "ordered_at c x"
  shows "c x y = Equal \<Longrightarrow> c y z = r \<Longrightarrow> c x z = r"
    and "c x y = r \<Longrightarrow> c y z = Equal \<Longrightarrow> c x z = r"
  using ordered_at_Equal [OF assms] by metis+

lemma ordered_at_flip:
  assumes "ordered_at c x"
  shows "ordered_at (\<lambda>a b. invert (c a b)) x"
proof (rule ordered_atI, goal_cases)
  case (1 y)
  show ?case by (simp add: ordered_at_anti [OF assms, of y])
next
  case (2 y z)
  then show ?case using ordered_at_trans(2) [OF assms, of y z] by simp
next
  case (3 y z)
  then show ?case using ordered_at_trans(1) [OF assms, of y z] by simp
next
  case (4 y z)
  then show ?case using ordered_at_Equal(1) [OF assms, of y z] by simp
next
  case (5 y z)
  then show ?case using ordered_at_Equal(2) [OF assms, of y z] by simp
qed

lemma then_cmp_trans:
  assumes c: "ordered_at c x" and d: "ordered_at d u"
    and "r \<noteq> Equal"
    and "then_cmp (c x y) (d u v) = r" and "then_cmp (c y z) (d v w) = r"
  shows "then_cmp (c x z) (d u w) = r"
proof (cases "c x y = Equal")
  case True
  then have xz: "c x z = c y z" by (rule ordered_at_Equal(1) [OF c])
  show ?thesis
    using assms(3-5) True ordered_at_trans [OF d, of v w] by (cases r) (auto simp: xz cmp_simps)
next
  case False
  then show ?thesis
    using assms(3-5) ordered_at_trans [OF c, of y z] ordered_at_step(2) [OF c, of y r z]
    by (cases r) (auto simp: cmp_simps)
qed

lemma then_cmp_Equal:
  assumes c: "ordered_at c x" and d: "ordered_at d u"
  shows "then_cmp (c x y) (d u v) = Equal \<Longrightarrow>
           then_cmp (c x z) (d u w) = then_cmp (c y z) (d v w)"
    and "then_cmp (c y z) (d v w) = Equal \<Longrightarrow>
           then_cmp (c x y) (d u v) = then_cmp (c x z) (d u w)"
proof -
  assume "then_cmp (c x y) (d u v) = Equal"
  then have "c x y = Equal" "d u v = Equal" by (simp_all add: then_cmp_eq)
  then have "c x z = c y z" "d u w = d v w"
    using ordered_at_Equal(1) [OF c, of y z] ordered_at_Equal(1) [OF d, of v w] by blast+
  then show "then_cmp (c x z) (d u w) = then_cmp (c y z) (d v w)" by (simp only:)
next
  assume "then_cmp (c y z) (d v w) = Equal"
  then have "c y z = Equal" "d v w = Equal" by (simp_all add: then_cmp_eq)
  then have "c x y = c x z" "d u v = d u w"
    using ordered_at_Equal(2) [OF c, of y z] ordered_at_Equal(2) [OF d, of v w] by blast+
  then show "then_cmp (c x y) (d u v) = then_cmp (c x z) (d u w)" by (simp only:)
qed

lemma ordered_at_pair:
  assumes c: "ordered_at c (fst p)" and d: "ordered_at d (snd p)"
  shows "ordered_at (\<lambda>p q. then_cmp (c (fst p) (fst q)) (d (snd p) (snd q))) p"
proof (rule ordered_atI, goal_cases)
  case (1 q)
  show ?case by (simp add: ordered_at_anti [OF c, of "fst q"] ordered_at_anti [OF d, of "snd q"])
next
  case (2 q r)
  show ?case by (rule then_cmp_trans [OF c d _ 2]) simp
next
  case (3 q r)
  show ?case by (rule then_cmp_trans [OF c d _ 3]) simp
next
  case (4 q r)
  then show ?case by (rule then_cmp_Equal(1) [OF c d])
next
  case (5 q r)
  then show ?case by (rule then_cmp_Equal(2) [OF c d])
qed

text \<open>Comparing by a key inherits the laws of the comparison of keys.\<close>

lemma ordered_at_key:
  assumes k: "ordered_at c (f x)"
  shows "ordered_at (\<lambda>a b. c (f a) (f b)) x"
proof (rule ordered_atI, goal_cases)
  case (1 y)
  show ?case by (rule ordered_at_anti [OF k])
next
  case (2 y z)
  then show ?case by (rule ordered_at_Less [OF k])
next
  case (3 y z)
  then show ?case by (rule ordered_at_Greater [OF k])
next
  case (4 y z)
  then show ?case by (rule ordered_at_Equal_l [OF k])
next
  case (5 y z)
  then show ?case by (rule ordered_at_Equal_r [OF k])
qed

lemma lex_cmp_Nil [simp]:
  "lex_cmp c xs [] = (if xs = [] then Equal else Greater)"
  "lex_cmp c [] xs = (if xs = [] then Equal else Less)"
  by (cases xs; simp)+

lemma lex_cmp_eq_Nil [simp]:
  "lex_cmp c (x # xs) ys = Equal \<Longrightarrow> ys \<noteq> []" by (cases ys) simp_all

lemma ordered_at_lex_cmp:
  assumes "\<forall>x\<in>set xs. ordered_at c x"
  shows "ordered_at (lex_cmp c) xs"
  using assms
proof (induction xs)
  case Nil
  show ?case
  proof (rule ordered_atI, goal_cases)
    case (5 ys zs)
    then show ?case by (cases ys; cases zs) simp_all
  qed (auto split: if_splits)
next
  case (Cons x xs)
  then have x: "ordered_at c x" and xs: "ordered_at (lex_cmp c) xs" by simp_all
  note tr = then_cmp_trans [OF x xs] and eq = then_cmp_Equal [OF x xs]
  show ?case
  proof (rule ordered_atI, goal_cases)
    case (1 ys)
    show ?case
    proof (cases ys)
      case (Cons y ys')
      then show ?thesis using ordered_at_anti [OF x, of y] ordered_at_anti [OF xs, of ys'] by simp
    qed simp
  next
    case (2 ys zs)
    then show ?case using tr [of Less "hd ys" "tl ys" "hd zs" "tl zs"]
      by (cases ys; cases zs) simp_all
  next
    case (3 ys zs)
    then show ?case using tr [of Greater "hd ys" "tl ys" "hd zs" "tl zs"]
      by (cases ys; cases zs) simp_all
  next
    case (4 ys zs)
    then obtain y ys' where "ys = y # ys'" by (cases ys) simp_all
    then show ?case using 4 eq(1) [of y ys' "hd zs" "tl zs"] by (cases zs) simp_all
  next
    case (5 ys zs)
    then show ?case using eq(2) [of "hd ys" "hd zs" "tl ys" "tl zs"]
      by (cases ys; cases zs) simp_all
  qed
qed

lemma lex_cmp_Equal:
  assumes "\<forall>x\<in>set xs. \<forall>y\<in>set ys. c x y = Equal \<longleftrightarrow> x = y"
  shows "lex_cmp c xs ys = Equal \<longleftrightarrow> xs = ys"
  using assms by (induction c xs ys rule: lex_cmp.induct) (auto simp: cmp_simps)

section \<open>\<open>BTreeSet\<close> and \<open>BTreeMap\<close>\<close>

definition ascending :: "('a \<Rightarrow> 'a \<Rightarrow> ordering) \<Rightarrow> 'a list \<Rightarrow> bool" where
  "ascending c xs = sorted_wrt (\<lambda>x y. c x y = Less) xs"

fun bt_set_insert :: "('a \<Rightarrow> 'a \<Rightarrow> ordering) \<Rightarrow> 'a \<Rightarrow> 'a list \<Rightarrow> 'a list" where
  "bt_set_insert c x [] = [x]"
| "bt_set_insert c x (y # ys) =
     (case c x y of Less \<Rightarrow> x # y # ys | Equal \<Rightarrow> y # ys | Greater \<Rightarrow> y # bt_set_insert c x ys)"

definition bt_set_of_list :: "('a \<Rightarrow> 'a \<Rightarrow> ordering) \<Rightarrow> 'a list \<Rightarrow> 'a list" where
  "bt_set_of_list c xs = foldl (\<lambda>s x. bt_set_insert c x s) [] xs"

fun bt_insert :: "('k \<Rightarrow> 'k \<Rightarrow> ordering) \<Rightarrow> 'k \<Rightarrow> 'v \<Rightarrow> ('k \<times> 'v) list \<Rightarrow> ('k \<times> 'v) list" where
  "bt_insert c k v [] = [(k, v)]"
| "bt_insert c k v ((k', v') # m) =
     (case c k k' of Less \<Rightarrow> (k, v) # (k', v') # m | Equal \<Rightarrow> (k', v) # m
      | Greater \<Rightarrow> (k', v') # bt_insert c k v m)"

definition bt_of_list :: "('k \<Rightarrow> 'k \<Rightarrow> ordering) \<Rightarrow> ('k \<times> 'v) list \<Rightarrow> ('k \<times> 'v) list" where
  "bt_of_list c kvs = foldl (\<lambda>m kv. bt_insert c (fst kv) (snd kv) m) [] kvs"

fun bt_get :: "('k \<Rightarrow> 'k \<Rightarrow> ordering) \<Rightarrow> 'k \<Rightarrow> ('k \<times> 'v) list \<Rightarrow> 'v option" where
  "bt_get c k [] = None"
| "bt_get c k ((k', v) # m) =
     (case c k k' of Less \<Rightarrow> None | Equal \<Rightarrow> Some v | Greater \<Rightarrow> bt_get c k m)"

lemma ascending_simps [simp]:
  "ascending c []" "ascending c (x # xs) \<longleftrightarrow> (\<forall>y\<in>set xs. c x y = Less) \<and> ascending c xs"
  by (simp_all add: ascending_def)

lemma ascending_snoc [simp]:
  "ascending c (xs @ [x]) \<longleftrightarrow> ascending c xs \<and> (\<forall>y\<in>set xs. c y x = Less)"
  by (auto simp: ascending_def sorted_wrt_append)

lemma set_bt_set_insert: "set (bt_set_insert c x ys) \<subseteq> insert x (set ys)"
  by (induction ys) (auto split: ordering.splits)

lemma set_bt_insert: "set (bt_insert c k v m) \<subseteq> insert (k, v) (set m) \<union> (fst ` set m) \<times> {v}"
  by (induction c k v m rule: bt_insert.induct) (fastforce split: ordering.splits)+

lemma keys_bt_insert: "fst ` set (bt_insert c k v m) \<subseteq> insert k (fst ` set m)"
  by (induction c k v m rule: bt_insert.induct) (auto split: ordering.splits)

locale rust_ord =
  fixes cmp :: "'a \<Rightarrow> 'a \<Rightarrow> ordering"
  assumes ordered: "ordered_at cmp x"
begin

lemma cmp_refl [simp]: "cmp x x = Equal" by (rule ordered_at_refl [OF ordered])

lemma cmp_sym: "cmp y x = invert (cmp x y)" by (rule ordered_at_anti [OF ordered])

lemma cmp_Less_trans: "cmp x y = Less \<Longrightarrow> cmp y z = Less \<Longrightarrow> cmp x z = Less"
  by (rule ordered_at_Less [OF ordered])

lemma cmp_Equal_l: "cmp x y = Equal \<Longrightarrow> cmp x z = cmp y z"
  by (rule ordered_at_Equal_l [OF ordered])

lemma cmp_Equal_r: "cmp y z = Equal \<Longrightarrow> cmp x y = cmp x z"
  by (rule ordered_at_Equal_r [OF ordered])

lemma cmp_Greater: "cmp x y = Greater \<longleftrightarrow> cmp y x = Less"
  using cmp_sym [of x y] by (cases "cmp y x") simp_all

lemma cmp_Less_Equal: "cmp x y = Less \<Longrightarrow> cmp y z = Equal \<Longrightarrow> cmp x z = Less"
  using cmp_Equal_r [of y z x] by simp

lemma ascending_bt_set_insert: "ascending cmp s \<Longrightarrow> ascending cmp (bt_set_insert cmp x s)"
proof (induction s)
  case (Cons y s)
  show ?case
  proof (cases "cmp x y")
    case Less
    then show ?thesis using Cons.prems by (auto intro: cmp_Less_trans)
  next
    case Equal
    then show ?thesis using Cons.prems by simp
  next
    case Greater
    then have "cmp y x = Less" by (simp add: cmp_Greater)
    then show ?thesis using Greater Cons set_bt_set_insert [of cmp x s] by auto
  qed
qed simp

lemma ascending_bt_set_of_list: "ascending cmp (bt_set_of_list cmp xs)"
  unfolding bt_set_of_list_def
  by (induction xs rule: rev_induct) (simp_all add: ascending_bt_set_insert)

lemma bt_set_insert_last:
  "\<forall>y\<in>set s. cmp y x = Less \<Longrightarrow> bt_set_insert cmp x s = s @ [x]"
  by (induction s) (simp_all add: cmp_Greater [symmetric] del: cmp_Greater)

lemma bt_set_of_list_ascending: "ascending cmp s \<Longrightarrow> bt_set_of_list cmp s = s"
  unfolding bt_set_of_list_def
  by (induction s rule: rev_induct) (simp_all add: bt_set_insert_last)

lemma bt_set_insert_mem:
  "(\<exists>z\<in>set (bt_set_insert cmp x s). cmp y z = Equal) \<longleftrightarrow>
     cmp y x = Equal \<or> (\<exists>z\<in>set s. cmp y z = Equal)"
proof (induction s)
  case (Cons w s)
  show ?case
  proof (cases "cmp x w")
    case Equal
    then have "cmp y x = cmp y w" by (rule cmp_Equal_r)
    then show ?thesis using Equal by auto
  qed (use Cons in auto)
qed simp

lemma ascending_bt_insert:
  "ascending cmp (map fst m) \<Longrightarrow> ascending cmp (map fst (bt_insert cmp k v m))"
proof (induction m)
  case (Cons e m)
  obtain k' v' where e: "e = (k', v')" by (cases e)
  show ?case
  proof (cases "cmp k k'")
    case Less
    then show ?thesis using Cons.prems e by (auto intro: cmp_Less_trans)
  next
    case Equal
    then show ?thesis using Cons.prems e by simp
  next
    case Greater
    then have "cmp k' k = Less" by (simp add: cmp_Greater)
    moreover have "cmp k' (fst e') = Less" if "e' \<in> set (bt_insert cmp k v m)" for e'
    proof -
      have "fst e' \<in> insert k (fst ` set m)" using that keys_bt_insert [of cmp k v m] by blast
      then show ?thesis using Cons.prems e \<open>cmp k' k = Less\<close> by auto
    qed
    ultimately show ?thesis using Greater Cons e by simp
  qed
qed simp

lemma ascending_bt_of_list: "ascending cmp (map fst (bt_of_list cmp kvs))"
  unfolding bt_of_list_def
  by (induction kvs rule: rev_induct) (simp_all add: ascending_bt_insert)

lemma bt_insert_last:
  "\<forall>e\<in>set m. cmp (fst e) k = Less \<Longrightarrow> bt_insert cmp k v m = m @ [(k, v)]"
proof (induction m)
  case (Cons e m)
  then have "cmp k (fst e) = Greater" by (simp add: cmp_Greater)
  then show ?case using Cons by (cases e) simp
qed simp

lemma bt_of_list_ascending: "ascending cmp (map fst m) \<Longrightarrow> bt_of_list cmp m = m"
  unfolding bt_of_list_def
  by (induction m rule: rev_induct) (simp_all add: bt_insert_last)

lemma bt_get_insert:
  "ascending cmp (map fst m) \<Longrightarrow>
     bt_get cmp k' (bt_insert cmp k v m) = (if cmp k' k = Equal then Some v else bt_get cmp k' m)"
proof (induction m)
  case Nil
  then show ?case by (cases "cmp k' k") simp_all
next
  case (Cons e m)
  obtain j w where e: "e = (j, w)" by (cases e)
  show ?case
  proof (cases "cmp k j")
    case Less
    then show ?thesis using e cmp_Less_trans [of k' k j] cmp_Equal_l [of k' k j]
      by (cases "cmp k' k") simp_all
  next
    case Equal
    then have "cmp k' k = cmp k' j" by (rule cmp_Equal_r)
    then show ?thesis using Equal e by (cases "cmp k' j") simp_all
  next
    case Greater
    then have jk: "cmp j k = Less" by (simp add: cmp_Greater)
    have "cmp k' j = Greater" if "cmp k' k = Equal" using that Greater cmp_Equal_l [of k' k j] by simp
    moreover have "cmp k' k \<noteq> Equal" if "cmp k' j \<noteq> Greater" using calculation that by blast
    ultimately show ?thesis using Cons Greater e by (cases "cmp k' j") simp_all
  qed
qed

end

text \<open>The stronger contract of types whose comparison is equal only on equal values; \<open>ok\<close>
  is the well-formedness invariant under which that holds.\<close>

locale rust_ord_eq = rust_ord cmp for cmp :: "'a \<Rightarrow> 'a \<Rightarrow> ordering" +
  fixes ok :: "'a \<Rightarrow> bool"
  assumes cmp_eq: "ok x \<Longrightarrow> ok y \<Longrightarrow> cmp x y = Equal \<Longrightarrow> x = y"
begin

lemma set_bt_set_of_list:
  "\<forall>x\<in>set xs. ok x \<Longrightarrow> set (bt_set_of_list cmp xs) = set xs"
  unfolding bt_set_of_list_def
proof (induction xs rule: rev_induct)
  case (snoc x xs)
  let ?s = "foldl (\<lambda>s x. bt_set_insert cmp x s) [] xs"
  have IH: "set ?s = set xs" using snoc by simp
  have "set (bt_set_insert cmp x s) = insert x (set s)" if "\<forall>y\<in>set s. ok y" for s
    using that snoc.prems by (induction s) (auto split: ordering.splits dest: cmp_eq)
  then show ?case using snoc.prems IH by simp
qed simp

lemma ascending_ext:
  assumes "ascending cmp s" "ascending cmp t" "set s = set t"
  shows "s = t"
  using assms
proof (induction s arbitrary: t)
  case (Cons x s)
  then obtain y t' where t: "t = y # t'" by (cases t) auto
  have irr: "cmp z z \<noteq> Less" for z by simp
  have "x = y"
  proof (rule ccontr)
    assume "x \<noteq> y"
    then have "x \<in> set t'" "y \<in> set s" using Cons.prems(3) t by auto
    then have "cmp x y = Less" "cmp y x = Less" using Cons.prems(1,2) t by auto
    then show False using cmp_Less_trans [of x y x] by simp
  qed
  moreover have "x \<notin> set s" "y \<notin> set t'" using Cons.prems(1,2) t irr by auto
  ultimately have "set s = set t'" using Cons.prems(3) t by (metis insert_ident list.set(2))
  then show ?case using Cons t \<open>x = y\<close> by simp
qed simp

end

end
