(* ===== verification/Symbols.thy ===== *)
theory Symbols
  imports Ordered
begin

text \<open>
  Symbols and keywords (\<open>edn/src/namespaceable_name.rs\<close>, \<open>edn/src/symbols.rs\<close>).  A
  \<open>NamespaceableName\<close> is one string with the byte index of its dividing solidus; \<open>wf_name\<close> is
  the invariant the source's comments ask of that index, and every constructor establishes
  it.  The source's assertions are the \<open>Panic\<close> results.  Slices of the string are taken
  with \<open>take\<close> and \<open>drop\<close>: on well-formed names they are in range.
\<close>

section \<open>\<open>NamespaceableName\<close>\<close>

record namespaceable_name =
  components :: string
  boundary :: nat

definition unnamed :: panic where
  "unnamed = Panic ''Symbols and keywords cannot be unnamed.''"

definition empty_namespace :: panic where
  "empty_namespace = Panic ''Symbols and keywords cannot have an empty non-null namespace.''"

definition nn_plain :: "string \<Rightarrow> (panic, namespaceable_name) result" where
  "nn_plain n = (if n = [] then Inl unnamed else Inr \<lparr>components = n, boundary = 0\<rparr>)"

definition nn_namespaced :: "string \<Rightarrow> string \<Rightarrow> (panic, namespaceable_name) result" where
  "nn_namespaced ns n =
     (if n = [] then Inl unnamed
      else if ns = [] then Inl empty_namespace
      else Inr \<lparr>components = ns @ ''/'' @ n, boundary = length ns\<rparr>)"

definition nn_new :: "string option \<Rightarrow> string \<Rightarrow> (panic, namespaceable_name) result" where
  "nn_new ns n = (case ns of Some ns' \<Rightarrow> nn_namespaced ns' n | None \<Rightarrow> nn_plain n)"

definition nn_is_namespaced :: "namespaceable_name \<Rightarrow> bool" where
  "nn_is_namespaced x = (boundary x > 0)"

definition nn_namespace :: "namespaceable_name \<Rightarrow> string option" where
  "nn_namespace x = (if boundary x > 0 then Some (take (boundary x) (components x)) else None)"

definition nn_name :: "namespaceable_name \<Rightarrow> string" where
  "nn_name x = (if boundary x = 0 then components x else drop (boundary x + 1) (components x))"

definition nn_components :: "namespaceable_name \<Rightarrow> string \<times> string" where
  "nn_components x =
     (if boundary x > 0
      then (take (boundary x) (components x), drop (boundary x + 1) (components x))
      else ([], components x))"

definition starts_with :: "string \<Rightarrow> char \<Rightarrow> bool" where
  "starts_with s c = (case s of [] \<Rightarrow> False | d # _ \<Rightarrow> d = c)"

definition nn_is_backward :: "namespaceable_name \<Rightarrow> bool" where
  "nn_is_backward x = starts_with (nn_name x) (CHR ''_'')"

definition nn_is_forward :: "namespaceable_name \<Rightarrow> bool" where
  "nn_is_forward x = (\<not> nn_is_backward x)"

definition nn_to_reversed :: "namespaceable_name \<Rightarrow> (panic, namespaceable_name) result" where
  "nn_to_reversed x =
     (let name = nn_name x in
      if starts_with name (CHR ''_'') then nn_new (nn_namespace x) (tl name)
      else nn_new (nn_namespace x) (CHR ''_'' # name))"

definition str_cmp :: "string \<Rightarrow> string \<Rightarrow> ordering" where
  "str_cmp = lex_cmp ord_cmp"

definition nn_cmp :: "namespaceable_name \<Rightarrow> namespaceable_name \<Rightarrow> ordering" where
  "nn_cmp x y =
     then_cmp (str_cmp (fst (nn_components x)) (fst (nn_components y)))
              (str_cmp (snd (nn_components x)) (snd (nn_components y)))"

definition nn_display :: "namespaceable_name \<Rightarrow> string" where
  "nn_display x = components x"

datatype name_error = EmptyName | EmptyNamespace

text \<open>Serialisation goes through the pair of optional namespace and name.\<close>

definition nn_serialize :: "namespaceable_name \<Rightarrow> string option \<times> string" where
  "nn_serialize x = (nn_namespace x, nn_name x)"

definition nn_deserialize ::
  "string option \<times> string \<Rightarrow> (name_error, (panic, namespaceable_name) result) result" where
  "nn_deserialize s =
     (if snd s = [] then Inl EmptyName
      else case fst s of
        Some ns \<Rightarrow> if ns = [] then Inl EmptyNamespace else Inr (nn_namespaced ns (snd s))
      | None \<Rightarrow> Inr (nn_plain (snd s)))"

section \<open>\<open>PlainSymbol\<close>, \<open>NamespacedSymbol\<close>, \<open>Keyword\<close>\<close>

datatype plain_symbol = PlainSymbol string

datatype namespaced_symbol = NamespacedSymbol namespaceable_name

datatype keyword = Keyword namespaceable_name

definition ps_plain :: "string \<Rightarrow> (panic, plain_symbol) result" where
  "ps_plain n = (if n = [] then Inl (Panic ''Symbols cannot be unnamed.'') else Inr (PlainSymbol n))"

primrec ps_is_var_symbol :: "plain_symbol \<Rightarrow> bool" where
  "ps_is_var_symbol (PlainSymbol s) = starts_with s (CHR ''?'')"

primrec ps_is_src_symbol :: "plain_symbol \<Rightarrow> bool" where
  "ps_is_src_symbol (PlainSymbol s) = starts_with s (CHR ''$'')"

primrec ps_name :: "plain_symbol \<Rightarrow> string" where
  "ps_name (PlainSymbol s) =
     (if ps_is_src_symbol (PlainSymbol s) \<or> ps_is_var_symbol (PlainSymbol s) then drop 1 s else s)"

definition ns_namespaced :: "string \<Rightarrow> string \<Rightarrow> (panic, namespaced_symbol) result" where
  "ns_namespaced ns n =
     (if ns = [] then Inl (Panic ''Namespaced symbols cannot have an empty non-null namespace.'')
      else rbind (nn_namespaced ns n) (\<lambda>x. Inr (NamespacedSymbol x)))"

definition kw_plain :: "string \<Rightarrow> (panic, keyword) result" where
  "kw_plain n = rbind (nn_plain n) (\<lambda>x. Inr (Keyword x))"

definition kw_namespaced :: "string \<Rightarrow> string \<Rightarrow> (panic, keyword) result" where
  "kw_namespaced ns n =
     (if ns = [] then Inl (Panic ''Namespaced keywords cannot have an empty non-null namespace.'')
      else rbind (nn_namespaced ns n) (\<lambda>x. Inr (Keyword x)))"

primrec kw_name :: "keyword \<Rightarrow> string" where "kw_name (Keyword x) = nn_name x"

primrec kw_namespace :: "keyword \<Rightarrow> string option" where
  "kw_namespace (Keyword x) = nn_namespace x"

primrec kw_components :: "keyword \<Rightarrow> string \<times> string" where
  "kw_components (Keyword x) = nn_components x"

primrec kw_is_backward :: "keyword \<Rightarrow> bool" where
  "kw_is_backward (Keyword x) = nn_is_backward x"

primrec kw_is_forward :: "keyword \<Rightarrow> bool" where
  "kw_is_forward (Keyword x) = nn_is_forward x"

primrec kw_is_namespaced :: "keyword \<Rightarrow> bool" where
  "kw_is_namespaced (Keyword x) = nn_is_namespaced x"

primrec kw_to_reversed :: "keyword \<Rightarrow> (panic, keyword) result" where
  "kw_to_reversed (Keyword x) = rbind (nn_to_reversed x) (\<lambda>y. Inr (Keyword y))"

definition kw_unreversed :: "keyword \<Rightarrow> (panic, keyword option) result" where
  "kw_unreversed k =
     (if kw_is_backward k then rbind (kw_to_reversed k) (\<lambda>k'. Inr (Some k')) else Inr None)"

primrec ps_display :: "plain_symbol \<Rightarrow> string" where
  "ps_display (PlainSymbol s) = s"

primrec ns_display :: "namespaced_symbol \<Rightarrow> string" where
  "ns_display (NamespacedSymbol x) = nn_display x"

primrec kw_display :: "keyword \<Rightarrow> string" where
  "kw_display (Keyword x) = CHR '':'' # nn_display x"

primrec ps_cmp :: "plain_symbol \<Rightarrow> plain_symbol \<Rightarrow> ordering" where
  "ps_cmp (PlainSymbol s) y = (case y of PlainSymbol t \<Rightarrow> str_cmp s t)"

primrec ns_cmp :: "namespaced_symbol \<Rightarrow> namespaced_symbol \<Rightarrow> ordering" where
  "ns_cmp (NamespacedSymbol x) y = (case y of NamespacedSymbol x' \<Rightarrow> nn_cmp x x')"

primrec kw_cmp :: "keyword \<Rightarrow> keyword \<Rightarrow> ordering" where
  "kw_cmp (Keyword x) y = (case y of Keyword x' \<Rightarrow> nn_cmp x x')"

section \<open>The invariant\<close>

definition wf_name :: "namespaceable_name \<Rightarrow> bool" where
  "wf_name x \<longleftrightarrow>
     (if boundary x = 0 then components x \<noteq> []
      else boundary x + 1 < length (components x) \<and> components x ! boundary x = CHR ''/'')"

primrec wf_keyword :: "keyword \<Rightarrow> bool" where "wf_keyword (Keyword x) = wf_name x"

primrec wf_namespaced_symbol :: "namespaced_symbol \<Rightarrow> bool" where
  "wf_namespaced_symbol (NamespacedSymbol x) \<longleftrightarrow> wf_name x \<and> boundary x > 0"

lemmas nn_defs = nn_plain_def nn_namespaced_def nn_new_def nn_is_namespaced_def nn_namespace_def
  nn_name_def nn_components_def nn_is_backward_def nn_is_forward_def

lemma starts_with_simps [simp]: "starts_with [] c = False" "starts_with (d # s) c = (d = c)"
  by (simp_all add: starts_with_def)

lemma nn_new_wf: "nn_new ns n = Inr x \<Longrightarrow> wf_name x"
  by (auto simp: nn_defs wf_name_def nth_append split: option.splits if_splits)

lemma nn_new_parts: "nn_new ns n = Inr x \<Longrightarrow> nn_namespace x = ns \<and> nn_name x = n"
  by (auto simp: nn_defs split: option.splits if_splits)

lemma nn_new_is_ok: "is_ok (nn_new ns n) \<longleftrightarrow> n \<noteq> [] \<and> ns \<noteq> Some []"
  by (auto simp: nn_defs split: option.splits)

lemma nn_parts_new: "wf_name x \<Longrightarrow> nn_new (nn_namespace x) (nn_name x) = Inr x"
  using id_take_nth_drop [of "boundary x" "components x", symmetric]
  by (cases x) (auto simp: nn_defs wf_name_def split: if_splits)

lemma wf_name_parts: "wf_name x \<Longrightarrow> nn_name x \<noteq> [] \<and> nn_namespace x \<noteq> Some []"
  by (auto simp: nn_defs wf_name_def split: if_splits)

lemma nn_components_parts:
  "nn_components x = (case nn_namespace x of None \<Rightarrow> [] | Some ns \<Rightarrow> ns, nn_name x)"
  by (simp add: nn_defs)

lemma wf_name_eqI:
  assumes "wf_name x" "wf_name y" "nn_namespace x = nn_namespace y" "nn_name x = nn_name y"
  shows "x = y"
proof -
  have "nn_new (nn_namespace y) (nn_name y) = Inr x"
    using nn_parts_new [OF assms(1)] unfolding assms(3,4) .
  then show ?thesis using nn_parts_new [OF assms(2)] by simp
qed

lemma nn_components_inj:
  "wf_name x \<Longrightarrow> wf_name y \<Longrightarrow> nn_components x = nn_components y \<Longrightarrow> x = y"
  by (rule wf_name_eqI, assumption+) (auto simp: nn_components_parts dest: wf_name_parts split: option.splits)

section \<open>The order\<close>

lemma ordered_at_str_cmp [simp]: "ordered_at str_cmp s"
  unfolding str_cmp_def by (rule ordered_at_lex_cmp) simp

lemma str_cmp_Equal [simp]: "str_cmp s t = Equal \<longleftrightarrow> s = t"
  unfolding str_cmp_def by (rule lex_cmp_Equal) simp

lemma ordered_at_nn_cmp [simp]: "ordered_at nn_cmp x"
proof -
  have "ordered_at (\<lambda>a b. then_cmp (str_cmp (fst (nn_components a)) (fst (nn_components b)))
      (str_cmp (snd (nn_components a)) (snd (nn_components b)))) x"
    by (rule ordered_at_key [where f = nn_components], rule ordered_at_pair) simp_all
  then show ?thesis by (simp add: nn_cmp_def [abs_def])
qed

interpretation str_ord: rust_ord_eq str_cmp "\<lambda>_. True"
  by unfold_locales simp_all

interpretation nn_ord: rust_ord_eq nn_cmp wf_name
  by unfold_locales (auto simp: nn_cmp_def cmp_simps prod_eq_iff intro: nn_components_inj)

section \<open>Properties\<close>

text \<open>C35.  The constructors of symbols and keywords build exactly the well-formed names: a
  name is well-formed (its boundary is the byte index of its dividing solidus, both parts
  non-empty) with given namespace and name parts if and only if \<open>NamespaceableName::new\<close>
  returns it for these parts.  So the accessors invert the constructor, the constructor
  panics precisely when no such name exists, and no other value can be built.\<close>

theorem nn_new_iff:
  "nn_new ns n = Inr x \<longleftrightarrow> wf_name x \<and> nn_namespace x = ns \<and> nn_name x = n"
  by (rule iffI) (simp add: nn_new_wf nn_new_parts, auto simp: nn_parts_new)

text \<open>C36.  Reversing a name twice gives the name back, except for names that begin with two
  underscores, which lose both of them, and for the name consisting of one underscore, whose
  reversal panics.  \<open>Keyword::to_reversed\<close> is documented as its own inverse.\<close>

theorem nn_to_reversed_twice:
  assumes "wf_name x"
  shows "rbind (nn_to_reversed x) nn_to_reversed =
    (if nn_name x = ''_'' then Inl unnamed
     else if take 2 (nn_name x) = ''__'' then nn_new (nn_namespace x) (drop 2 (nn_name x))
     else Inr x)"
proof -
  obtain c n where name: "nn_name x = c # n" using wf_name_parts [OF assms] by (cases "nn_name x") auto
  have new: "\<exists>y. nn_new (nn_namespace x) m = Inr y \<and> nn_namespace y = nn_namespace x \<and> nn_name y = m"
    if "m \<noteq> []" for m
    using that wf_name_parts [OF assms] nn_new_is_ok [of "nn_namespace x" m] nn_new_parts
    by (cases "nn_new (nn_namespace x) m") auto
  show ?thesis
  proof (cases "c = CHR ''_'' \<and> n \<noteq> []")
    case True
    then obtain y where y: "nn_new (nn_namespace x) n = Inr y" "nn_namespace y = nn_namespace x"
      "nn_name y = n" using new by blast
    have orig: "nn_new (nn_namespace x) (CHR ''_'' # n) = Inr x"
      using nn_parts_new [OF assms] name True by simp
    show ?thesis using True y name orig by (cases n) (auto simp: nn_to_reversed_def Let_def)
  next
    case False
    obtain y where y: "nn_new (nn_namespace x) (CHR ''_'' # c # n) = Inr y"
      "nn_namespace y = nn_namespace x" "nn_name y = CHR ''_'' # c # n" using new by blast
    show ?thesis using False name y nn_parts_new [OF assms] wf_name_parts [OF assms]
      by (auto simp: nn_to_reversed_def Let_def nn_defs split: option.splits)
  qed
qed

theorem nn_to_reversed_twice_witness:
  "wf_name \<lparr>components = ''movie/director'', boundary = 5\<rparr> \<and>
   rbind (nn_to_reversed \<lparr>components = ''movie/director'', boundary = 5\<rparr>) nn_to_reversed =
     Inr \<lparr>components = ''movie/director'', boundary = 5\<rparr>"
  using nn_to_reversed_twice [of "\<lparr>components = ''movie/director'', boundary = 5\<rparr>"]
  by (simp add: wf_name_def nn_name_def)

text \<open>The order of names that \<open>BTreeSet\<close> and \<open>BTreeMap\<close> rely on: on well-formed names it
  is a total order (equal only on equal names, antisymmetric, transitive), names without a
  namespace sort before all namespaced ones, and within one namespace names are ordered by
  their name part.\<close>

theorem nn_cmp_total_order:
  assumes "wf_name x" "wf_name y" "wf_name z"
  shows "(nn_cmp x y = Equal \<longleftrightarrow> x = y) \<and>
    nn_cmp y x = invert (nn_cmp x y) \<and>
    (nn_cmp x y = Less \<longrightarrow> nn_cmp y z = Less \<longrightarrow> nn_cmp x z = Less) \<and>
    (nn_namespace x = None \<longrightarrow> nn_namespace y \<noteq> None \<longrightarrow> nn_cmp x y = Less) \<and>
    (nn_namespace x = nn_namespace y \<longrightarrow> nn_cmp x y = str_cmp (nn_name x) (nn_name y))"
proof (intro conjI impI)
  show "nn_cmp x y = Equal \<longleftrightarrow> x = y" using assms nn_ord.cmp_eq by auto
  show "nn_cmp y x = invert (nn_cmp x y)" by (rule nn_ord.cmp_sym)
  show "nn_cmp x z = Less" if "nn_cmp x y = Less" "nn_cmp y z = Less"
    using that by (rule nn_ord.cmp_Less_trans)
  show "nn_cmp x y = Less" if "nn_namespace x = None" "nn_namespace y \<noteq> None"
    using that wf_name_parts [OF assms(2)]
    by (auto simp: nn_cmp_def nn_components_parts str_cmp_def)
  show "nn_cmp x y = str_cmp (nn_name x) (nn_name y)" if "nn_namespace x = nn_namespace y"
    using that by (simp add: nn_cmp_def nn_components_parts)
qed

theorem nn_cmp_total_order_witness:
  "let a = \<lparr>components = ''zoo'', boundary = 0\<rparr>; b = \<lparr>components = ''a/b'', boundary = 1\<rparr>;
       c = \<lparr>components = ''a/c'', boundary = 1\<rparr>
   in nn_cmp a b = Less \<and> nn_cmp b c = Less \<and> nn_cmp a c = Less"
  using nn_cmp_total_order [of "\<lparr>components = ''zoo'', boundary = 0\<rparr>"
      "\<lparr>components = ''a/b'', boundary = 1\<rparr>" "\<lparr>components = ''a/c'', boundary = 1\<rparr>"]
    nn_cmp_total_order [of "\<lparr>components = ''a/b'', boundary = 1\<rparr>"
      "\<lparr>components = ''a/c'', boundary = 1\<rparr>" "\<lparr>components = ''a/c'', boundary = 1\<rparr>"]
  by (simp add: wf_name_def nn_namespace_def nn_name_def str_cmp_def ord_cmp_def)

end
