(* ===== verification/Edn_Value.thy ===== *)
theory Edn_Value
  imports Symbols Complex_Main
begin

text \<open>
  EDN values (\<open>edn/src/types.rs\<close>, the text printer of \<open>edn/src/pretty_print.rs\<close>).  The
  constructors of \<open>edn_value\<close> are those of the enum \<open>Value\<close>; a \<open>BTreeSet\<close> is the strictly
  ascending list of its elements and a \<open>BTreeMap\<close> the list of its entries, both with respect
  to \<open>value_cmp\<close>, which is the enum's \<open>Ord\<close> implementation (every like-typed comparison has
  its arguments swapped, as in the source).  An \<open>OrderedFloat<f64>\<close> is a rational or one of
  the three special values; a \<open>DateTime<Utc>\<close> is its seconds since the epoch and the
  nanoseconds within the second; a \<open>BigInt\<close> is an \<open>int\<close>, a \<open>Uuid\<close> and a \<open>Bytes\<close> their bytes.
  What third-party crates print and compute is the record \<open>ext\<close> of functions.
\<close>

section \<open>Data\<close>

datatype f64 = NegInfinity | Finite rat | PosInfinity | NaN

datatype datetime = DateTime (dt_secs: int) (dt_nanos: nat)

datatype edn_value =
    VNil
  | VBoolean bool
  | VInteger int
  | VInstant datetime
  | VBigInteger int
  | VFloat f64
  | VText string
  | VUuid string
  | VPlainSymbol plain_symbol
  | VNamespacedSymbol namespaced_symbol
  | VKeyword keyword
  | VVector "edn_value list"
  | VList "edn_value list"
  | VSet "edn_value list"
  | VMap "(edn_value \<times> edn_value) list"
  | VBytes string

text \<open>Functions of the crates \<open>chrono\<close>, \<open>uuid\<close>, \<open>hex\<close> and of the standard library's floating
  point formatting that the printers and the reader call.  \<open>sample_ext\<close> is a concrete
  instance for evaluating definitions on examples.\<close>

record ext =
  rfc3339 :: "datetime \<Rightarrow> string"
  hyphenated :: "string \<Rightarrow> string"
  hex_encode :: "string \<Rightarrow> string"
  show_f64 :: "f64 \<Rightarrow> string"
  timestamp_opt :: "int \<Rightarrow> nat \<Rightarrow> datetime option"
  parse_f64 :: "string \<Rightarrow> f64"
  parse_rfc3339 :: "string \<Rightarrow> datetime option"
  parse_uuid :: "string \<Rightarrow> string option"
  hex_decode :: "string \<Rightarrow> string option"

definition sample_ext :: ext where
  "sample_ext = \<lparr>rfc3339 = \<lambda>_. [], hyphenated = id, hex_encode = id, show_f64 = \<lambda>_. [],
     timestamp_opt = \<lambda>s n. Some (DateTime s n), parse_f64 = \<lambda>_. NaN,
     parse_rfc3339 = \<lambda>_. None, parse_uuid = Some,
     hex_decode = \<lambda>s. if even (length s) then Some s else None\<rparr>"

section \<open>Comparison\<close>

primrec is_keyword :: "edn_value \<Rightarrow> bool" where
  "is_keyword VNil = False"
| "is_keyword (VBoolean _) = False"
| "is_keyword (VInteger _) = False"
| "is_keyword (VInstant _) = False"
| "is_keyword (VBigInteger _) = False"
| "is_keyword (VFloat _) = False"
| "is_keyword (VText _) = False"
| "is_keyword (VUuid _) = False"
| "is_keyword (VPlainSymbol _) = False"
| "is_keyword (VNamespacedSymbol _) = False"
| "is_keyword (VKeyword k) = (\<not> kw_is_namespaced k)"
| "is_keyword (VVector _) = False"
| "is_keyword (VList _) = False"
| "is_keyword (VSet _) = False"
| "is_keyword (VMap _) = False"
| "is_keyword (VBytes _) = False"

primrec precedence :: "edn_value \<Rightarrow> nat" where
  "precedence VNil = 0"
| "precedence (VBoolean _) = 1"
| "precedence (VInteger _) = 2"
| "precedence (VBigInteger _) = 3"
| "precedence (VFloat _) = 4"
| "precedence (VInstant _) = 5"
| "precedence (VText _) = 6"
| "precedence (VUuid _) = 7"
| "precedence (VPlainSymbol _) = 8"
| "precedence (VNamespacedSymbol _) = 9"
| "precedence (VKeyword k) = (if \<not> kw_is_namespaced k then 10 else 11)"
| "precedence (VVector _) = 12"
| "precedence (VList _) = 13"
| "precedence (VSet _) = 14"
| "precedence (VMap _) = 15"
| "precedence (VBytes _) = 16"

primrec is_collection :: "edn_value \<Rightarrow> bool" where
  "is_collection VNil = False"
| "is_collection (VBoolean _) = False"
| "is_collection (VInteger _) = False"
| "is_collection (VInstant _) = False"
| "is_collection (VBigInteger _) = False"
| "is_collection (VFloat _) = False"
| "is_collection (VText _) = False"
| "is_collection (VUuid _) = False"
| "is_collection (VPlainSymbol _) = False"
| "is_collection (VNamespacedSymbol _) = False"
| "is_collection (VKeyword _) = False"
| "is_collection (VVector _) = True"
| "is_collection (VList _) = True"
| "is_collection (VSet _) = True"
| "is_collection (VMap _) = True"
| "is_collection (VBytes _) = False"

definition is_atom :: "edn_value \<Rightarrow> bool" where
  "is_atom v = (\<not> is_collection v)"

definition into_atom :: "edn_value \<Rightarrow> edn_value option" where
  "into_atom v = (if is_atom v then Some v else None)"

text \<open>\<open>OrderedFloat\<close> orders \<open>NaN\<close> above everything and equal to itself.\<close>

fun f64_cmp :: "f64 \<Rightarrow> f64 \<Rightarrow> ordering" where
  "f64_cmp NegInfinity y = (if y = NegInfinity then Equal else Less)"
| "f64_cmp (Finite a) y =
     (case y of NegInfinity \<Rightarrow> Greater | Finite b \<Rightarrow> ord_cmp a b | _ \<Rightarrow> Less)"
| "f64_cmp PosInfinity y = (case y of PosInfinity \<Rightarrow> Equal | NaN \<Rightarrow> Less | _ \<Rightarrow> Greater)"
| "f64_cmp NaN y = (if y = NaN then Equal else Greater)"

definition datetime_cmp :: "datetime \<Rightarrow> datetime \<Rightarrow> ordering" where
  "datetime_cmp x y = then_cmp (ord_cmp (dt_secs x) (dt_secs y)) (ord_cmp (dt_nanos x) (dt_nanos y))"

lemma lex_cmp_cong [fundef_cong]:
  "xs = xs' \<Longrightarrow> ys = ys' \<Longrightarrow> (\<And>x y. x \<in> set xs' \<Longrightarrow> y \<in> set ys' \<Longrightarrow> c x y = c' x y) \<Longrightarrow>
     lex_cmp c xs ys = lex_cmp c' xs' ys'"
proof (induction c xs ys arbitrary: xs' ys' rule: lex_cmp.induct)
  case (4 c x xs y ys)
  then show ?case by auto
qed auto

function (sequential) value_cmp :: "edn_value \<Rightarrow> edn_value \<Rightarrow> ordering" where
  "value_cmp VNil y = (case y of VNil \<Rightarrow> Equal | _ \<Rightarrow> ord_cmp 0 (precedence y))"
| "value_cmp (VBoolean a) y =
     (case y of VBoolean b \<Rightarrow> ord_cmp b a | _ \<Rightarrow> ord_cmp (precedence (VBoolean a)) (precedence y))"
| "value_cmp (VInteger a) y =
     (case y of VInteger b \<Rightarrow> ord_cmp b a | _ \<Rightarrow> ord_cmp (precedence (VInteger a)) (precedence y))"
| "value_cmp (VInstant a) y =
     (case y of VInstant b \<Rightarrow> datetime_cmp b a
      | _ \<Rightarrow> ord_cmp (precedence (VInstant a)) (precedence y))"
| "value_cmp (VBigInteger a) y =
     (case y of VBigInteger b \<Rightarrow> ord_cmp b a
      | _ \<Rightarrow> ord_cmp (precedence (VBigInteger a)) (precedence y))"
| "value_cmp (VFloat a) y =
     (case y of VFloat b \<Rightarrow> f64_cmp b a | _ \<Rightarrow> ord_cmp (precedence (VFloat a)) (precedence y))"
| "value_cmp (VText a) y =
     (case y of VText b \<Rightarrow> str_cmp b a | _ \<Rightarrow> ord_cmp (precedence (VText a)) (precedence y))"
| "value_cmp (VUuid a) y =
     (case y of VUuid b \<Rightarrow> str_cmp b a | _ \<Rightarrow> ord_cmp (precedence (VUuid a)) (precedence y))"
| "value_cmp (VPlainSymbol a) y =
     (case y of VPlainSymbol b \<Rightarrow> ps_cmp b a
      | _ \<Rightarrow> ord_cmp (precedence (VPlainSymbol a)) (precedence y))"
| "value_cmp (VNamespacedSymbol a) y =
     (case y of VNamespacedSymbol b \<Rightarrow> ns_cmp b a
      | _ \<Rightarrow> ord_cmp (precedence (VNamespacedSymbol a)) (precedence y))"
| "value_cmp (VKeyword a) y =
     (case y of VKeyword b \<Rightarrow> kw_cmp b a | _ \<Rightarrow> ord_cmp (precedence (VKeyword a)) (precedence y))"
| "value_cmp (VVector a) y =
     (case y of VVector b \<Rightarrow> lex_cmp value_cmp b a
      | _ \<Rightarrow> ord_cmp (precedence (VVector a)) (precedence y))"
| "value_cmp (VList a) y =
     (case y of VList b \<Rightarrow> lex_cmp value_cmp b a
      | _ \<Rightarrow> ord_cmp (precedence (VList a)) (precedence y))"
| "value_cmp (VSet a) y =
     (case y of VSet b \<Rightarrow> lex_cmp value_cmp b a
      | _ \<Rightarrow> ord_cmp (precedence (VSet a)) (precedence y))"
| "value_cmp (VMap a) y =
     (case y of
        VMap b \<Rightarrow> lex_cmp (\<lambda>p q. then_cmp (value_cmp (fst p) (fst q)) (value_cmp (snd p) (snd q))) b a
      | _ \<Rightarrow> ord_cmp (precedence (VMap a)) (precedence y))"
| "value_cmp (VBytes a) y =
     (case y of VBytes b \<Rightarrow> str_cmp b a | _ \<Rightarrow> ord_cmp (precedence (VBytes a)) (precedence y))"
  by pat_completeness auto

lemma size_mem_list: "x \<in> set xs \<Longrightarrow> size x < Suc (size_list size xs)"
  by (induction xs) auto

lemma size_mem_pairs:
  "p \<in> set m \<Longrightarrow> size (fst p) < Suc (size_list (size_prod size size) m) \<and>
     size (snd p) < Suc (size_list (size_prod size size) m)"
proof (induction m)
  case (Cons q m)
  then show ?case by (cases q) auto
qed simp

termination value_cmp
  by (relation "measure (\<lambda>(x, y). size x + size y)")
    (auto dest!: size_mem_list size_mem_pairs simp: add_strict_mono add.commute)

section \<open>Laws of the comparison\<close>

lemma ordered_at_f64_cmp [simp]: "ordered_at f64_cmp x"
proof (rule ordered_atI, goal_cases)
  case (1 y)
  show ?case by (cases x; cases y) (auto simp: ord_cmp_def)
next
  case (2 y z)
  then show ?case by (cases x; cases y; cases z) auto
next
  case (3 y z)
  then show ?case by (cases x; cases y; cases z) auto
next
  case (4 y z)
  then show ?case by (cases x; cases y; cases z) auto
next
  case (5 y z)
  then show ?case by (cases x; cases y; cases z) auto
qed

lemma f64_cmp_Equal [simp]: "f64_cmp x y = Equal \<longleftrightarrow> x = y"
  by (cases x; cases y) auto

lemma ordered_at_datetime_cmp [simp]: "ordered_at datetime_cmp x"
proof -
  have "ordered_at (\<lambda>x y. then_cmp (ord_cmp (dt_secs x) (dt_secs y)) (ord_cmp (dt_nanos x) (dt_nanos y))) x"
    using ordered_at_key [where f = "\<lambda>d. (dt_secs d, dt_nanos d)" and x = x, OF ordered_at_pair]
    by simp
  then show ?thesis by (simp add: datetime_cmp_def [abs_def])
qed

lemma datetime_cmp_Equal [simp]: "datetime_cmp x y = Equal \<longleftrightarrow> x = y"
  by (cases x; cases y) (simp add: datetime_cmp_def cmp_simps)

lemma sym_cmp_key:
  "ps_cmp = (\<lambda>x y. str_cmp (ps_display x) (ps_display y))"
  "ns_cmp = (\<lambda>x y. nn_cmp (case x of NamespacedSymbol a \<Rightarrow> a) (case y of NamespacedSymbol a \<Rightarrow> a))"
  "kw_cmp = (\<lambda>x y. nn_cmp (case x of Keyword a \<Rightarrow> a) (case y of Keyword a \<Rightarrow> a))"
proof -
  have "ps_cmp x y = str_cmp (ps_display x) (ps_display y)" for x y by (cases x; cases y) simp
  then show "ps_cmp = (\<lambda>x y. str_cmp (ps_display x) (ps_display y))" by blast
  have "ns_cmp x y = nn_cmp (case x of NamespacedSymbol a \<Rightarrow> a) (case y of NamespacedSymbol a \<Rightarrow> a)"
    for x y by (cases x; cases y) simp
  then show "ns_cmp = (\<lambda>x y. nn_cmp (case x of NamespacedSymbol a \<Rightarrow> a) (case y of NamespacedSymbol a \<Rightarrow> a))"
    by blast
  have "kw_cmp x y = nn_cmp (case x of Keyword a \<Rightarrow> a) (case y of Keyword a \<Rightarrow> a)" for x y
    by (cases x; cases y) simp
  then show "kw_cmp = (\<lambda>x y. nn_cmp (case x of Keyword a \<Rightarrow> a) (case y of Keyword a \<Rightarrow> a))"
    by blast
qed

lemma ordered_at_sym_cmp [simp]:
  "ordered_at ps_cmp p" "ordered_at ns_cmp n" "ordered_at kw_cmp k"
  unfolding sym_cmp_key by (rule ordered_at_key, simp)+

lemma ps_cmp_Equal [simp]: "ps_cmp x y = Equal \<longleftrightarrow> x = y" by (cases x; cases y) simp

text \<open>Values of different constructors are ordered by the constructor alone.\<close>

definition vtag :: "edn_value \<Rightarrow> nat" where
  "vtag v = (case v of VKeyword _ \<Rightarrow> 10 | _ \<Rightarrow> precedence v)"

lemma value_cmp_vtag: "vtag x \<noteq> vtag y \<Longrightarrow> value_cmp x y = ord_cmp (vtag x) (vtag y)"
  by (cases x; cases y) (simp_all add: vtag_def ord_cmp_def)

lemma ordered_at_tagged:
  fixes tag :: "'a \<Rightarrow> 'b::linorder"
  assumes diff: "\<And>y z. tag y \<noteq> tag z \<Longrightarrow> cmp y z = ord_cmp (tag y) (tag z)"
    and same: "\<And>y z. tag y = tag x \<Longrightarrow> tag z = tag x \<Longrightarrow> cmp y z = c (f y) (f z)"
    and c: "ordered_at c (f x)"
    and anti: "\<And>y z. cmp y z = Equal \<Longrightarrow> tag y = tag z"
  shows "ordered_at cmp x"
proof (rule ordered_atI, goal_cases)
  case (1 y)
  show ?case
  proof (cases "tag y = tag x")
    case True
    then show ?thesis using ordered_at_anti [OF c, of "f y"] by (simp add: same)
  next
    case False
    then show ?thesis using diff [of y x] diff [of x y] by (auto simp: ord_cmp_def)
  qed
next
  case (2 y z)
  then have "tag x \<le> tag y" "tag y \<le> tag z" using diff [of x y] diff [of y z] by fastforce+
  then show ?case using 2 diff [of x z] same ordered_at_Less [OF c, of "f y" "f z"]
    by (cases "tag x = tag z") (auto simp: order_antisym)
next
  case (3 y z)
  then have "tag y \<le> tag x" "tag z \<le> tag y" using diff [of x y] diff [of y z] by fastforce+
  then show ?case using 3 diff [of x z] same ordered_at_Greater [OF c, of "f y" "f z"]
    by (cases "tag x = tag z") (auto simp: order_antisym)
next
  case (4 y z)
  then have "tag y = tag x" using anti by simp
  then show ?case using 4 diff [of x z] diff [of y z] same ordered_at_Equal_l [OF c, of "f y" "f z"]
    by (cases "tag x = tag z") simp_all
next
  case (5 y z)
  then have "tag y = tag z" using anti by simp
  then show ?case using 5 diff [of x y] diff [of x z] same ordered_at_Equal_r [OF c, of "f y" "f z"]
    by (cases "tag x = tag z") simp_all
qed

lemma value_cmp_Equal_vtag: "value_cmp x y = Equal \<Longrightarrow> vtag x = vtag y"
  using value_cmp_vtag [of x y] by (cases "vtag x = vtag y") auto

lemma lex_cmp_anti:
  assumes "\<And>x y. x \<in> set xs \<Longrightarrow> c y x = invert (c x y)"
  shows "lex_cmp c ys xs = invert (lex_cmp c xs ys)"
  using assms
proof (induction c xs ys rule: lex_cmp.induct)
  case (4 c x xs y ys)
  have "c y x = invert (c x y)" by (rule 4(2)) simp
  moreover have "lex_cmp c ys xs = invert (lex_cmp c xs ys)" by (rule 4(1)) (rule 4(2), simp)
  ultimately show ?case by simp
qed simp_all

abbreviation entry_cmp :: "edn_value \<times> edn_value \<Rightarrow> edn_value \<times> edn_value \<Rightarrow> ordering" where
  "entry_cmp \<equiv> (\<lambda>p q. then_cmp (value_cmp (fst p) (fst q)) (value_cmp (snd p) (snd q)))"

lemma atom_cmp_anti:
  "ord_cmp b a = invert (ord_cmp a b)" "datetime_cmp d' d = invert (datetime_cmp d d')"
  "f64_cmp f' f = invert (f64_cmp f f')" "str_cmp t s = invert (str_cmp s t)"
  "ps_cmp p' p = invert (ps_cmp p p')" "ns_cmp n' n = invert (ns_cmp n n')"
  "kw_cmp k' k = invert (kw_cmp k k')"
  by (rule ordered_at_anti, simp)+

lemma value_cmp_anti_same:
  "vtag x = vtag y \<Longrightarrow> value_cmp y x = invert (value_cmp x y)"
  "(\<And>y. vtag x = vtag y \<Longrightarrow> value_cmp y x = invert (value_cmp x y)) \<Longrightarrow>
     value_cmp z x = invert (value_cmp x z)"
proof -
  have step: "value_cmp z x = invert (value_cmp x z)"
    if "\<And>y. vtag x = vtag y \<Longrightarrow> value_cmp y x = invert (value_cmp x y)" for x z
  proof (cases "vtag x = vtag z")
    case False
    then show ?thesis using value_cmp_vtag [of x z] value_cmp_vtag [of z x] by (auto simp: ord_cmp_def)
  qed (rule that)
  then show "(\<And>y. vtag x = vtag y \<Longrightarrow> value_cmp y x = invert (value_cmp x y)) \<Longrightarrow>
     value_cmp z x = invert (value_cmp x z)" .
  show "vtag x = vtag y \<Longrightarrow> value_cmp y x = invert (value_cmp x y)"
  proof (induction x arbitrary: y)
    case (VVector a)
    then obtain b where "y = VVector b" by (cases y) (auto simp: vtag_def split: if_splits)
    then show ?case using lex_cmp_anti [of a value_cmp b] step [OF VVector.IH] by simp
  next
    case (VList a)
    then obtain b where "y = VList b" by (cases y) (auto simp: vtag_def split: if_splits)
    then show ?case using lex_cmp_anti [of a value_cmp b] step [OF VList.IH] by simp
  next
    case (VSet a)
    then obtain b where "y = VSet b" by (cases y) (auto simp: vtag_def split: if_splits)
    then show ?case using lex_cmp_anti [of a value_cmp b] step [OF VSet.IH] by simp
  next
    case (VMap a)
    then obtain b where y: "y = VMap b" by (cases y) (auto simp: vtag_def split: if_splits)
    have "entry_cmp q p = invert (entry_cmp p q)" if "p \<in> set a" for p q
    proof -
      have "value_cmp (fst q) (fst p) = invert (value_cmp (fst p) (fst q))"
        by (rule step, rule VMap.IH(1) [OF that]) (simp_all add: fsts.simps)
      moreover have "value_cmp (snd q) (snd p) = invert (value_cmp (snd p) (snd q))"
        by (rule step, rule VMap.IH(2) [OF that]) (simp_all add: snds.simps)
      ultimately show ?thesis by simp
    qed
    then show ?case using y lex_cmp_anti [of a entry_cmp b] by simp
  qed (case_tac y; (simp add: vtag_def split: if_splits)?; (rule atom_cmp_anti)?)+
qed

lemma value_cmp_anti: "value_cmp y x = invert (value_cmp x y)"
  by (rule value_cmp_anti_same(2)) (rule value_cmp_anti_same(1))

lemma ordered_at_swap:
  assumes "\<And>a b. c b a = invert (c a b)" and "ordered_at c x"
  shows "ordered_at (\<lambda>a b. c b a) x"
proof -
  have "(\<lambda>a b. c b a) = (\<lambda>a b. invert (c a b))"
    by (intro HOL.ext) (rule assms(1))
  then show ?thesis using ordered_at_flip [OF assms(2)] by simp
qed

lemma value_cmp_payload:
  assumes "\<And>y. vtag y = vtag x \<Longrightarrow> \<exists>b. y = C b"
    and "\<And>a b. value_cmp (C a) (C b) = c b a" and "\<And>a b. f (C a) = a"
    and "\<And>a b. c b a = invert (c a b)" and "ordered_at c (f x)"
  shows "ordered_at value_cmp x"
proof (rule ordered_at_tagged [where tag = vtag and c = "\<lambda>a b. c b a" and f = f])
  fix y z assume "vtag y = vtag x" "vtag z = vtag x"
  then obtain a b where "y = C a" "z = C b" using assms(1) by blast
  then show "value_cmp y z = c (f z) (f y)" using assms(2,3) by simp
next
  show "ordered_at (\<lambda>a b. c b a) (f x)" by (rule ordered_at_swap [OF assms(4,5)])
qed (erule value_cmp_vtag value_cmp_Equal_vtag)+

lemma ordered_at_value_cmp: "ordered_at value_cmp x"
proof (induction x)
  case VNil
  show ?case
    by (rule value_cmp_payload [where C = "\<lambda>_. VNil" and c = "\<lambda>_ _. Equal" and f = "\<lambda>_. ()"],
        (case_tac y; simp add: vtag_def split: if_splits), simp_all add: ordered_at_def)
next
  case (VBoolean a)
  show ?case
    by (rule value_cmp_payload [where C = VBoolean and c = ord_cmp and f = "\<lambda>v. case v of VBoolean a \<Rightarrow> a"],
        (case_tac y; simp add: vtag_def split: if_splits), simp, simp, rule atom_cmp_anti, simp)
next
  case (VInteger a)
  show ?case
    by (rule value_cmp_payload [where C = VInteger and c = ord_cmp and f = "\<lambda>v. case v of VInteger a \<Rightarrow> a"],
        (case_tac y; simp add: vtag_def split: if_splits), simp, simp, rule atom_cmp_anti, simp)
next
  case (VInstant a)
  show ?case
    by (rule value_cmp_payload [where C = VInstant and c = datetime_cmp and f = "\<lambda>v. case v of VInstant a \<Rightarrow> a"],
        (case_tac y; simp add: vtag_def split: if_splits), simp, simp, rule atom_cmp_anti, simp)
next
  case (VBigInteger a)
  show ?case
    by (rule value_cmp_payload [where C = VBigInteger and c = ord_cmp and f = "\<lambda>v. case v of VBigInteger a \<Rightarrow> a"],
        (case_tac y; simp add: vtag_def split: if_splits), simp, simp, rule atom_cmp_anti, simp)
next
  case (VFloat a)
  show ?case
    by (rule value_cmp_payload [where C = VFloat and c = f64_cmp and f = "\<lambda>v. case v of VFloat a \<Rightarrow> a"],
        (case_tac y; simp add: vtag_def split: if_splits), simp, simp, rule atom_cmp_anti, simp)
next
  case (VText a)
  show ?case
    by (rule value_cmp_payload [where C = VText and c = str_cmp and f = "\<lambda>v. case v of VText a \<Rightarrow> a"],
        (case_tac y; simp add: vtag_def split: if_splits), simp, simp, rule atom_cmp_anti, simp)
next
  case (VUuid a)
  show ?case
    by (rule value_cmp_payload [where C = VUuid and c = str_cmp and f = "\<lambda>v. case v of VUuid a \<Rightarrow> a"],
        (case_tac y; simp add: vtag_def split: if_splits), simp, simp, rule atom_cmp_anti, simp)
next
  case (VPlainSymbol a)
  show ?case
    by (rule value_cmp_payload [where C = VPlainSymbol and c = ps_cmp and f = "\<lambda>v. case v of VPlainSymbol a \<Rightarrow> a"],
        (case_tac y; simp add: vtag_def split: if_splits), simp, simp, rule atom_cmp_anti, simp)
next
  case (VNamespacedSymbol a)
  show ?case
    by (rule value_cmp_payload [where C = VNamespacedSymbol and c = ns_cmp and f = "\<lambda>v. case v of VNamespacedSymbol a \<Rightarrow> a"],
        (case_tac y; simp add: vtag_def split: if_splits), simp, simp, rule atom_cmp_anti, simp)
next
  case (VKeyword a)
  show ?case
    by (rule value_cmp_payload [where C = VKeyword and c = kw_cmp and f = "\<lambda>v. case v of VKeyword a \<Rightarrow> a"],
        (case_tac y; simp add: vtag_def split: if_splits), simp, simp, rule atom_cmp_anti, simp)
next
  case (VBytes a)
  show ?case
    by (rule value_cmp_payload [where C = VBytes and c = str_cmp and f = "\<lambda>v. case v of VBytes a \<Rightarrow> a"],
        (case_tac y; simp add: vtag_def split: if_splits), simp, simp, rule atom_cmp_anti, simp)
next
  case (VVector a)
  have "ordered_at (lex_cmp value_cmp) a" by (rule ordered_at_lex_cmp) (use VVector.IH in blast)
  then show ?case
    by (intro value_cmp_payload [where C = VVector and c = "lex_cmp value_cmp" and
          f = "\<lambda>v. case v of VVector a \<Rightarrow> a"])
      ((case_tac y; simp add: vtag_def split: if_splits), simp, simp,
        rule lex_cmp_anti, rule value_cmp_anti, simp)
next
  case (VList a)
  have "ordered_at (lex_cmp value_cmp) a" by (rule ordered_at_lex_cmp) (use VList.IH in blast)
  then show ?case
    by (intro value_cmp_payload [where C = VList and c = "lex_cmp value_cmp" and
          f = "\<lambda>v. case v of VList a \<Rightarrow> a"])
      ((case_tac y; simp add: vtag_def split: if_splits), simp, simp,
        rule lex_cmp_anti, rule value_cmp_anti, simp)
next
  case (VSet a)
  have "ordered_at (lex_cmp value_cmp) a" by (rule ordered_at_lex_cmp) (use VSet.IH in blast)
  then show ?case
    by (intro value_cmp_payload [where C = VSet and c = "lex_cmp value_cmp" and
          f = "\<lambda>v. case v of VSet a \<Rightarrow> a"])
      ((case_tac y; simp add: vtag_def split: if_splits), simp, simp,
        rule lex_cmp_anti, rule value_cmp_anti, simp)
next
  case (VMap a)
  have "ordered_at entry_cmp p" if "p \<in> set a" for p
    by (rule ordered_at_pair; rule VMap.IH [OF that]) (simp_all add: fsts.simps snds.simps)
  then have o: "ordered_at (lex_cmp entry_cmp) a" by (intro ordered_at_lex_cmp) blast
  have "entry_cmp q p = invert (entry_cmp p q)" for p q
    using value_cmp_anti [of "fst q" "fst p"] value_cmp_anti [of "snd q" "snd p"] by simp
  then have an: "lex_cmp entry_cmp m n = invert (lex_cmp entry_cmp n m)" for m n
    by (rule lex_cmp_anti)
  show ?case
    by (rule value_cmp_payload [where C = VMap and c = "lex_cmp entry_cmp" and
          f = "\<lambda>v. case v of VMap a \<Rightarrow> a"])
      ((case_tac y; simp add: vtag_def split: if_splits), simp, simp, rule an, simp add: o)
qed

section \<open>Well-formed values\<close>

text \<open>Names are well-formed, sets strictly ascending, maps strictly ascending in their keys.\<close>

fun wf_value :: "edn_value \<Rightarrow> bool" where
  "wf_value (VNamespacedSymbol n) = wf_namespaced_symbol n"
| "wf_value (VKeyword k) = wf_keyword k"
| "wf_value (VVector vs) = (\<forall>v\<in>set vs. wf_value v)"
| "wf_value (VList vs) = (\<forall>v\<in>set vs. wf_value v)"
| "wf_value (VSet vs) = (ascending value_cmp vs \<and> (\<forall>v\<in>set vs. wf_value v))"
| "wf_value (VMap m) =
     (ascending value_cmp (map fst m) \<and> (\<forall>e\<in>set m. wf_value (fst e) \<and> wf_value (snd e)))"
| "wf_value _ = True"

lemma lex_Equal_imp:
  "lex_cmp c b a = Equal \<Longrightarrow> (\<And>x y. x \<in> set a \<Longrightarrow> y \<in> set b \<Longrightarrow> c y x = Equal \<Longrightarrow> y = x) \<Longrightarrow> b = a"
proof (induction c b a rule: lex_cmp.induct)
  case (4 c y ys x xs)
  have "c y x = Equal" "lex_cmp c ys xs = Equal" using 4(2) by (simp_all add: then_cmp_eq)
  from 4(3) [OF _ _ this(1)] have "y = x" by simp
  moreover have "ys = xs"
    by (rule 4(1) [OF \<open>lex_cmp c ys xs = Equal\<close>], rule 4(3)) simp_all
  ultimately show ?case by simp
qed simp_all

lemma value_cmp_Equal_commute: "value_cmp x y = Equal \<Longrightarrow> value_cmp y x = Equal"
  using value_cmp_anti [of y x] by simp

lemma lex_value_Equal_imp:
  assumes "\<And>x y. x \<in> set a \<Longrightarrow> wf_value x \<Longrightarrow> wf_value y \<Longrightarrow> value_cmp x y = Equal \<Longrightarrow> x = y"
    and "\<forall>x\<in>set a. wf_value x" "\<forall>y\<in>set b. wf_value y" "lex_cmp value_cmp b a = Equal"
  shows "b = a"
  using assms(4)
proof (rule lex_Equal_imp)
  fix x y assume "x \<in> set a" "y \<in> set b" "value_cmp y x = Equal"
  then show "y = x" using assms(1) [of x y] assms(2,3) value_cmp_Equal_commute by simp
qed

lemma value_cmp_Equal_imp: "wf_value x \<Longrightarrow> wf_value y \<Longrightarrow> value_cmp x y = Equal \<Longrightarrow> x = y"
proof (induction x arbitrary: y)
  case (VNamespacedSymbol a)
  then show ?case using nn_ord.cmp_eq
    by (cases y; cases a) (auto simp: sym_cmp_key split: namespaced_symbol.splits if_splits)
next
  case (VKeyword a)
  then show ?case using nn_ord.cmp_eq
    by (cases y; cases a) (auto simp: sym_cmp_key split: keyword.splits if_splits)
next
  case (VVector a)
  then obtain b where y: "y = VVector b" "lex_cmp value_cmp b a = Equal"
    by (cases y) (auto split: if_splits)
  have "b = a" by (rule lex_value_Equal_imp [OF VVector.IH]) (use VVector.prems y in auto)
  then show ?case using y by simp
next
  case (VList a)
  then obtain b where y: "y = VList b" "lex_cmp value_cmp b a = Equal"
    by (cases y) (auto split: if_splits)
  have "b = a" by (rule lex_value_Equal_imp [OF VList.IH]) (use VList.prems y in auto)
  then show ?case using y by simp
next
  case (VSet a)
  then obtain b where y: "y = VSet b" "lex_cmp value_cmp b a = Equal"
    by (cases y) (auto split: if_splits)
  have "b = a" by (rule lex_value_Equal_imp [OF VSet.IH]) (use VSet.prems y in auto)
  then show ?case using y by simp
next
  case (VMap a)
  then obtain b where y: "y = VMap b" "lex_cmp entry_cmp b a = Equal"
    by (cases y) (auto split: if_splits)
  have "b = a"
  proof (rule lex_Equal_imp [OF y(2)])
    fix p q assume "p \<in> set a" "q \<in> set b" and "entry_cmp q p = Equal"
    then have "value_cmp (fst p) (fst q) = Equal" "value_cmp (snd p) (snd q) = Equal"
      by (auto simp: cmp_simps dest: value_cmp_Equal_commute)
    then have "fst p = fst q" "snd p = snd q"
      using VMap.IH [OF \<open>p \<in> set a\<close>] VMap.prems y \<open>p \<in> set a\<close> \<open>q \<in> set b\<close>
      by (auto simp: fsts.simps snds.simps)
    then show "q = p" by (simp add: prod_eq_iff)
  qed
  then show ?case using y by simp
next
  case (VPlainSymbol a)
  then show ?case by (cases y) (auto split: if_splits)
qed (case_tac y; simp split: if_splits)+

interpretation value_ord: rust_ord_eq value_cmp wf_value
  by unfold_locales (rule ordered_at_value_cmp, rule value_cmp_Equal_imp)

section \<open>Printing\<close>

fun display_value :: "'x ext_scheme \<Rightarrow> edn_value \<Rightarrow> string" where
  "display_value x VNil = ''nil''"
| "display_value x (VBoolean b) = (if b then ''true'' else ''false'')"
| "display_value x (VInteger i) = show_int i"
| "display_value x (VInstant d) = ''#inst '' @ [CHR 0x22] @ rfc3339 x d @ [CHR 0x22]"
| "display_value x (VBigInteger i) = show_int i @ ''N''"
| "display_value x (VFloat f) =
     (if f = PosInfinity then ''#f +Infinity''
      else if f = NegInfinity then ''#f -Infinity''
      else if f = NaN then ''#f NaN''
      else show_f64 x f)"
| "display_value x (VText s) = [CHR 0x22] @ s @ [CHR 0x22]"
| "display_value x (VUuid u) = ''#uuid '' @ [CHR 0x22] @ hyphenated x u @ [CHR 0x22]"
| "display_value x (VPlainSymbol s) = ps_display s"
| "display_value x (VNamespacedSymbol s) = ns_display s"
| "display_value x (VKeyword k) = kw_display k"
| "display_value x (VVector vs) = ''['' @ concat (map (\<lambda>v. '' '' @ display_value x v) vs) @ '' ]''"
| "display_value x (VList vs) = ''('' @ concat (map (\<lambda>v. '' '' @ display_value x v) vs) @ '' )''"
| "display_value x (VSet vs) = ''#{'' @ concat (map (\<lambda>v. '' '' @ display_value x v) vs) @ '' }''"
| "display_value x (VMap m) =
     ''{'' @ concat (map (\<lambda>(k, v). '' '' @ display_value x k @ '' '' @ display_value x v) m) @ '' }''"
| "display_value x (VBytes b) = ''#bytes '' @ hex_encode x b"

primrec escape_chars :: "string \<Rightarrow> string" where
  "escape_chars [] = []"
| "escape_chars (c # s) =
     (if c = CHR 0x22 then [CHR 0x5C, CHR 0x22]
      else if c = CHR 0x5C then [CHR 0x5C, CHR 0x5C] else [c]) @ escape_chars s"

definition escape_text :: "string \<Rightarrow> string" where
  "escape_text s = [CHR 0x22] @ escape_chars s @ [CHR 0x22]"

section \<open>Time stamps\<close>

definition from_micros :: "'x ext_scheme \<Rightarrow> int \<Rightarrow> (panic, datetime) result" where
  "from_micros x ts =
     of_option (Panic ''called `Option::unwrap()` on a `None` value'')
       (timestamp_opt x (rust_div ts 1000000) (nat \<bar>rust_rem ts 1000000\<bar> * 1000))"

definition to_micros :: "datetime \<Rightarrow> int" where
  "to_micros d = dt_secs d * 1000000 + int (dt_nanos d div 1000)"

definition from_millis :: "'x ext_scheme \<Rightarrow> int \<Rightarrow> (panic, datetime) result" where
  "from_millis x ts =
     of_option (Panic ''called `Option::unwrap()` on a `None` value'')
       (timestamp_opt x (rust_div ts 1000) (nat \<bar>rust_rem ts 1000\<bar> * 1000))"

definition to_millis :: "datetime \<Rightarrow> int" where
  "to_millis d = dt_secs d * 1000 + int (dt_nanos d div 1000000)"

text \<open>What the conversions rely on of \<open>chrono\<close>: within about 253,000 years of the epoch and
  with a sub-second part below one second, \<open>timestamp_opt\<close> returns that instant.\<close>

definition chrono_ok :: "'x ext_scheme \<Rightarrow> bool" where
  "chrono_ok x \<longleftrightarrow>
     (\<forall>s n. \<bar>s\<bar> \<le> 8000000000000 \<longrightarrow> n < 1000000000 \<longrightarrow> timestamp_opt x s n = Some (DateTime s n))"

section \<open>Properties\<close>

text \<open>C26.  The order of EDN values, on which the ordered sets and maps of the reader rest, is a
  total order on well-formed values: it is reflexive and equal only on equal values, swapping
  the arguments inverts it, and it is transitive; so building a set or a map from its own
  elements gives it back, and two sets with the same elements are the same value.\<close>

theorem value_cmp_total_order:
  assumes "wf_value x" "wf_value y"
  shows "(value_cmp x y = Equal \<longleftrightarrow> x = y) \<and>
    value_cmp y x = invert (value_cmp x y) \<and>
    (\<forall>z. value_cmp x y = Less \<longrightarrow> value_cmp y z = Less \<longrightarrow> value_cmp x z = Less) \<and>
    (\<forall>vs. x = VSet vs \<longrightarrow> bt_set_of_list value_cmp vs = vs) \<and>
    (\<forall>vs ws. x = VSet vs \<longrightarrow> y = VSet ws \<longrightarrow> set vs = set ws \<longrightarrow> x = y) \<and>
    (\<forall>m. x = VMap m \<longrightarrow> bt_of_list value_cmp m = m)"
proof (intro conjI allI impI)
  show "value_cmp x y = Equal \<longleftrightarrow> x = y" using value_ord.cmp_eq [OF assms] by auto
  show "value_cmp y x = invert (value_cmp x y)" by (rule value_ord.cmp_sym)
  show "value_cmp x z = Less" if "value_cmp x y = Less" "value_cmp y z = Less" for z
    using that by (rule value_ord.cmp_Less_trans)
  show "bt_set_of_list value_cmp vs = vs" if "x = VSet vs" for vs
    using that assms by (simp add: value_ord.bt_set_of_list_ascending)
  show "x = y" if "x = VSet vs" "y = VSet ws" "set vs = set ws" for vs ws
    using that assms value_ord.ascending_ext [of vs ws] by simp
  show "bt_of_list value_cmp m = m" if "x = VMap m" for m
    using that assms by (simp add: value_ord.bt_of_list_ascending)
qed

theorem value_cmp_total_order_witness:
  "value_cmp (VSet [VInteger 2, VInteger 1, VText ''a'']) (VSet [VInteger 1]) = Greater \<and>
   bt_set_of_list value_cmp [VInteger 2, VInteger 1, VText ''a''] = [VInteger 2, VInteger 1, VText ''a'']"
proof -
  have "wf_value (VSet [VInteger 2, VInteger 1, VText ''a''])" "wf_value (VSet [VInteger 1])"
    by (simp_all add: ord_cmp_def)
  from value_cmp_total_order [OF this] show ?thesis by (simp add: ord_cmp_def)
qed

text \<open>C38.  \<open>from_micros\<close> followed by \<open>to_micros\<close> is the identity on time stamps at or after the
  epoch; before the epoch the fraction of the second is mirrored, so the result is too late by
  twice that fraction.\<close>

theorem from_micros_to_micros:
  assumes "chrono_ok x" and "\<bar>ts\<bar> \<le> 8 * 10 ^ 18"
  shows "\<exists>d. from_micros x ts = Inr d \<and>
    to_micros d = (if ts < 0 then ts + 2 * (\<bar>ts\<bar> mod 1000000) else ts)"
proof -
  let ?q = "rust_div ts 1000000" and ?r = "rust_rem ts 1000000"
  have q: "\<bar>?q\<bar> \<le> 8000000000000" using assms(2) by (simp add: rust_div_rem)
  have r: "\<bar>?r\<bar> = \<bar>ts\<bar> mod 1000000" by (simp add: rust_div_rem)
  then have "nat \<bar>?r\<bar> * 1000 < 1000000000" by (simp add: nat_less_iff)
  then have "from_micros x ts = Inr (DateTime ?q (nat \<bar>?r\<bar> * 1000))"
    using assms(1) q by (simp add: from_micros_def chrono_ok_def)
  moreover have "?r \<le> 0" if "ts < 0" using that by (simp add: rust_rem_pos)
  moreover have "?r \<ge> 0" if "ts \<ge> 0" using that by (simp add: rust_rem_pos)
  ultimately show ?thesis
    using rust_div_rem(3) [of 1000000 ts] r by (auto simp: to_micros_def)
qed

theorem from_micros_to_micros_witness:
  "chrono_ok sample_ext \<and> (\<exists>d. from_micros sample_ext (- 1500000) = Inr d \<and> to_micros d = - 500000)"
  using from_micros_to_micros [of sample_ext "- 1500000"]
  by (simp add: chrono_ok_def sample_ext_def)

text \<open>\<open>from_millis\<close> multiplies the milliseconds within the second by a thousand where
  nanoseconds are expected, so \<open>to_millis\<close> of its result is the time stamp truncated to whole
  seconds: the conversion loses every sub-second part.\<close>

theorem from_millis_to_millis:
  assumes "chrono_ok x" and "\<bar>ts\<bar> \<le> 8 * 10 ^ 15"
  shows "\<exists>d. from_millis x ts = Inr d \<and> to_millis d = 1000 * rust_div ts 1000"
proof -
  let ?q = "rust_div ts 1000" and ?r = "rust_rem ts 1000"
  have q: "\<bar>?q\<bar> \<le> 8000000000000" using assms(2) by (simp add: rust_div_rem)
  have r: "nat \<bar>?r\<bar> * 1000 < 1000000" by (simp add: rust_div_rem nat_less_iff)
  then have "from_millis x ts = Inr (DateTime ?q (nat \<bar>?r\<bar> * 1000))"
    using assms(1) q by (simp add: from_millis_def chrono_ok_def)
  then show ?thesis using r by (simp add: to_millis_def)
qed

theorem from_millis_to_millis_witness:
  "chrono_ok sample_ext \<and> (\<exists>d. from_millis sample_ext 1234 = Inr d \<and> to_millis d = 1000)"
  using from_millis_to_millis [of sample_ext 1234]
  by (simp add: chrono_ok_def sample_ext_def rust_div_def)

end
