(* ===== verification/Nesting.thy ===== *)
theory Nesting
  imports Prelude
begin

text \<open>
  The nesting limit that is checked before any EDN text reaches the recursive grammar
  (\<open>edn/src/depth.rs\<close>).  \<open>lex_step\<close> is the body of the loop of \<open>check_nesting\<close>, with the loop's
  two variables as its state; the error carries the location that \<open>too_deep\<close> computes.
\<close>

definition MAX_NESTING :: nat where "MAX_NESTING = 256"

datatype lex = Code | Str | StrEscape | Comment

record line_col =
  line :: nat
  column :: nat
  offset :: nat

record parse_error =
  location :: line_col
  expected :: string

definition is_opener :: "char \<Rightarrow> bool" where
  "is_opener b \<longleftrightarrow> b = CHR ''('' \<or> b = CHR ''['' \<or> b = CHR ''{''"

definition is_closer :: "char \<Rightarrow> bool" where
  "is_closer b \<longleftrightarrow> b = CHR '')'' \<or> b = CHR '']'' \<or> b = CHR ''}''"

definition is_eol :: "char \<Rightarrow> bool" where
  "is_eol b \<longleftrightarrow> b = CHR 0x0A \<or> b = CHR 0x0D"

definition expected_set :: "nat \<Rightarrow> string" where
  "expected_set mx =
     (if mx = MAX_NESTING then ''nesting depth at most 256''
      else if mx = 100 then ''nesting depth at most 100''
      else ''less nesting (input nests too deeply)'')"

text \<open>\<open>rfind\<close> of the newline, plus one, is the length up to and including the last newline.\<close>

definition after_last_newline :: "string \<Rightarrow> nat" where
  "after_last_newline s = length (dropWhile (\<lambda>b. b \<noteq> CHR 0x0A) (rev s))"

definition too_deep :: "string \<Rightarrow> nat \<Rightarrow> nat \<Rightarrow> parse_error" where
  "too_deep input off mx =
     (let prior = take off input in
      \<lparr>location = \<lparr>line = length (filter (\<lambda>b. b = CHR 0x0A) prior) + 1,
                   column = off - after_last_newline prior + 1, offset = off\<rparr>,
       expected = expected_set mx\<rparr>)"

text \<open>One iteration; \<open>None\<close> is the early return with the error.\<close>

definition lex_step :: "nat \<Rightarrow> char \<Rightarrow> lex \<times> nat \<Rightarrow> (lex \<times> nat) option" where
  "lex_step mx b st =
     (case st of
        (Code, depth) \<Rightarrow>
          if is_opener b then (if depth + 1 > mx then None else Some (Code, depth + 1))
          else if is_closer b then Some (Code, depth - 1)
          else if b = CHR 0x22 then Some (Str, depth)
          else if b = CHR '';'' then Some (Comment, depth)
          else Some (Code, depth)
      | (Str, depth) \<Rightarrow>
          if b = CHR 0x5C then Some (StrEscape, depth)
          else if b = CHR 0x22 then Some (Code, depth)
          else Some (Str, depth)
      | (StrEscape, depth) \<Rightarrow> Some (Str, depth)
      | (Comment, depth) \<Rightarrow> if is_eol b then Some (Code, depth) else Some (Comment, depth))"

fun check_loop :: "string \<Rightarrow> nat \<Rightarrow> nat \<Rightarrow> string \<Rightarrow> lex \<times> nat \<Rightarrow> (parse_error, unit) result" where
  "check_loop input mx off [] st = Inr ()"
| "check_loop input mx off (b # bs) st =
     (case lex_step mx b st of
        None \<Rightarrow> Inl (too_deep input off mx)
      | Some st' \<Rightarrow> check_loop input mx (off + 1) bs st')"

definition check_nesting :: "string \<Rightarrow> nat \<Rightarrow> (parse_error, unit) result" where
  "check_nesting input mx = check_loop input mx 0 input (Code, 0)"

section \<open>The scanner as a fold\<close>

text \<open>\<open>scan mx s st\<close> is the state of the loop after \<open>s\<close>, or \<open>None\<close> when the limit was passed.\<close>

fun scan :: "nat \<Rightarrow> string \<Rightarrow> lex \<times> nat \<Rightarrow> (lex \<times> nat) option" where
  "scan mx [] st = Some st"
| "scan mx (b # bs) st = (case lex_step mx b st of None \<Rightarrow> None | Some st' \<Rightarrow> scan mx bs st')"

lemma scan_append:
  "scan mx (xs @ ys) st = (case scan mx xs st of None \<Rightarrow> None | Some st' \<Rightarrow> scan mx ys st')"
  by (induction xs arbitrary: st) (auto split: option.splits)

lemma check_loop_scan: "is_ok (check_loop input mx off bs st) \<longleftrightarrow> scan mx bs st \<noteq> None"
  by (induction bs arbitrary: off st) (auto split: option.splits)

lemma check_nesting_scan: "is_ok (check_nesting input mx) \<longleftrightarrow> scan mx input (Code, 0) \<noteq> None"
  by (simp add: check_nesting_def check_loop_scan)

text \<open>The error is reported at the first opener that exceeds the limit.\<close>

lemma check_loop_error:
  assumes "check_loop input mx (length pre) bs st = Inl err" and "input = pre @ bs"
  shows "\<exists>bs1 b bs2. bs = bs1 @ b # bs2 \<and> is_opener b \<and>
     (\<exists>st'. scan mx bs1 st = Some st' \<and> lex_step mx b st' = None) \<and>
     err = too_deep input (length pre + length bs1) mx"
  using assms
proof (induction bs arbitrary: pre st)
  case (Cons b bs)
  show ?case
  proof (cases "lex_step mx b st")
    case None
    then have "is_opener b" by (auto simp: lex_step_def split: prod.splits lex.splits if_splits)
    then show ?thesis using Cons.prems None by (intro exI [of _ "[]"]) auto
  next
    case (Some st')
    then have "check_loop input mx (length (pre @ [b])) bs st' = Inl err" using Cons.prems by simp
    from Cons.IH [OF this] Cons.prems(2) obtain bs1 b' bs2 st'' where
      "bs = bs1 @ b' # bs2" "is_opener b'" "scan mx bs1 st' = Some st''" "lex_step mx b' st'' = None"
      "err = too_deep input (length (pre @ [b]) + length bs1) mx" by auto
    then show ?thesis using Some by (intro exI [of _ "b # bs1"]) auto
  qed
qed simp

lemma after_last_newline_split:
  obtains s1 s2 where "s = s1 @ s2" "after_last_newline s = length s1" "CHR 0x0A \<notin> set s2"
    "s1 = [] \<or> last s1 = CHR 0x0A"
proof
  let ?P = "\<lambda>b. b \<noteq> CHR 0x0A"
  show "s = rev (dropWhile ?P (rev s)) @ rev (takeWhile ?P (rev s))"
    by (simp flip: rev_append)
  show "CHR 0x0A \<notin> set (rev (takeWhile ?P (rev s)))" by (auto dest: set_takeWhileD)
  show "rev (dropWhile ?P (rev s)) = [] \<or> last (rev (dropWhile ?P (rev s))) = CHR 0x0A"
    using hd_dropWhile [of ?P "rev s"] by (auto simp: last_rev)
qed (simp add: after_last_newline_def)

text \<open>C37.  When the nesting check rejects a text, the location it reports is that of an opening
  bracket: the offset points at one, the line is one more than the newlines before it, and the
  column counts from one after the last of these newlines.\<close>

theorem check_nesting_location:
  assumes "check_nesting input mx = Inl err"
  shows "let l = location err; off = offset l; start = off + 1 - column l in
    off < length input \<and> is_opener (input ! off) \<and>
    line l = length (filter (\<lambda>b. b = CHR 0x0A) (take off input)) + 1 \<and>
    start \<le> off \<and> CHR 0x0A \<notin> set (drop start (take off input)) \<and>
    (start = 0 \<or> input ! (start - 1) = CHR 0x0A)"
proof -
  obtain bs1 b bs2 where i: "input = bs1 @ b # bs2" "is_opener b"
    and e: "err = too_deep input (length bs1) mx"
    using check_loop_error [of input mx "[]" input "(Code, 0)" err] assms
    by (auto simp: check_nesting_def)
  obtain s1 s2 where s: "bs1 = s1 @ s2" "after_last_newline bs1 = length s1"
    "CHR 0x0A \<notin> set s2" "s1 = [] \<or> last s1 = CHR 0x0A" by (rule after_last_newline_split)
  then have "input ! (length s1 - 1) = CHR 0x0A" if "s1 \<noteq> []"
    using that i by (auto simp: nth_append last_conv_nth)
  then show ?thesis using i e s by (auto simp: Let_def too_deep_def)
qed

theorem check_nesting_location_witness:
  "check_nesting ''[()'' 1 =
     Inl \<lparr>location = \<lparr>line = 1, column = 2, offset = 1\<rparr>, expected = expected_set 1\<rparr> \<and>
   is_opener (''[()'' ! 1)"
proof -
  have "check_nesting ''[()'' 1 =
     Inl \<lparr>location = \<lparr>line = 1, column = 2, offset = 1\<rparr>, expected = expected_set 1\<rparr>"
    by (simp add: check_nesting_def lex_step_def is_opener_def too_deep_def after_last_newline_def)
  with check_nesting_location [OF this] show ?thesis by simp
qed

end
