(* ===== verification/Edn_Grammar.thy ===== *)
theory Edn_Grammar
  imports Edn_Value Nesting
begin

text \<open>
  The grammar of EDN values (\<open>edn/src/lib.rs\<close>, the rules from \<open>nil\<close> to \<open>comment\<close>, and the
  wrapper \<open>parse::value\<close>).  A rule is a function from the remaining input to \<open>PFail\<close>, to
  \<open>POk\<close> with its value and the input after it, or to \<open>PAbort\<close> when an action panics: the
  grammar's actions run as soon as their sequence has matched, so a panic is never
  backtracked.  Ordered choice is \<open>p_or\<close>.  The repetition rules test that each round
  consumes input, which makes them total; \<open>value_p_shorter\<close> shows that the test never
  fails.  Spans are not kept: the result is that of \<open>without_spans\<close>.
\<close>

section \<open>Lexemes\<close>

datatype 'a presult = PFail | POk 'a string | PAbort panic

definition p_or :: "'a presult \<Rightarrow> 'a presult \<Rightarrow> 'a presult" where
  "p_or a b = (case a of PFail \<Rightarrow> b | POk v r \<Rightarrow> POk v r | PAbort e \<Rightarrow> PAbort e)"

definition p_map :: "('a \<Rightarrow> 'b) \<Rightarrow> 'a presult \<Rightarrow> 'b presult" where
  "p_map f a = (case a of PFail \<Rightarrow> PFail | POk v r \<Rightarrow> POk (f v) r | PAbort e \<Rightarrow> PAbort e)"

definition p_action :: "(panic, 'a) result \<Rightarrow> string \<Rightarrow> 'a presult" where
  "p_action m r = (case m of Inl e \<Rightarrow> PAbort e | Inr v \<Rightarrow> POk v r)"

definition lit :: "string \<Rightarrow> string \<Rightarrow> string option" where
  "lit w s = (if take (length w) s = w then Some (drop (length w) s) else None)"

definition span1 :: "(char \<Rightarrow> bool) \<Rightarrow> string \<Rightarrow> (string \<times> string) option" where
  "span1 P s = (if takeWhile P s = [] then None else Some (takeWhile P s, dropWhile P s))"

definition is_ws :: "char \<Rightarrow> bool" where
  "is_ws c \<longleftrightarrow> c = CHR '' '' \<or> c = CHR 0x0D \<or> c = CHR 0x0A \<or> c = CHR 0x09 \<or> c = CHR '',''"

definition is_sign :: "char \<Rightarrow> bool" where
  "is_sign c \<longleftrightarrow> c = CHR ''+'' \<or> c = CHR ''-''"

definition is_lower :: "char \<Rightarrow> bool" where
  "is_lower c \<longleftrightarrow> CHR ''a'' \<le> c \<and> c \<le> CHR ''z''"

definition is_upper :: "char \<Rightarrow> bool" where
  "is_upper c \<longleftrightarrow> CHR ''A'' \<le> c \<and> c \<le> CHR ''Z''"

definition alphanumeric :: "char \<Rightarrow> bool" where
  "alphanumeric c \<longleftrightarrow> is_digit c \<or> is_lower c \<or> is_upper c"

definition octaldigit :: "char \<Rightarrow> bool" where
  "octaldigit c \<longleftrightarrow> CHR ''0'' \<le> c \<and> c \<le> CHR ''7''"

definition is_hex :: "char \<Rightarrow> bool" where
  "is_hex c \<longleftrightarrow> is_digit c \<or> CHR ''a'' \<le> c \<and> c \<le> CHR ''f'' \<or> CHR ''A'' \<le> c \<and> c \<le> CHR ''F''"

definition after_comment :: "string \<Rightarrow> string" where
  "after_comment s = (case dropWhile (\<lambda>c. \<not> is_eol c) s of [] \<Rightarrow> [] | _ # r \<Rightarrow> r)"

lemma length_after_comment: "length (after_comment s) \<le> length s"
  using length_dropWhile_le [of "\<lambda>c. \<not> is_eol c" s]
  by (auto simp: after_comment_def split: list.splits)

text \<open>The rule \<open>__\<close>: any mixture of white space and comments.\<close>

function skip :: "string \<Rightarrow> string" where
  "skip [] = []"
| "skip (c # s) =
     (if is_ws c then skip s else if c = CHR '';'' then skip (after_comment s) else c # s)"
  by pat_completeness auto
termination
  by (relation "measure length") (auto simp: length_after_comment le_imp_less_Suc)

definition opt_sign :: "string \<Rightarrow> string \<times> string" where
  "opt_sign s = (case s of c # r \<Rightarrow> if is_sign c then ([c], r) else ([], s) | [] \<Rightarrow> ([], []))"

definition signed_digits :: "string \<Rightarrow> (string \<times> string) option" where
  "signed_digits s =
     (case opt_sign s of (sg, r) \<Rightarrow>
        case span1 is_digit r of None \<Rightarrow> None | Some (d, r') \<Rightarrow> Some (sg @ d, r'))"

definition read_int :: "string \<Rightarrow> int" where
  "read_int s =
     (case s of
        [] \<Rightarrow> 0
      | c # r \<Rightarrow> if c = CHR ''-'' then - int (read_nat r)
                else if c = CHR ''+'' then int (read_nat r) else int (read_nat s))"

definition parse_int_error :: panic where
  "parse_int_error = Panic ''called `Result::unwrap()` on an `Err` value: ParseIntError''"

definition parse_i64 :: "string \<Rightarrow> (panic, int) result" where
  "parse_i64 s = (if i64_ok (read_int s) then Inr (read_int s) else Inl parse_int_error)"

definition radix_digit :: "char \<Rightarrow> nat" where
  "radix_digit c =
     (if is_digit c then of_char c - 48
      else if is_lower c then of_char c - 87 else of_char c - 55)"

definition from_str_radix :: "string \<Rightarrow> nat \<Rightarrow> (panic, int) result" where
  "from_str_radix s base =
     (if \<forall>c\<in>set s. radix_digit c < base
      then let n = foldl (\<lambda>n c. base * n + radix_digit c) 0 s in
           if i64_ok (int n) then Inr (int n) else Inl parse_int_error
      else Inl parse_int_error)"

section \<open>Atoms\<close>

definition nil :: "string \<Rightarrow> edn_value presult" where
  "nil s = (case lit ''nil'' s of Some r \<Rightarrow> POk VNil r | None \<Rightarrow> PFail)"

definition hash_f :: "string \<Rightarrow> string option" where
  "hash_f s =
     (case lit ''#f'' s of None \<Rightarrow> None
      | Some r \<Rightarrow> (case span1 is_ws r of None \<Rightarrow> None | Some (_, r') \<Rightarrow> Some r'))"

definition nan :: "string \<Rightarrow> edn_value presult" where
  "nan s =
     (case hash_f s of None \<Rightarrow> PFail
      | Some r \<Rightarrow> (case lit ''NaN'' r of Some r' \<Rightarrow> POk (VFloat NaN) r' | None \<Rightarrow> PFail))"

definition infinity :: "string \<Rightarrow> edn_value presult" where
  "infinity s =
     (case hash_f s of
        Some (c # r) \<Rightarrow>
          if is_sign c then
            (case lit ''Infinity'' r of
               Some r' \<Rightarrow> POk (VFloat (if c = CHR ''+'' then PosInfinity else NegInfinity)) r'
             | None \<Rightarrow> PFail)
          else PFail
      | _ \<Rightarrow> PFail)"

definition boolean :: "string \<Rightarrow> edn_value presult" where
  "boolean s =
     (case lit ''true'' s of Some r \<Rightarrow> POk (VBoolean True) r
      | None \<Rightarrow> (case lit ''false'' s of Some r \<Rightarrow> POk (VBoolean False) r | None \<Rightarrow> PFail))"

definition raw_bigint :: "string \<Rightarrow> int presult" where
  "raw_bigint s =
     (case signed_digits s of None \<Rightarrow> PFail
      | Some (b, r) \<Rightarrow> (case lit ''N'' r of Some r' \<Rightarrow> POk (read_int b) r' | None \<Rightarrow> PFail))"

definition raw_octalinteger :: "string \<Rightarrow> int presult" where
  "raw_octalinteger s =
     (case lit ''0'' s of None \<Rightarrow> PFail
      | Some r \<Rightarrow> (case span1 octaldigit r of None \<Rightarrow> PFail
                  | Some (i, r') \<Rightarrow> p_action (from_str_radix i 8) r'))"

definition raw_hexinteger :: "string \<Rightarrow> int presult" where
  "raw_hexinteger s =
     (case lit ''0x'' s of None \<Rightarrow> PFail
      | Some r \<Rightarrow> (case span1 is_hex r of None \<Rightarrow> PFail
                  | Some (i, r') \<Rightarrow> p_action (from_str_radix i 16) r'))"

definition validbase :: "string \<Rightarrow> (string \<times> string) option" where
  "validbase s =
     (case s of
        [] \<Rightarrow> None
      | a # s' \<Rightarrow>
          (case s' of
             b # r \<Rightarrow>
               if a = CHR ''3'' \<and> CHR ''0'' \<le> b \<and> b \<le> CHR ''6'' then Some ([a, b], r)
               else if (a = CHR ''1'' \<or> a = CHR ''2'') \<and> is_digit b then Some ([a, b], r)
               else if CHR ''2'' \<le> a \<and> a \<le> CHR ''9'' then Some ([a], s') else None
           | [] \<Rightarrow> if CHR ''2'' \<le> a \<and> a \<le> CHR ''9'' then Some ([a], s') else None))"

definition raw_basedinteger :: "string \<Rightarrow> int presult" where
  "raw_basedinteger s =
     (case validbase s of None \<Rightarrow> PFail
      | Some (b, r) \<Rightarrow>
          (case lit ''r'' r of None \<Rightarrow> PFail
           | Some r' \<Rightarrow> (case span1 alphanumeric r' of None \<Rightarrow> PFail
                        | Some (i, r'') \<Rightarrow> p_action (from_str_radix i (read_nat b)) r'')))"

definition raw_integer :: "string \<Rightarrow> int presult" where
  "raw_integer s =
     (case signed_digits s of None \<Rightarrow> PFail
      | Some (i, r) \<Rightarrow>
          if (case r of [] \<Rightarrow> False | c # _ \<Rightarrow> c = CHR ''.'' \<or> c = CHR ''e'' \<or> c = CHR ''E'') then PFail
          else p_action (parse_i64 i) r)"

definition opt_fraction :: "string \<Rightarrow> string \<times> string" where
  "opt_fraction s =
     (case lit ''.'' s of None \<Rightarrow> ([], s)
      | Some r \<Rightarrow> (case span1 is_digit r of None \<Rightarrow> ([], s) | Some (d, r') \<Rightarrow> (''.'' @ d, r')))"

definition opt_exponent :: "string \<Rightarrow> string \<times> string" where
  "opt_exponent s =
     (case s of
        [] \<Rightarrow> ([], [])
      | c # r \<Rightarrow>
          if c = CHR ''e'' \<or> c = CHR ''E'' then
            (case signed_digits r of None \<Rightarrow> ([], s) | Some (d, r') \<Rightarrow> (c # d, r'))
          else ([], s))"

definition raw_float :: "'x ext_scheme \<Rightarrow> string \<Rightarrow> f64 presult" where
  "raw_float x s =
     (case signed_digits s of None \<Rightarrow> PFail
      | Some (i, r) \<Rightarrow>
          (case opt_fraction r of (f, r') \<Rightarrow>
             case opt_exponent r' of (e, r'') \<Rightarrow> POk (parse_f64 x (i @ f @ e)) r''))"

definition number :: "'x ext_scheme \<Rightarrow> string \<Rightarrow> edn_value presult" where
  "number x s =
     p_or (p_map VBigInteger (raw_bigint s))
    (p_or (p_map VInteger (raw_basedinteger s))
    (p_or (p_map VInteger (raw_hexinteger s))
    (p_or (p_map VInteger (raw_octalinteger s))
    (p_or (p_map VInteger (raw_integer s))
          (p_map VFloat (raw_float x s))))))"

text \<open>The body of a string literal up to its closing quote, with the escapes translated.\<close>

definition unescape :: "char \<Rightarrow> char option" where
  "unescape c =
     (if c = CHR ''n'' then Some (CHR 0x0A)
      else if c = CHR ''t'' then Some (CHR 0x09)
      else if c = CHR ''r'' then Some (CHR 0x0D)
      else if c = CHR 0x5C \<or> c = CHR 0x22 then Some c else None)"

fun text_body :: "string \<Rightarrow> (string \<times> string) option" where
  "text_body [] = None"
| "text_body [c] = (if c = CHR 0x22 then Some ([], []) else None)"
| "text_body (c # d # s) =
     (if c = CHR 0x22 then Some ([], d # s)
      else if c = CHR 0x5C then
        (case unescape d of None \<Rightarrow> None
         | Some e \<Rightarrow> (case text_body s of None \<Rightarrow> None | Some (t, r) \<Rightarrow> Some (e # t, r)))
      else (case text_body (d # s) of None \<Rightarrow> None | Some (t, r) \<Rightarrow> Some (c # t, r)))"

definition raw_text :: "string \<Rightarrow> string presult" where
  "raw_text s =
     (case s of
        c # r \<Rightarrow> if c = CHR 0x22 then (case text_body r of None \<Rightarrow> PFail | Some (t, r') \<Rightarrow> POk t r')
                else PFail
      | [] \<Rightarrow> PFail)"

fun match_classes :: "(char \<Rightarrow> bool) list \<Rightarrow> string \<Rightarrow> (string \<times> string) option" where
  "match_classes [] s = Some ([], s)"
| "match_classes (P # Ps) [] = None"
| "match_classes (P # Ps) (c # s) =
     (if P c then (case match_classes Ps s of None \<Rightarrow> None | Some (m, r) \<Rightarrow> Some (c # m, r)) else None)"

definition upto_digit :: "char \<Rightarrow> char \<Rightarrow> bool" where
  "upto_digit d c \<longleftrightarrow> CHR ''0'' \<le> c \<and> c \<le> d"

definition is_char :: "char \<Rightarrow> char \<Rightarrow> bool" where "is_char d c \<longleftrightarrow> c = d"

definition date_time_classes :: "(char \<Rightarrow> bool) list" where
  "date_time_classes =
     replicate 4 is_digit @ [is_char (CHR ''-''), upto_digit (CHR ''2''), is_digit, is_char (CHR ''-''),
       upto_digit (CHR ''3''), is_digit, is_char (CHR ''T''), upto_digit (CHR ''2''), is_digit,
       is_char (CHR '':''), upto_digit (CHR ''5''), is_digit, is_char (CHR '':''),
       upto_digit (CHR ''6''), is_digit]"

definition zone :: "string \<Rightarrow> (string \<times> string) option" where
  "zone s =
     (case lit ''Z'' s of Some r \<Rightarrow> Some (''Z'', r)
      | None \<Rightarrow> match_classes [is_sign, upto_digit (CHR ''2''), is_digit, is_char (CHR '':''),
                             upto_digit (CHR ''5''), is_digit] s)"

definition inst_string :: "'x ext_scheme \<Rightarrow> string \<Rightarrow> datetime presult" where
  "inst_string x s =
     (case lit ''#inst'' s of None \<Rightarrow> PFail | Some r1 \<Rightarrow>
      case span1 is_ws r1 of None \<Rightarrow> PFail | Some (_, r2) \<Rightarrow>
      case lit [CHR 0x22] r2 of None \<Rightarrow> PFail | Some r3 \<Rightarrow>
      case match_classes date_time_classes r3 of None \<Rightarrow> PFail | Some (d, r4) \<Rightarrow>
      case opt_fraction r4 of (f, r5) \<Rightarrow>
      case zone r5 of None \<Rightarrow> PFail | Some (z, r6) \<Rightarrow>
      case lit [CHR 0x22] r6 of None \<Rightarrow> PFail | Some r7 \<Rightarrow>
      case parse_rfc3339 x (d @ f @ z) of None \<Rightarrow> PFail | Some t \<Rightarrow> POk t r7)"

definition timestamp_error :: panic where
  "timestamp_error = Panic ''called `LocalResult::unwrap()` on a `None` value''"

definition inst_micros :: "'x ext_scheme \<Rightarrow> string \<Rightarrow> datetime presult" where
  "inst_micros x s =
     (case lit ''#instmicros'' s of None \<Rightarrow> PFail | Some r1 \<Rightarrow>
      case span1 is_ws r1 of None \<Rightarrow> PFail | Some (_, r2) \<Rightarrow>
      case span1 is_digit r2 of None \<Rightarrow> PFail | Some (d, r3) \<Rightarrow>
      p_action (rbind (parse_i64 d) (\<lambda>micros.
        of_option timestamp_error
          (timestamp_opt x (rust_div micros 1000000) (nat \<bar>rust_rem micros 1000000\<bar> * 1000)))) r3)"

definition inst_millis :: "'x ext_scheme \<Rightarrow> string \<Rightarrow> datetime presult" where
  "inst_millis x s =
     (case lit ''#instmillis'' s of None \<Rightarrow> PFail | Some r1 \<Rightarrow>
      case span1 is_ws r1 of None \<Rightarrow> PFail | Some (_, r2) \<Rightarrow>
      case span1 is_digit r2 of None \<Rightarrow> PFail | Some (d, r3) \<Rightarrow>
      p_action (rbind (parse_i64 d) (\<lambda>millis.
        of_option timestamp_error
          (timestamp_opt x (rust_div millis 1000) (nat \<bar>rust_rem millis 1000\<bar> * 1000000)))) r3)"

definition inst :: "'x ext_scheme \<Rightarrow> string \<Rightarrow> edn_value presult" where
  "inst x s = p_map VInstant (p_or (inst_millis x s) (p_or (inst_micros x s) (inst_string x s)))"

definition uuid_char :: "char \<Rightarrow> bool" where
  "uuid_char c \<longleftrightarrow> CHR ''a'' \<le> c \<and> c \<le> CHR ''f'' \<or> is_digit c"

definition uuid_classes :: "(char \<Rightarrow> bool) list" where
  "uuid_classes =
     replicate 8 uuid_char @ is_char (CHR ''-'') # replicate 4 uuid_char @ is_char (CHR ''-'') #
     replicate 4 uuid_char @ is_char (CHR ''-'') # replicate 4 uuid_char @ is_char (CHR ''-'') #
     replicate 12 uuid_char"

definition uuid :: "'x ext_scheme \<Rightarrow> string \<Rightarrow> edn_value presult" where
  "uuid x s =
     (case lit ''#uuid'' s of None \<Rightarrow> PFail | Some r1 \<Rightarrow>
      case span1 is_ws r1 of None \<Rightarrow> PFail | Some (_, r2) \<Rightarrow>
      case lit [CHR 0x22] r2 of None \<Rightarrow> PFail | Some r3 \<Rightarrow>
      case match_classes uuid_classes r3 of None \<Rightarrow> PFail | Some (u, r4) \<Rightarrow>
      case lit [CHR 0x22] r4 of None \<Rightarrow> PFail | Some r5 \<Rightarrow>
      p_map VUuid (p_action (of_option (Panic ''this is a valid UUID string'') (parse_uuid x u)) r5))"

definition bytes :: "'x ext_scheme \<Rightarrow> string \<Rightarrow> edn_value presult" where
  "bytes x s =
     (case lit ''#bytes'' s of None \<Rightarrow> PFail | Some r1 \<Rightarrow>
      case span1 is_ws r1 of None \<Rightarrow> PFail | Some (_, r2) \<Rightarrow>
      case span1 is_hex r2 of None \<Rightarrow> PFail | Some (u, r3) \<Rightarrow>
      p_map VBytes
        (p_action (of_option (Panic ''this is a valid hex byte string'') (hex_decode x u)) r3))"

section \<open>Symbols and keywords\<close>

definition symbol_char_initial :: "char \<Rightarrow> bool" where
  "symbol_char_initial c \<longleftrightarrow> alphanumeric c \<or> c \<in> set ''*!_?$%&=<>''"

definition symbol_char_subsequent :: "char \<Rightarrow> bool" where
  "symbol_char_subsequent c \<longleftrightarrow> alphanumeric c \<or> c \<in> set ''+*!_?$%&=<>-''"

text \<open>\<open>namespace_parts\<close> is the repetition of a divider and at least one further character.\<close>

function namespace_parts :: "string \<Rightarrow> string \<times> string" where
  "namespace_parts s =
     (case lit ''.'' s of None \<Rightarrow> ([], s)
      | Some r \<Rightarrow>
          (case span1 symbol_char_subsequent r of None \<Rightarrow> ([], s)
           | Some (m, r') \<Rightarrow>
               if length r' < length s
               then (case namespace_parts r' of (ms, r'') \<Rightarrow> (''.'' @ m @ ms, r'')) else ([], s)))"
  by pat_completeness auto
termination by (relation "measure length") auto

declare namespace_parts.simps [simp del]

definition symbol_namespace :: "string \<Rightarrow> (string \<times> string) option" where
  "symbol_namespace s =
     (case s of
        [] \<Rightarrow> None
      | c # r \<Rightarrow>
          if symbol_char_initial c then
            (case namespace_parts (dropWhile symbol_char_subsequent r) of
               (ms, r') \<Rightarrow> Some (c # takeWhile symbol_char_subsequent r @ ms, r'))
          else None)"

definition symbol_name :: "string \<Rightarrow> (string \<times> string) option" where
  "symbol_name s =
     (case span1 symbol_char_initial s of None \<Rightarrow> None
      | Some (i, r) \<Rightarrow>
          Some (i @ takeWhile symbol_char_subsequent r, dropWhile symbol_char_subsequent r))"

definition plain_symbol_name :: "string \<Rightarrow> (string \<times> string) option" where
  "plain_symbol_name s =
     (case symbol_name s of Some m \<Rightarrow> Some m
      | None \<Rightarrow> (case lit ''...'' s of Some r \<Rightarrow> Some (''...'', r)
                | None \<Rightarrow> (case lit ''.'' s of Some r \<Rightarrow> Some (''.'', r) | None \<Rightarrow> None)))"

definition opt_namespace :: "string \<Rightarrow> string option \<times> string" where
  "opt_namespace s =
     (case symbol_namespace s of None \<Rightarrow> (None, s)
      | Some (ns, r) \<Rightarrow> (case lit ''/'' r of None \<Rightarrow> (None, s) | Some r' \<Rightarrow> (Some ns, r')))"

definition from_symbol :: "string option \<Rightarrow> string \<Rightarrow> (panic, edn_value) result" where
  "from_symbol ns n =
     (case ns of Some ns' \<Rightarrow> rbind (ns_namespaced ns' n) (\<lambda>y. Inr (VNamespacedSymbol y))
      | None \<Rightarrow> rbind (ps_plain n) (\<lambda>y. Inr (VPlainSymbol y)))"

definition from_keyword :: "string option \<Rightarrow> string \<Rightarrow> (panic, edn_value) result" where
  "from_keyword ns n =
     (case ns of Some ns' \<Rightarrow> rbind (kw_namespaced ns' n) (\<lambda>y. Inr (VKeyword y))
      | None \<Rightarrow> rbind (kw_plain n) (\<lambda>y. Inr (VKeyword y)))"

definition symbol :: "string \<Rightarrow> edn_value presult" where
  "symbol s =
     (case opt_namespace s of (ns, r) \<Rightarrow>
        case plain_symbol_name r of None \<Rightarrow> PFail | Some (n, r') \<Rightarrow> p_action (from_symbol ns n) r')"

definition keyword_p :: "string \<Rightarrow> edn_value presult" where
  "keyword_p s =
     (case lit '':'' s of None \<Rightarrow> PFail | Some r \<Rightarrow>
      case opt_namespace r of (ns, r') \<Rightarrow>
        case symbol_name r' of None \<Rightarrow> PFail | Some (n, r'') \<Rightarrow> p_action (from_keyword ns n) r'')"

definition atoms :: "'x ext_scheme \<Rightarrow> string \<Rightarrow> edn_value presult" where
  "atoms x s =
     p_or (nil s) (p_or (nan s) (p_or (infinity s) (p_or (boolean s) (p_or (number x s)
    (p_or (inst x s) (p_or (uuid x s) (p_or (bytes x s) (p_or (p_map VText (raw_text s))
    (p_or (keyword_p s) (symbol s))))))))))"

section \<open>Values\<close>

lemma length_skip: "length (skip s) \<le> length s"
proof (induction s rule: skip.induct)
  case (2 c s)
  then show ?case using length_after_comment [of s] by (auto intro: le_SucI le_trans)
qed simp

lemma lit_Some: "lit w s = Some r \<longleftrightarrow> s = w @ r"
proof
  assume "lit w s = Some r"
  then have "take (length w) s = w" "drop (length w) s = r" by (auto simp: lit_def split: if_splits)
  then show "s = w @ r" by (metis append_take_drop_id)
qed (simp add: lit_def)

lemma lit_length: "lit w s = Some r \<Longrightarrow> w \<noteq> [] \<Longrightarrow> length r < length s"
  by (simp add: lit_Some)

lemma skip_bracket: "length r < length (skip s) \<Longrightarrow> Suc (2 * length (skip r)) < 2 * length s"
  using length_skip [of s] length_skip [of r] by linarith

text \<open>\<open>values_p\<close> and \<open>pairs_p\<close> are the repetitions of \<open>value\<close> and of \<open>pair\<close>; \<open>bracketed\<close> matches a
  closing bracket after them.\<close>

definition bracketed :: "string \<Rightarrow> ('a \<Rightarrow> edn_value) \<Rightarrow> 'a presult \<Rightarrow> edn_value presult" where
  "bracketed close f body =
     (case body of PFail \<Rightarrow> PFail | PAbort e \<Rightarrow> PAbort e
      | POk v r \<Rightarrow> (case lit close (skip r) of None \<Rightarrow> PFail | Some r' \<Rightarrow> POk (f v) r'))"

definition trailing :: "'a presult \<Rightarrow> 'a presult" where
  "trailing m = (case m of PFail \<Rightarrow> PFail | PAbort e \<Rightarrow> PAbort e | POk v r \<Rightarrow> POk v (skip r))"

function (sequential) value_p :: "'x ext_scheme \<Rightarrow> string \<Rightarrow> edn_value presult"
  and values_p :: "'x ext_scheme \<Rightarrow> string \<Rightarrow> edn_value list presult"
  and pairs_p :: "'x ext_scheme \<Rightarrow> string \<Rightarrow> (edn_value \<times> edn_value) list presult" where
  "value_p x s0 =
     (let s = skip s0 in
      trailing
       (p_or (atoms x s)
       (p_or (case lit ''('' s of None \<Rightarrow> PFail | Some r \<Rightarrow> bracketed '')'' VList (values_p x (skip r)))
       (p_or (case lit ''['' s of None \<Rightarrow> PFail | Some r \<Rightarrow> bracketed '']'' VVector (values_p x (skip r)))
       (p_or (case lit ''{'' s of None \<Rightarrow> PFail
              | Some r \<Rightarrow> bracketed ''}'' (\<lambda>m. VMap (bt_of_list value_cmp m)) (pairs_p x (skip r)))
             (case lit ''#{'' s of None \<Rightarrow> PFail
              | Some r \<Rightarrow> bracketed ''}'' (\<lambda>vs. VSet (bt_set_of_list value_cmp vs)) (values_p x (skip r))))))))"
| "values_p x s =
     (case value_p x s of PFail \<Rightarrow> POk [] s | PAbort e \<Rightarrow> PAbort e
      | POk v r \<Rightarrow> if length r < length s then p_map ((#) v) (values_p x r) else PFail)"
| "pairs_p x s =
     (case value_p x s of PFail \<Rightarrow> POk [] s | PAbort e \<Rightarrow> PAbort e
      | POk k r \<Rightarrow>
          if length r < length s then
            (case value_p x r of PFail \<Rightarrow> POk [] s | PAbort e \<Rightarrow> PAbort e
             | POk v r' \<Rightarrow> if length r' < length s then p_map ((#) (k, v)) (pairs_p x r') else PFail)
          else PFail)"
  by pat_completeness auto
termination
proof (relation "measure (\<lambda>t. case t of Inl (_, s) \<Rightarrow> 2 * length s
      | Inr (Inl (_, s)) \<Rightarrow> 2 * length s + 1 | Inr (Inr (_, s)) \<Rightarrow> 2 * length s + 1)")
qed (auto simp: lit_Some intro!: skip_bracket)

declare value_p.simps [simp del] values_p.simps [simp del] pairs_p.simps [simp del]

datatype parse_failure = TooDeep parse_error | Syntax | Panicked panic

definition parse_value :: "'x ext_scheme \<Rightarrow> string \<Rightarrow> (parse_failure, edn_value) result" where
  "parse_value x s =
     (case check_nesting s MAX_NESTING of
        Inl e \<Rightarrow> Inl (TooDeep e)
      | Inr _ \<Rightarrow>
          (case value_p x s of
             PFail \<Rightarrow> Inl Syntax
           | PAbort e \<Rightarrow> Inl (Panicked e)
           | POk v r \<Rightarrow> if r = [] then Inr v else Inl Syntax))"

end
