(* ===== verification/Edn_Reader.thy ===== *)
theory Edn_Reader
  imports Edn_Grammar
begin

text \<open>
  What the EDN reader promises.  The first part relates the grammar to the lexical scanner of
  the nesting check: every piece of text that a rule consumes leaves the scanner outside
  strings and comments at the depth it had, which bounds the depth of what is read.  The
  second part is about reading back what the printers write.
\<close>

section \<open>What the lexemes consume\<close>

definition neutral :: "char \<Rightarrow> bool" where
  "neutral c \<longleftrightarrow> \<not> is_opener c \<and> \<not> is_closer c \<and> c \<noteq> CHR 0x22 \<and> c \<noteq> CHR '';''"

definition quiet :: "string \<Rightarrow> bool" where
  "quiet p \<longleftrightarrow> (\<forall>mx d. scan mx p (Code, d) = Some (Code, d))"

definition eats :: "string \<Rightarrow> 'a presult \<Rightarrow> bool" where
  "eats s m \<longleftrightarrow> (\<forall>v r. m = POk v r \<longrightarrow> (\<exists>p. s = p @ r \<and> p \<noteq> [] \<and> quiet p))"

lemmas scan_defs = lex_step_def is_opener_def is_closer_def

lemma quiet_neutral: "\<forall>c\<in>set p. neutral c \<Longrightarrow> quiet p"
proof -
  assume "\<forall>c\<in>set p. neutral c"
  then have "scan mx p (Code, d) = Some (Code, d)" for mx d
    by (induction p) (auto simp: neutral_def lex_step_def)
  then show ?thesis by (simp add: quiet_def)
qed

lemma quiet_append [intro]: "quiet p \<Longrightarrow> quiet q \<Longrightarrow> quiet (p @ q)"
  by (simp add: quiet_def scan_append)

lemma quiet_Cons: "neutral c \<Longrightarrow> quiet p \<Longrightarrow> quiet (c # p)"
  using quiet_append [of "[c]" p] quiet_neutral [of "[c]"] by simp

lemma quiet_single [simp]: "neutral c \<Longrightarrow> quiet [c]"
  using quiet_neutral [of "[c]"] by simp

lemma neutral_Str: "\<forall>c\<in>set p. c \<noteq> CHR 0x22 \<and> c \<noteq> CHR 0x5C \<Longrightarrow> scan mx p (Str, d) = Some (Str, d)"
  by (induction p) (auto simp: lex_step_def)

lemma quiet_quoted:
  assumes "\<forall>c\<in>set p. c \<noteq> CHR 0x22 \<and> c \<noteq> CHR 0x5C"
  shows "quiet (CHR 0x22 # p @ [CHR 0x22])"
  using neutral_Str [OF assms] by (simp add: quiet_def scan_append scan_defs)

lemma neutral_classes:
  "is_digit c \<Longrightarrow> neutral c" "is_ws c \<Longrightarrow> neutral c" "is_hex c \<Longrightarrow> neutral c"
  "octaldigit c \<Longrightarrow> neutral c" "alphanumeric c \<Longrightarrow> neutral c" "is_sign c \<Longrightarrow> neutral c"
  "symbol_char_initial c \<Longrightarrow> neutral c" "symbol_char_subsequent c \<Longrightarrow> neutral c"
  by (auto simp: neutral_def is_opener_def is_closer_def is_digit_def is_ws_def is_hex_def
      octaldigit_def alphanumeric_def is_lower_def is_upper_def is_sign_def
      symbol_char_initial_def symbol_char_subsequent_def)

lemma p_or_POk: "p_or a b = POk v r \<longleftrightarrow> a = POk v r \<or> a = PFail \<and> b = POk v r"
  by (cases a) (simp_all add: p_or_def)

lemma p_map_POk: "p_map f a = POk v r \<longleftrightarrow> (\<exists>u. a = POk u r \<and> v = f u)"
  by (cases a) (auto simp: p_map_def)

lemma p_action_POk: "p_action m r = POk v r' \<longleftrightarrow> m = Inr v \<and> r' = r"
  by (cases m) (auto simp: p_action_def)

lemma eats_p_or [intro]: "eats s a \<Longrightarrow> eats s b \<Longrightarrow> eats s (p_or a b)"
  by (auto simp: eats_def p_or_POk)

lemma eats_p_map [intro]: "eats s a \<Longrightarrow> eats s (p_map f a)"
  by (auto simp: eats_def p_map_POk)

lemma eats_PFail [simp]: "eats s PFail" by (simp add: eats_def)

lemma eatsI: "s = p @ r \<Longrightarrow> p \<noteq> [] \<Longrightarrow> quiet p \<Longrightarrow> eats s (POk v r)"
  by (auto simp: eats_def)

lemma eats_actionI: "s = p @ r \<Longrightarrow> p \<noteq> [] \<Longrightarrow> quiet p \<Longrightarrow> eats s (p_action m r)"
  by (auto simp: eats_def p_action_POk)

lemma span1_Some: "span1 P s = Some (m, r) \<Longrightarrow> s = m @ r \<and> m \<noteq> [] \<and> (\<forall>c\<in>set m. P c)"
  by (auto simp: span1_def dest: set_takeWhileD split: if_splits)

lemma span1_quiet:
  "span1 P s = Some (m, r) \<Longrightarrow> (\<And>c. P c \<Longrightarrow> neutral c) \<Longrightarrow> s = m @ r \<and> m \<noteq> [] \<and> quiet m"
  by (auto dest!: span1_Some intro!: quiet_neutral)

lemma signed_digits_Some:
  assumes "signed_digits s = Some (m, r)"
  shows "s = m @ r \<and> m \<noteq> [] \<and> quiet m"
proof -
  obtain sg t d where o: "opt_sign s = (sg, t)" "span1 is_digit t = Some (d, r)" "m = sg @ d"
    using assms by (auto simp: signed_digits_def split: prod.splits option.splits)
  then have "s = sg @ t" "\<forall>c\<in>set sg. neutral c"
    by (auto simp: opt_sign_def neutral_classes split: list.splits if_splits)
  then show ?thesis using o span1_quiet [OF o(2) neutral_classes(1)] by (auto intro: quiet_neutral)
qed

lemma eats_words:
  "eats s (nil s)" "eats s (boolean s)"
  by (auto simp: nil_def boolean_def lit_Some eats_def neutral_def scan_defs
      intro!: quiet_neutral split: option.splits)

lemma hash_f_Some: "hash_f s = Some r \<Longrightarrow> \<exists>p. s = p @ r \<and> p \<noteq> [] \<and> quiet p"
proof -
  assume "hash_f s = Some r"
  then obtain t w where "s = ''#f'' @ t" "span1 is_ws t = Some (w, r)"
    by (auto simp: hash_f_def lit_Some split: option.splits)
  with span1_quiet [OF this(2) neutral_classes(2)] show ?thesis
    by (intro exI [of _ "''#f'' @ w"])
      (auto intro!: quiet_Cons simp: neutral_def is_opener_def is_closer_def)
qed

lemma eats_append: "s = p @ t \<Longrightarrow> quiet p \<Longrightarrow> eats t m \<Longrightarrow> eats s m"
  unfolding eats_def by (metis append.assoc append_is_Nil_conv quiet_append)

lemma eats_lit:
  "\<forall>c\<in>set w. neutral c \<Longrightarrow> w \<noteq> [] \<Longrightarrow> eats s (case lit w s of Some r \<Rightarrow> POk v r | None \<Rightarrow> PFail)"
  by (auto simp: lit_Some intro!: eatsI quiet_neutral split: option.splits)

lemma eats_special: "eats s (nan s)" "eats s (infinity s)"
proof -
  show "eats s (nan s)"
  proof (cases "hash_f s")
    case (Some r)
    have "eats r (case lit ''NaN'' r of Some r' \<Rightarrow> POk (VFloat NaN) r' | None \<Rightarrow> PFail)"
      by (rule eats_lit) (auto simp: neutral_def scan_defs)
    then show ?thesis using Some hash_f_Some [OF Some] by (auto simp: nan_def intro: eats_append)
  qed (simp add: nan_def)
  show "eats s (infinity s)"
  proof (cases "hash_f s")
    case (Some r)
    have "eats r (case lit ''Infinity'' t of Some r' \<Rightarrow> POk v r' | None \<Rightarrow> PFail)"
      if "r = c # t" "is_sign c" for c t and v :: edn_value
      by (rule eats_append [where p = "[c]" and t = t], use that in simp)
        (use that in \<open>auto simp: neutral_classes intro!: quiet_neutral eats_lit\<close>,
          simp_all add: neutral_def scan_defs)
    then have "eats r (infinity s)" using Some by (auto simp: infinity_def split: list.splits)
    then show ?thesis using hash_f_Some [OF Some] eats_append by blast
  qed (simp add: infinity_def)
qed

lemma lit_neutral: "lit w s = Some r \<Longrightarrow> \<forall>c\<in>set w. neutral c \<Longrightarrow> s = w @ r \<and> quiet w"
  by (simp add: lit_Some quiet_neutral)

lemma neutral_lits [simp]:
  "neutral (CHR ''N'')" "neutral (CHR ''0'')" "neutral (CHR ''x'')" "neutral (CHR ''r'')"
  "neutral (CHR ''.'')" "neutral (CHR '':'')" "neutral (CHR ''/'')" "neutral (CHR ''#'')"
  "neutral (CHR ''-'')" "neutral (CHR ''T'')" "neutral (CHR ''Z'')"
  "neutral (CHR ''i'')" "neutral (CHR ''n'')" "neutral (CHR ''s'')" "neutral (CHR ''t'')"
  "neutral (CHR ''m'')" "neutral (CHR ''l'')" "neutral (CHR ''c'')" "neutral (CHR ''o'')"
  "neutral (CHR ''u'')" "neutral (CHR ''d'')" "neutral (CHR ''b'')" "neutral (CHR ''y'')"
  "neutral (CHR ''e'')" "neutral (CHR ''E'')"
  by (simp_all add: neutral_def is_opener_def is_closer_def)

lemma eats_radix:
  "(\<And>c. P c \<Longrightarrow> neutral c) \<Longrightarrow>
     eats s (case span1 P s of None \<Rightarrow> PFail | Some (i, r) \<Rightarrow> p_action (f i) r)"
  by (auto dest!: span1_quiet intro: eats_actionI split: option.splits)

lemma eats_after_lit:
  "\<forall>c\<in>set w. neutral c \<Longrightarrow> (\<And>r. eats r (f r)) \<Longrightarrow>
     eats s (case lit w s of None \<Rightarrow> PFail | Some r \<Rightarrow> f r)"
  by (auto dest!: lit_neutral intro: eats_append split: option.splits)

lemma validbase_digits: "validbase s = Some (b, r) \<Longrightarrow> s = b @ r \<and> b \<noteq> [] \<and> (\<forall>c\<in>set b. is_digit c)"
  by (auto simp: validbase_def is_digit_iff less_eq_char_def split: list.splits if_splits)

lemma validbase_Some: "validbase s = Some (b, r) \<Longrightarrow> s = b @ r \<and> quiet b"
  by (auto dest!: validbase_digits intro: quiet_neutral neutral_classes)

lemma opt_fraction_split: "opt_fraction s = (f, r) \<Longrightarrow> s = f @ r \<and> (\<forall>c\<in>set f. neutral c)"
  by (auto simp: opt_fraction_def lit_Some neutral_classes split: option.splits dest!: span1_Some)

lemma opt_exponent_split: "opt_exponent s = (e, r) \<Longrightarrow> s = e @ r \<and> quiet e"
  by (auto simp: opt_exponent_def quiet_neutral split: list.splits if_splits option.splits
      dest!: signed_digits_Some intro!: quiet_Cons)

lemma eats_numbers:
  "eats s (raw_bigint s)" "eats s (raw_octalinteger s)" "eats s (raw_hexinteger s)"
  "eats s (raw_basedinteger s)" "eats s (raw_integer s)" "eats s (raw_float x s)"
proof -
  show "eats s (raw_bigint s)"
    by (auto simp: raw_bigint_def lit_Some split: option.splits dest!: signed_digits_Some
        intro!: eatsI [where p = "_ @ ''N''"] quiet_append)
  show "eats s (raw_octalinteger s)" unfolding raw_octalinteger_def
    by (rule eats_after_lit) (simp, rule eats_radix, rule neutral_classes)
  show "eats s (raw_hexinteger s)" unfolding raw_hexinteger_def
    by (rule eats_after_lit) (simp, rule eats_radix, rule neutral_classes)
  have "eats t (case lit ''r'' t of None \<Rightarrow> PFail | Some r' \<Rightarrow>
      (case span1 alphanumeric r' of None \<Rightarrow> PFail | Some (i, r'') \<Rightarrow> p_action (f i) r''))"
    for t and f :: "string \<Rightarrow> (panic, int) result"
    by (rule eats_after_lit) (simp, rule eats_radix, rule neutral_classes)
  then show "eats s (raw_basedinteger s)"
  proof (cases "validbase s")
    case (Some br)
    obtain b r where br: "br = (b, r)" by (cases br)
    have "s = b @ r" "quiet b" using validbase_Some [of s b r] Some br by simp_all
    then show ?thesis unfolding raw_basedinteger_def Some br option.case prod.case
      by (rule eats_append) fact
  qed (simp add: raw_basedinteger_def)
  show "eats s (raw_integer s)"
    by (auto simp: raw_integer_def dest!: signed_digits_Some intro: eats_actionI
        split: option.splits)
  show "eats s (raw_float x s)"
    by (auto simp: raw_float_def dest!: signed_digits_Some opt_fraction_split opt_exponent_split
        split: option.splits prod.splits
        intro!: eatsI [where p = "_ @ _ @ _"] quiet_append intro: quiet_neutral)
qed

lemma eats_number: "eats s (number x s)"
  unfolding number_def by (intro eats_p_or eats_p_map eats_numbers)

lemma text_body_scan: "text_body s = Some (t, r) \<Longrightarrow> \<exists>p. s = p @ r \<and> (\<forall>mx d. scan mx p (Str, d) = Some (Code, d))"
proof (induction s arbitrary: t rule: text_body.induct)
  case (2 c)
  then show ?case by (auto simp: scan_defs split: if_splits intro!: exI [of _ "[CHR 0x22]"])
next
  case (3 c d s)
  consider "c = CHR 0x22" | "c = CHR 0x5C" | "c \<noteq> CHR 0x22" "c \<noteq> CHR 0x5C" by blast
  then show ?case
  proof cases
    case 1
    then show ?thesis using 3 by (intro exI [of _ "[CHR 0x22]"]) (simp add: scan_defs)
  next
    case 2
    then obtain e t' where "unescape d = Some e" "text_body s = Some (t', r)"
      using 3(3) by (auto split: option.splits)
    then obtain p where "s = p @ r" "\<forall>mx d. scan mx p (Str, d) = Some (Code, d)"
      using 3(1) 2 by fastforce
    then show ?thesis using 2 by (intro exI [of _ "c # d # p"]) (simp add: lex_step_def)
  next
    case 3
    then obtain t' where "text_body (d # s) = Some (t', r)"
      using "3.prems" by (auto split: option.splits)
    then obtain p where "d # s = p @ r" "\<forall>mx d. scan mx p (Str, d) = Some (Code, d)"
      using "3.IH"(2) 3 by fastforce
    then show ?thesis using 3 by (intro exI [of _ "c # p"]) (simp add: lex_step_def)
  qed
qed simp

lemma eats_text: "eats s (raw_text s)"
proof (cases s)
  case (Cons c s')
  have "\<exists>p. s = p @ r \<and> p \<noteq> [] \<and> quiet p" if q: "c = CHR 0x22" and t: "text_body s' = Some (t, r)" for t r
  proof -
    obtain p where "s' = p @ r" "\<forall>mx d. scan mx p (Str, d) = Some (Code, d)"
      using text_body_scan [OF t] by blast
    then show ?thesis using q Cons
      by (intro exI [of _ "c # p"]) (simp add: quiet_def lex_step_def is_opener_def is_closer_def)
  qed
  then show ?thesis using Cons by (auto simp: raw_text_def eats_def split: option.splits if_splits)
qed (simp add: raw_text_def)

lemma match_classes_Some:
  "match_classes Ps s = Some (m, r) \<Longrightarrow> s = m @ r \<and> list_all2 (\<lambda>P c. P c) Ps m"
  by (induction Ps s arbitrary: m rule: match_classes.induct) (auto split: if_splits option.splits)

lemma list_all2_classes:
  "list_all2 (\<lambda>P c. P c) Ps m \<Longrightarrow> \<forall>P\<in>set Ps. \<forall>c. P c \<longrightarrow> Q c \<Longrightarrow> \<forall>c\<in>set m. Q c"
  by (induction rule: list_all2_induct) auto

definition plain_char :: "char \<Rightarrow> bool" where
  "plain_char c \<longleftrightarrow> neutral c \<and> c \<noteq> CHR 0x5C"

lemma plain_classes:
  "is_digit c \<Longrightarrow> plain_char c" "is_char (CHR ''-'') c \<Longrightarrow> plain_char c"
  "is_char (CHR '':'') c \<Longrightarrow> plain_char c" "is_char (CHR ''T'') c \<Longrightarrow> plain_char c"
  "is_sign c \<Longrightarrow> plain_char c" "uuid_char c \<Longrightarrow> plain_char c"
  "upto_digit (CHR ''2'') c \<Longrightarrow> plain_char c" "upto_digit (CHR ''3'') c \<Longrightarrow> plain_char c"
  "upto_digit (CHR ''5'') c \<Longrightarrow> plain_char c" "upto_digit (CHR ''6'') c \<Longrightarrow> plain_char c"
proof -
  show dig: "is_digit c \<Longrightarrow> plain_char c" for c
    by (auto simp: plain_char_def neutral_classes) (simp add: is_digit_def)
  show "upto_digit (CHR ''2'') c \<Longrightarrow> plain_char c" "upto_digit (CHR ''3'') c \<Longrightarrow> plain_char c"
    "upto_digit (CHR ''5'') c \<Longrightarrow> plain_char c" "upto_digit (CHR ''6'') c \<Longrightarrow> plain_char c"
    by (rule dig, simp add: upto_digit_def is_digit_iff less_eq_char_def)+
qed (auto simp: plain_char_def is_char_def neutral_def is_opener_def is_closer_def is_sign_def
    uuid_char_def is_digit_def)

lemma date_time_plain:
  "match_classes date_time_classes s = Some (m, r) \<Longrightarrow> s = m @ r \<and> (\<forall>c\<in>set m. plain_char c)"
  by (drule match_classes_Some, erule conjE, drule list_all2_classes [where Q = plain_char])
    (auto simp: date_time_classes_def plain_classes)

lemma uuid_plain:
  "match_classes uuid_classes s = Some (m, r) \<Longrightarrow> s = m @ r \<and> (\<forall>c\<in>set m. plain_char c)"
  by (drule match_classes_Some, erule conjE, drule list_all2_classes [where Q = plain_char])
    (auto simp: uuid_classes_def plain_classes)

lemma zone_plain: "zone s = Some (m, r) \<Longrightarrow> s = m @ r \<and> (\<forall>c\<in>set m. plain_char c)"
proof -
  assume "zone s = Some (m, r)"
  then consider "s = ''Z'' @ r" "m = ''Z''"
    | "match_classes [is_sign, upto_digit (CHR ''2''), is_digit, is_char (CHR '':''),
         upto_digit (CHR ''5''), is_digit] s = Some (m, r)"
    by (auto simp: zone_def lit_Some split: option.splits)
  then show ?thesis
  proof cases
    case 1
    then show ?thesis by (simp add: plain_char_def)
  next
    case 2
    then show ?thesis
      by (drule_tac match_classes_Some, elim conjE, drule_tac list_all2_classes [where Q = plain_char])
        (auto simp: plain_classes)
  qed
qed

lemma fraction_plain: "opt_fraction s = (f, r) \<Longrightarrow> s = f @ r \<and> (\<forall>c\<in>set f. plain_char c)"
  by (auto simp: opt_fraction_def lit_Some plain_classes plain_char_def [of "CHR ''.''"]
      split: option.splits dest!: span1_Some)

lemma quiet_plain_quoted: "\<forall>c\<in>set p. plain_char c \<Longrightarrow> quiet (CHR 0x22 # p @ [CHR 0x22])"
  by (rule quiet_quoted) (auto simp: plain_char_def neutral_def)

lemma eats_after_ws:
  "(\<And>r. eats r (f r)) \<Longrightarrow> eats s (case span1 is_ws s of None \<Rightarrow> PFail | Some (_, r) \<Rightarrow> f r)"
  by (auto dest!: span1_quiet [OF _ neutral_classes(2)] intro: eats_append split: option.splits)

lemma eats_tagged:
  assumes "\<forall>c\<in>set w. neutral c" "\<And>r. eats r (f r)"
  shows "eats s (case lit w s of None \<Rightarrow> PFail | Some r1 \<Rightarrow>
      case span1 is_ws r1 of None \<Rightarrow> PFail | Some (_, r2) \<Rightarrow> f r2)"
  by (rule eats_after_lit [OF assms(1)], rule eats_after_ws, rule assms(2))

lemma eats_inst_string: "eats s (inst_string x s)"
  unfolding inst_string_def
proof (rule eats_tagged)
  fix r
  show "eats r (case lit [CHR 0x22] r of None \<Rightarrow> PFail | Some r3 \<Rightarrow>
      case match_classes date_time_classes r3 of None \<Rightarrow> PFail | Some (d, r4) \<Rightarrow>
      case opt_fraction r4 of (f, r5) \<Rightarrow>
      case zone r5 of None \<Rightarrow> PFail | Some (z, r6) \<Rightarrow>
      case lit [CHR 0x22] r6 of None \<Rightarrow> PFail | Some r7 \<Rightarrow>
      case parse_rfc3339 x (d @ f @ z) of None \<Rightarrow> PFail | Some t \<Rightarrow> POk t r7)"
    by (auto simp: lit_Some split: option.splits prod.splits dest!: date_time_plain fraction_plain zone_plain)
      (rule_tac p = "CHR 0x22 # (a @ x1 @ aa) @ [CHR 0x22]" in eatsI;
        (rule quiet_plain_quoted)?; auto)
qed simp

lemma eats_inst: "eats s (inst x s)"
proof -
  have "eats s (inst_micros x s)" unfolding inst_micros_def
    by (rule eats_tagged) (simp, rule eats_radix, rule neutral_classes)
  moreover have "eats s (inst_millis x s)" unfolding inst_millis_def
    by (rule eats_tagged) (simp, rule eats_radix, rule neutral_classes)
  ultimately show ?thesis unfolding inst_def by (intro eats_p_map eats_p_or eats_inst_string)
qed

lemma eats_uuid: "eats s (uuid x s)"
  unfolding uuid_def
proof (rule eats_tagged)
  fix r
  show "eats r (case lit [CHR 0x22] r of None \<Rightarrow> PFail | Some r3 \<Rightarrow>
      case match_classes uuid_classes r3 of None \<Rightarrow> PFail | Some (u, r4) \<Rightarrow>
      case lit [CHR 0x22] r4 of None \<Rightarrow> PFail | Some r5 \<Rightarrow>
      p_map VUuid (p_action (of_option (Panic ''this is a valid UUID string'') (parse_uuid x u)) r5))"
    by (auto simp: lit_Some split: option.splits dest!: uuid_plain intro!: eats_p_map)
      (rule_tac p = "CHR 0x22 # a @ [CHR 0x22]" in eats_actionI; (rule quiet_plain_quoted)?; auto)
qed simp

lemma eats_bytes: "eats s (bytes x s)"
proof -
  have "eats r (case span1 is_hex r of None \<Rightarrow> PFail | Some (u, r3) \<Rightarrow> p_map VBytes (p_action (f u) r3))"
    for r and f :: "string \<Rightarrow> (panic, string) result"
    using eats_radix [of is_hex r f] by (auto split: option.splits simp: neutral_classes)
  then show ?thesis unfolding bytes_def by (intro eats_tagged) simp_all
qed

lemma namespace_parts_split: "namespace_parts s = (m, r) \<Longrightarrow> s = m @ r \<and> (\<forall>c\<in>set m. neutral c)"
proof (induction s arbitrary: m r rule: namespace_parts.induct)
  case (1 s)
  show ?case
  proof (cases "\<exists>r1 m1 r2. lit ''.'' s = Some r1 \<and> span1 symbol_char_subsequent r1 = Some (m1, r2)
      \<and> length r2 < length s")
    case True
    then obtain r1 m1 r2 where *: "lit ''.'' s = Some r1" "span1 symbol_char_subsequent r1 = Some (m1, r2)"
      "length r2 < length s" by blast
    then obtain ms where ms: "namespace_parts r2 = (ms, r)" "m = ''.'' @ m1 @ ms"
      using 1(2) by (subst (asm) namespace_parts.simps) (auto split: prod.splits)
    then show ?thesis using 1(1) [OF *(1) *(2) refl *(3) ms(1)] * span1_Some [OF *(2)]
      by (auto simp: lit_Some neutral_classes)
  next
    case False
    then have "m = []" "r = s" using 1(2)
      by (subst (asm) namespace_parts.simps; fastforce split: option.splits if_splits)+
    then show ?thesis by simp
  qed
qed

lemma symbol_namespace_split:
  "symbol_namespace s = Some (m, r) \<Longrightarrow> s = m @ r \<and> m \<noteq> [] \<and> (\<forall>c\<in>set m. neutral c)"
  by (auto simp: symbol_namespace_def neutral_classes split: list.splits if_splits prod.splits
      dest!: namespace_parts_split set_takeWhileD)
    (metis append.assoc takeWhile_dropWhile_id)

lemma symbol_name_split:
  "symbol_name s = Some (m, r) \<Longrightarrow> s = m @ r \<and> m \<noteq> [] \<and> (\<forall>c\<in>set m. neutral c)"
  by (auto simp: symbol_name_def neutral_classes split: option.splits
      dest!: span1_Some set_takeWhileD)

lemma plain_symbol_name_split:
  "plain_symbol_name s = Some (m, r) \<Longrightarrow> s = m @ r \<and> m \<noteq> [] \<and> (\<forall>c\<in>set m. neutral c)"
  by (auto simp: plain_symbol_name_def lit_Some split: option.splits dest!: symbol_name_split)

lemma opt_namespace_split:
  "opt_namespace s = (ns, r) \<Longrightarrow> \<exists>p. s = p @ r \<and> (\<forall>c\<in>set p. neutral c) \<and> ns \<noteq> Some []"
  by (auto simp: opt_namespace_def lit_Some split: option.splits dest!: symbol_namespace_split)

lemma eats_symbol: "eats s (symbol s)" "eats s (keyword_p s)"
proof -
  show "eats s (symbol s)"
    by (auto simp: symbol_def split: prod.splits option.splits
        dest!: opt_namespace_split plain_symbol_name_split)
      (rule_tac p = "p @ a" in eats_actionI; auto intro!: quiet_neutral)
  show "eats s (keyword_p s)"
    by (auto simp: keyword_p_def lit_Some split: prod.splits option.splits
        dest!: opt_namespace_split symbol_name_split)
      (rule_tac p = "CHR '':'' # p @ a" in eats_actionI; auto intro!: quiet_neutral)
qed

lemma eats_atoms: "eats s (atoms x s)"
  unfolding atoms_def
  by (intro eats_p_or eats_p_map eats_words eats_special eats_number eats_inst eats_uuid eats_bytes
      eats_text eats_symbol)

section \<open>The depth of what is read\<close>

fun vdepth :: "edn_value \<Rightarrow> nat" where
  "vdepth (VVector vs) = Suc (foldr (\<lambda>v n. max (vdepth v) n) vs 0)"
| "vdepth (VList vs) = Suc (foldr (\<lambda>v n. max (vdepth v) n) vs 0)"
| "vdepth (VSet vs) = Suc (foldr (\<lambda>v n. max (vdepth v) n) vs 0)"
| "vdepth (VMap m) = Suc (foldr (\<lambda>e n. max (max (vdepth (fst e)) (vdepth (snd e))) n) m 0)"
| "vdepth _ = 0"

lemma vdepth_le:
  "d + vdepth (VVector vs) \<le> mx \<longleftrightarrow> Suc d \<le> mx \<and> (\<forall>v\<in>set vs. Suc d + vdepth v \<le> mx)"
  "d + vdepth (VList vs) \<le> mx \<longleftrightarrow> Suc d \<le> mx \<and> (\<forall>v\<in>set vs. Suc d + vdepth v \<le> mx)"
  "d + vdepth (VSet vs) \<le> mx \<longleftrightarrow> Suc d \<le> mx \<and> (\<forall>v\<in>set vs. Suc d + vdepth v \<le> mx)"
  "d + vdepth (VMap m) \<le> mx \<longleftrightarrow> Suc d \<le> mx \<and>
     (\<forall>e\<in>set m. Suc d + vdepth (fst e) \<le> mx \<and> Suc d + vdepth (snd e) \<le> mx)"
proof -
  show "d + vdepth (VVector vs) \<le> mx \<longleftrightarrow> Suc d \<le> mx \<and> (\<forall>v\<in>set vs. Suc d + vdepth v \<le> mx)"
    by (induction vs) auto
  then show "d + vdepth (VList vs) \<le> mx \<longleftrightarrow> Suc d \<le> mx \<and> (\<forall>v\<in>set vs. Suc d + vdepth v \<le> mx)"
    "d + vdepth (VSet vs) \<le> mx \<longleftrightarrow> Suc d \<le> mx \<and> (\<forall>v\<in>set vs. Suc d + vdepth v \<le> mx)"
    by simp_all
  show "d + vdepth (VMap m) \<le> mx \<longleftrightarrow> Suc d \<le> mx \<and>
     (\<forall>e\<in>set m. Suc d + vdepth (fst e) \<le> mx \<and> Suc d + vdepth (snd e) \<le> mx)"
    by (induction m) auto
qed

text \<open>\<open>reads s r D\<close>: between \<open>s\<close> and its suffix \<open>r\<close> the scanner, started outside strings and
  comments at a depth \<open>d\<close> within the limit and not stopped by the limit, comes back to that
  depth outside strings, and outside comments unless the input is at its end; and then \<open>D\<close>
  holds of the limit and of \<open>d\<close>.\<close>

definition reads :: "string \<Rightarrow> string \<Rightarrow> (nat \<Rightarrow> nat \<Rightarrow> bool) \<Rightarrow> bool" where
  "reads s r D \<longleftrightarrow> (\<exists>p. s = p @ r \<and> (\<forall>mx d. d \<le> mx \<longrightarrow> scan mx p (Code, d) \<noteq> None \<longrightarrow>
     D mx d \<and> (scan mx p (Code, d) = Some (Code, d) \<or> r = [] \<and> scan mx p (Code, d) = Some (Comment, d))))"

lemma reads_length: "reads s r D \<Longrightarrow> length r \<le> length s"
  by (auto simp: reads_def)

lemma reads_mono: "reads s r D \<Longrightarrow> (\<And>mx d. d \<le> mx \<Longrightarrow> D mx d \<Longrightarrow> E mx d) \<Longrightarrow> reads s r E"
  unfolding reads_def by (elim exE conjE, intro exI conjI, assumption) blast

lemma reads_trans:
  assumes "reads s t D" "reads t r E"
  shows "reads s r (\<lambda>mx d. D mx d \<and> E mx d)"
proof -
  obtain p where p: "s = p @ t" "\<And>mx d. d \<le> mx \<Longrightarrow> scan mx p (Code, d) \<noteq> None \<Longrightarrow>
     D mx d \<and> (scan mx p (Code, d) = Some (Code, d) \<or> t = [] \<and> scan mx p (Code, d) = Some (Comment, d))"
    using assms(1) by (auto simp: reads_def)
  obtain q where q: "t = q @ r" "\<And>mx d. d \<le> mx \<Longrightarrow> scan mx q (Code, d) \<noteq> None \<Longrightarrow>
     E mx d \<and> (scan mx q (Code, d) = Some (Code, d) \<or> r = [] \<and> scan mx q (Code, d) = Some (Comment, d))"
    using assms(2) by (auto simp: reads_def)
  show ?thesis unfolding reads_def
  proof (intro exI [of _ "p @ q"] conjI allI impI)
    show "s = (p @ q) @ r" using p q by simp
    fix mx d :: nat
    assume d: "d \<le> mx" and "scan mx (p @ q) (Code, d) \<noteq> None"
    then have pq: "scan mx p (Code, d) \<noteq> None" by (auto simp: scan_append split: option.splits)
    show "D mx d" using p(2) [OF d pq] by simp
    from p(2) [OF d pq] consider "scan mx p (Code, d) = Some (Code, d)"
      | "t = []" "scan mx p (Code, d) = Some (Comment, d)" by blast
    then have "E mx d \<and> (scan mx (p @ q) (Code, d) = Some (Code, d) \<or>
        r = [] \<and> scan mx (p @ q) (Code, d) = Some (Comment, d))"
    proof cases
      case 1
      then show ?thesis using q(2) [OF d] \<open>scan mx (p @ q) (Code, d) \<noteq> None\<close> by (simp add: scan_append)
    next
      case 2
      then show ?thesis using q(2) [OF d] q(1) by (simp add: scan_append)
    qed
    then show "E mx d" "scan mx (p @ q) (Code, d) = Some (Code, d) \<or>
        r = [] \<and> scan mx (p @ q) (Code, d) = Some (Comment, d)" by blast+
  qed
qed

lemma reads_quiet: "s = p @ r \<Longrightarrow> quiet p \<Longrightarrow> reads s r (\<lambda>mx d. d \<le> mx)"
  by (auto simp: reads_def quiet_def)

lemma reads_eats: "eats s m \<Longrightarrow> m = POk v r \<Longrightarrow> reads s r (\<lambda>mx d. d \<le> mx) \<and> length r < length s"
  by (auto simp: eats_def intro: reads_quiet)

lemma reads_refl: "reads s s (\<lambda>mx d. d \<le> mx)"
  by (rule reads_quiet [of _ "[]"]) (simp_all add: quiet_def)

lemma scan_comment: "\<forall>c\<in>set p. \<not> is_eol c \<Longrightarrow> scan mx p (Comment, d) = Some (Comment, d)"
  by (induction p) (auto simp: lex_step_def)

lemma reads_skip: "reads s (skip s) (\<lambda>mx d. d \<le> mx)"
proof (induction s rule: skip.induct)
  case 1
  then show ?case by (simp add: reads_refl)
next
  case (2 c s)
  consider "is_ws c" | "\<not> is_ws c" "c = CHR '';''" | "\<not> is_ws c" "c \<noteq> CHR '';''" by blast
  then show ?case
  proof cases
    case 1
    have "reads (c # s) s (\<lambda>mx d. d \<le> mx)" by (rule reads_quiet [of _ "[c]"]) (simp_all add: 1 neutral_classes)
    from reads_trans [OF this 2(1) [OF 1]] show ?thesis using 1 by (simp add: reads_mono)
  next
    case c: 2
    let ?q = "takeWhile (\<lambda>c. \<not> is_eol c) s"
    have q: "\<forall>c\<in>set ?q. \<not> is_eol c" by (auto dest: set_takeWhileD)
    have semi: "scan mx (c # ?q @ t) (Code, d) = scan mx t (Comment, d)" for mx d t
      using c scan_comment [OF q] by (simp add: scan_append lex_step_def is_opener_def is_closer_def)
    have "reads (c # s) (after_comment s) (\<lambda>mx d. d \<le> mx)"
    proof (cases "dropWhile (\<lambda>c. \<not> is_eol c) s")
      case Nil
      have "after_comment s = []" unfolding after_comment_def Nil by simp
      moreover have "c # s = (c # ?q) @ []" using Nil by (metis append_Nil2 takeWhile_dropWhile_id)
      moreover have "scan mx (c # ?q) (Code, d) = Some (Comment, d)" for mx d
        using semi [of mx "[]" d] by simp
      ultimately show ?thesis unfolding reads_def by (intro exI [of _ "c # ?q"]) simp
    next
      case (Cons e t)
      then have s: "s = ?q @ e # t" and "is_eol e"
        by (metis takeWhile_dropWhile_id) (use Cons hd_dropWhile [of "\<lambda>c. \<not> is_eol c" s] in simp)
      have "after_comment s = t" unfolding after_comment_def Cons by simp
      moreover have "c # s = (c # ?q @ [e]) @ t" using s by simp
      moreover have "scan mx (c # ?q @ [e]) (Code, d) = Some (Code, d)" for mx d
        using semi [of mx "[e]" d] \<open>is_eol e\<close> by (simp add: lex_step_def)
      ultimately show ?thesis unfolding reads_def by (intro exI [of _ "c # ?q @ [e]"]) simp
    qed
    from reads_trans [OF this 2(2)] show ?thesis using c by (simp add: reads_mono)
  next
    case 3
    then show ?thesis by (simp add: reads_refl)
  qed
qed

lemma reads_bracket:
  assumes s: "s = w @ c # s1" "quiet w" "is_opener c" and "reads s1 t D" and t: "t = cl # r" "is_closer cl"
  shows "reads s r (\<lambda>mx d. Suc d \<le> mx \<and> D mx (Suc d))"
proof -
  obtain p where p: "s1 = p @ t" "\<And>mx d. d \<le> mx \<Longrightarrow> scan mx p (Code, d) \<noteq> None \<Longrightarrow>
      D mx d \<and> scan mx p (Code, d) = Some (Code, d)"
    using assms(4) t(1) by (auto simp: reads_def)
  have cl: "lex_step mx cl (Code, d) = Some (Code, d - 1)" for mx d
    using t(2) by (auto simp: lex_step_def is_opener_def is_closer_def)
  have op: "lex_step mx c (Code, d) = (if mx < Suc d then None else Some (Code, Suc d))" for mx d
    using s(3) by (simp add: lex_step_def)
  show ?thesis unfolding reads_def
  proof (intro exI [of _ "w @ c # p @ [cl]"] conjI allI impI)
    show "s = (w @ c # p @ [cl]) @ r" using s p t by simp
    fix mx d
    assume "scan mx (w @ c # p @ [cl]) (Code, d) \<noteq> None"
    then have n: "Suc d \<le> mx" "scan mx p (Code, Suc d) \<noteq> None"
      using s(2) op [of mx d] by (auto simp: scan_append quiet_def split: if_splits option.splits)
    then show "Suc d \<le> mx" "D mx (Suc d)" using p(2) by simp_all
    have "scan mx (w @ c # p @ [cl]) (Code, d) = Some (Code, d)"
      using n p(2) [OF n] s(2) op [of mx d] cl [of mx "Suc d"] by (simp add: scan_append quiet_def)
    then show "scan mx (w @ c # p @ [cl]) (Code, d) = Some (Code, d) \<or>
      r = [] \<and> scan mx (w @ c # p @ [cl]) (Code, d) = Some (Comment, d)" ..
  qed
qed

lemma lit_append [simp]: "lit w (w @ r) = Some r"
  by (simp add: lit_Some)

lemma bracketed_POk:
  "bracketed cl f body = POk v r \<longleftrightarrow> (\<exists>u t. body = POk u t \<and> skip t = cl @ r \<and> v = f u)"
  by (auto simp: bracketed_def lit_Some split: presult.splits option.splits)

lemma trailing_POk: "trailing m = POk v r \<longleftrightarrow> (\<exists>t. m = POk v t \<and> r = skip t)"
  by (auto simp: trailing_def split: presult.splits)

definition atomic_p :: "edn_value presult \<Rightarrow> bool" where
  "atomic_p m \<longleftrightarrow> (\<forall>v r. m = POk v r \<longrightarrow> vdepth v = 0)"

lemma atomic_p_or [intro]: "atomic_p a \<Longrightarrow> atomic_p b \<Longrightarrow> atomic_p (p_or a b)"
  by (auto simp: atomic_p_def p_or_POk)

lemma atomic_p_map: "(\<And>u. vdepth (f u) = 0) \<Longrightarrow> atomic_p (p_map f a)"
  by (auto simp: atomic_p_def p_map_POk)

lemma atomic_rules:
  "atomic_p (nil s)" "atomic_p (nan s)" "atomic_p (infinity s)" "atomic_p (boolean s)"
  by (auto simp: atomic_p_def nil_def nan_def infinity_def boolean_def
      split: option.splits list.splits if_splits)

lemma atomic_tagged: "atomic_p (inst x s)" "atomic_p (uuid x s)" "atomic_p (bytes x s)"
  by (auto simp: inst_def intro!: atomic_p_map)
    (auto simp: atomic_p_def uuid_def bytes_def p_map_POk split: option.splits)

lemma atomic_names: "atomic_p (symbol s)" "atomic_p (keyword_p s)"
  by (auto simp: atomic_p_def symbol_def keyword_p_def from_symbol_def from_keyword_def p_action_POk
      rbind_eq_Inr split: option.splits prod.splits)

lemma atoms_atom: "atoms x s = POk v r \<Longrightarrow> vdepth v = 0"
proof -
  have "atomic_p (atoms x s)" unfolding atoms_def number_def
    by (intro atomic_p_or atomic_rules atomic_tagged atomic_names atomic_p_map) simp_all
  then show "atoms x s = POk v r \<Longrightarrow> vdepth v = 0" by (simp add: atomic_p_def)
qed

text \<open>A bracketed rule reads its opener, what its body reads, and its closer.\<close>

lemma reads_bracketed:
  assumes "s = w @ c # t" "quiet w" "is_opener c" "is_closer cl"
    and "bracketed [cl] f body = POk v r"
    and body: "\<And>u t'. body = POk u t' \<Longrightarrow> reads (skip t) t' (D u)"
  shows "\<exists>u. v = f u \<and> reads s r (\<lambda>mx d. Suc d \<le> mx \<and> D u mx (Suc d)) \<and> length r < length s"
proof -
  obtain u t' where u: "body = POk u t'" "skip t' = cl # r" "v = f u"
    using assms(5) by (auto simp: bracketed_POk)
  have "reads t (skip t') (\<lambda>mx d. (d \<le> mx \<and> D u mx d) \<and> d \<le> mx)"
    by (rule reads_trans [OF reads_trans [OF reads_skip body [OF u(1)]] reads_skip])
  then have tl: "reads t (cl # r) (D u)" unfolding u(2) by (rule reads_mono) blast
  have "length r < length s" using reads_length [OF tl] assms(1) by simp
  then show ?thesis using reads_bracket [OF assms(1-3) tl refl assms(4)] u(3) by blast
qed

lemma set_of_bt_set_list: "set (bt_set_of_list c vs) \<subseteq> set vs"
proof (induction vs rule: rev_induct)
  case (snoc v vs)
  then show ?case using set_bt_set_insert [of c v "bt_set_of_list c vs"] by (auto simp: bt_set_of_list_def)
qed (simp add: bt_set_of_list_def)

lemma bt_of_list_entries: "e \<in> set (bt_of_list c m) \<Longrightarrow> fst e \<in> fst ` set m \<and> snd e \<in> snd ` set m"
proof (induction m arbitrary: e rule: rev_induct)
  case (snoc kv m)
  then have "e \<in> set (bt_insert c (fst kv) (snd kv) (bt_of_list c m))" by (simp add: bt_of_list_def)
  with set_bt_insert [of c "fst kv" "snd kv" "bt_of_list c m"] snoc.IH show ?case by fastforce
qed (simp add: bt_of_list_def)

lemma grammar_reads:
  fixes x :: "'x ext_scheme"
  shows "value_p x s = POk v r \<Longrightarrow> reads s r (\<lambda>mx d. d + vdepth v \<le> mx) \<and> length r < length s"
    and "values_p x s = POk vs r \<Longrightarrow> reads s r (\<lambda>mx d. \<forall>v\<in>set vs. d + vdepth v \<le> mx)"
    and "pairs_p x s = POk m r \<Longrightarrow>
      reads s r (\<lambda>mx d. \<forall>e\<in>set m. d + vdepth (fst e) \<le> mx \<and> d + vdepth (snd e) \<le> mx)"
proof (induction x s and x s and x s arbitrary: v r and vs r and m r
    rule: value_p_values_p_pairs_p.induct)
  case (1 x s0)
  let ?s = "skip s0"
  obtain t where t: "r = skip t" and
    alts: "p_or (atoms x ?s)
       (p_or (case lit ''('' ?s of None \<Rightarrow> PFail | Some r \<Rightarrow> bracketed '')'' VList (values_p x (skip r)))
       (p_or (case lit ''['' ?s of None \<Rightarrow> PFail | Some r \<Rightarrow> bracketed '']'' VVector (values_p x (skip r)))
       (p_or (case lit ''{'' ?s of None \<Rightarrow> PFail
              | Some r \<Rightarrow> bracketed ''}'' (\<lambda>m. VMap (bt_of_list value_cmp m)) (pairs_p x (skip r)))
             (case lit ''#{'' ?s of None \<Rightarrow> PFail
              | Some r \<Rightarrow> bracketed ''}'' (\<lambda>vs. VSet (bt_set_of_list value_cmp vs)) (values_p x (skip r)))))) = POk v t"
    using "1.prems" by (subst (asm) value_p.simps) (auto simp: Let_def trailing_POk)
  note IH = "1.IH" [OF refl]
  note br = reads_bracketed [where s = ?s and r = t and v = v]
  from alts consider (a) "atoms x ?s = POk v t"
    | (l) r where "?s = ''('' @ r" "bracketed '')'' VList (values_p x (skip r)) = POk v t"
    | (v) r where "?s = ''['' @ r" "bracketed '']'' VVector (values_p x (skip r)) = POk v t"
    | (m) r where "?s = ''{'' @ r"
        "bracketed ''}'' (\<lambda>m. VMap (bt_of_list value_cmp m)) (pairs_p x (skip r)) = POk v t"
    | (s) r where "?s = ''#{'' @ r"
        "bracketed ''}'' (\<lambda>vs. VSet (bt_set_of_list value_cmp vs)) (values_p x (skip r)) = POk v t"
    by (auto simp: p_or_POk lit_Some split: option.splits)
  then have "reads ?s t (\<lambda>mx d. d + vdepth v \<le> mx) \<and> length t < length ?s"
  proof cases
    case a
    then show ?thesis using reads_eats [OF eats_atoms a] atoms_atom [OF a] by simp
  next
    case (l r)
    have lit: "lit ''('' ?s = Some r" using l(1) by (simp add: lit_Some)
    have "\<exists>u. v = VList u \<and> reads ?s t (\<lambda>mx d. Suc d \<le> mx \<and> (\<forall>w\<in>set u. Suc d + vdepth w \<le> mx)) \<and> length t < length ?s"
      by (rule br [where w = "[]" and c = "CHR ''(''" and cl = "CHR '')''" and
            D = "\<lambda>u mx d. \<forall>w\<in>set u. d + vdepth w \<le> mx", OF _ _ _ _ l(2) IH(1) [OF lit]])
        (auto simp: quiet_def scan_defs l(1))
    then show ?thesis
      by (auto simp: vdepth_le simp del: vdepth.simps elim!: reads_mono)
  next
    case (v r)
    have lit: "lit ''['' ?s = Some r" using v(1) by (simp add: lit_Some)
    have "\<exists>u. v = VVector u \<and> reads ?s t (\<lambda>mx d. Suc d \<le> mx \<and> (\<forall>w\<in>set u. Suc d + vdepth w \<le> mx)) \<and> length t < length ?s"
      by (rule br [where w = "[]" and c = "CHR ''[''" and cl = "CHR '']''" and
            D = "\<lambda>u mx d. \<forall>w\<in>set u. d + vdepth w \<le> mx", OF _ _ _ _ v(2) IH(2) [OF lit]])
        (auto simp: quiet_def scan_defs v(1))
    then show ?thesis
      by (auto simp: vdepth_le simp del: vdepth.simps elim!: reads_mono)
  next
    case (m r)
    have lit: "lit ''{'' ?s = Some r" using m(1) by (simp add: lit_Some)
    have "\<exists>u. v = VMap (bt_of_list value_cmp u) \<and> reads ?s t (\<lambda>mx d. Suc d \<le> mx \<and> (\<forall>e\<in>set u. Suc d + vdepth (fst e) \<le> mx \<and> Suc d + vdepth (snd e) \<le> mx)) \<and> length t < length ?s"
      by (rule br [where w = "[]" and c = "CHR ''{''" and cl = "CHR ''}''" and
            D = "\<lambda>u mx d. \<forall>e\<in>set u. d + vdepth (fst e) \<le> mx \<and> d + vdepth (snd e) \<le> mx", OF _ _ _ _ m(2) IH(3) [OF lit]])
        (auto simp: quiet_def scan_defs m(1))
    then show ?thesis
      by (auto simp: vdepth_le simp del: vdepth.simps elim!: reads_mono dest!: bt_of_list_entries)
        fastforce+
  next
    case (s r)
    have lit: "lit ''#{'' ?s = Some r" using s(1) by (simp add: lit_Some)
    have "\<exists>u. v = VSet (bt_set_of_list value_cmp u) \<and> reads ?s t (\<lambda>mx d. Suc d \<le> mx \<and> (\<forall>w\<in>set u. Suc d + vdepth w \<le> mx)) \<and> length t < length ?s"
      by (rule br [where w = "''#''" and c = "CHR ''{''" and cl = "CHR ''}''" and
            D = "\<lambda>u mx d. \<forall>w\<in>set u. d + vdepth w \<le> mx", OF _ _ _ _ s(2) IH(4) [OF lit]])
        (auto simp: quiet_def scan_defs s(1))
    then show ?thesis
      by (auto simp: vdepth_le simp del: vdepth.simps elim!: reads_mono dest!: subsetD [OF set_of_bt_set_list])
  qed
  then have "reads s0 r (\<lambda>mx d. (d \<le> mx \<and> d + vdepth v \<le> mx) \<and> d \<le> mx)" "length r < length s0"
    using reads_trans [OF reads_trans [OF reads_skip] reads_skip] t length_skip [of s0] length_skip [of t]
    by (blast, simp)
  then show ?case by (blast intro: reads_mono)
next
  case (2 x s)
  show ?case
  proof (cases "value_p x s")
    case (POk v t)
    with "2.IH"(1) have v: "reads s t (\<lambda>mx d. d + vdepth v \<le> mx)" "length t < length s" by blast+
    then obtain ws where ws: "values_p x t = POk ws r" "vs = v # ws"
      using "2.prems" POk by (subst (asm) values_p.simps) (auto simp: p_map_POk)
    from reads_trans [OF v(1) "2.IH"(2) [OF POk v(2) ws(1)]] show ?thesis using ws(2) by simp
  qed (use "2.prems" in \<open>subst (asm) values_p.simps; auto intro: reads_mono [OF reads_refl]\<close>)+
next
  case (3 x s)
  have stop: "?case" if "m = []" "r = s" using that reads_mono [OF reads_refl] by simp
  show ?case
  proof (cases "value_p x s")
    case k: (POk k t)
    with "3.IH"(1) have kr: "reads s t (\<lambda>mx d. d + vdepth k \<le> mx)" "length t < length s" by blast+
    show ?thesis
    proof (cases "value_p x t")
      case v: (POk v t')
      with "3.IH"(2) [OF k kr(2)] have vr: "reads t t' (\<lambda>mx d. d + vdepth v \<le> mx)" "length t' < length s"
        using kr(2) by fastforce+
      then obtain n where n: "pairs_p x t' = POk n r" "m = (k, v) # n"
        using "3.prems" k kr(2) v by (subst (asm) pairs_p.simps) (auto simp: p_map_POk)
      from reads_trans [OF reads_trans [OF kr(1) vr(1)] "3.IH"(3) [OF k kr(2) v vr(2) n(1)]]
      show ?thesis using n(2) by simp
    qed (use "3.prems" k kr(2) stop in \<open>subst (asm) pairs_p.simps; auto\<close>)+
  qed (use "3.prems" stop in \<open>subst (asm) pairs_p.simps; auto\<close>)+
qed

section \<open>Well-formedness of what is read\<close>

definition wf_p :: "edn_value presult \<Rightarrow> bool" where
  "wf_p m \<longleftrightarrow> (\<forall>v r. m = POk v r \<longrightarrow> wf_value v)"

lemma wf_p_or: "wf_p a \<Longrightarrow> wf_p b \<Longrightarrow> wf_p (p_or a b)"
  by (auto simp: wf_p_def p_or_POk)

lemma wf_p_map: "(\<And>u. wf_value (f u)) \<Longrightarrow> wf_p (p_map f a)"
  by (auto simp: wf_p_def p_map_POk)

lemma wf_rules: "wf_p (nil s)" "wf_p (nan s)" "wf_p (infinity s)" "wf_p (boolean s)"
  by (auto simp: wf_p_def nil_def nan_def infinity_def boolean_def
      split: option.splits list.splits if_splits)

lemma wf_tagged: "wf_p (inst x s)" "wf_p (uuid x s)" "wf_p (bytes x s)"
  by (auto simp: inst_def intro!: wf_p_map)
    (auto simp: wf_p_def uuid_def bytes_def p_map_POk split: option.splits)

lemma nn_namespaced_wf: "nn_namespaced ns n = Inr y \<Longrightarrow> wf_name y \<and> boundary y > 0"
  by (auto simp: nn_namespaced_def wf_name_def nth_append split: if_splits)

lemma nn_plain_wf: "nn_plain n = Inr y \<Longrightarrow> wf_name y"
  by (auto simp: nn_plain_def wf_name_def split: if_splits)

lemma wf_names: "wf_p (symbol s)" "wf_p (keyword_p s)"
  by (auto simp: wf_p_def symbol_def keyword_p_def from_symbol_def from_keyword_def p_action_POk
      rbind_eq_Inr ns_namespaced_def kw_namespaced_def kw_plain_def nn_namespaced_wf nn_plain_wf
      split: option.splits prod.splits if_splits)

lemma wf_atoms: "wf_p (atoms x s)"
  unfolding atoms_def number_def
  by (intro wf_p_or wf_rules wf_tagged wf_names wf_p_map) simp_all

lemma wf_bracketed:
  "(\<And>u t. body = POk u t \<Longrightarrow> wf_value (f u)) \<Longrightarrow> wf_p (bracketed cl f body)"
  by (auto simp: wf_p_def bracketed_POk)

lemma wf_trailing: "wf_p m \<Longrightarrow> wf_p (trailing m)"
  by (auto simp: wf_p_def trailing_POk)

lemma wf_VSet: "\<forall>v\<in>set vs. wf_value v \<Longrightarrow> wf_value (VSet (bt_set_of_list value_cmp vs))"
  using set_of_bt_set_list [of value_cmp vs] value_ord.ascending_bt_set_of_list [of vs] by auto

lemma wf_VMap:
  "\<forall>e\<in>set m. wf_value (fst e) \<and> wf_value (snd e) \<Longrightarrow> wf_value (VMap (bt_of_list value_cmp m))"
  using value_ord.ascending_bt_of_list [of m] by (fastforce dest: bt_of_list_entries)

lemma grammar_wf:
  fixes x :: "'x ext_scheme"
  shows "wf_p (value_p x s)"
    and "values_p x s = POk vs r \<Longrightarrow> \<forall>v\<in>set vs. wf_value v"
    and "pairs_p x s = POk m r \<Longrightarrow> \<forall>e\<in>set m. wf_value (fst e) \<and> wf_value (snd e)"
proof (induction x s and x s and x s arbitrary: and vs r and m r
    rule: value_p_values_p_pairs_p.induct)
  case (1 x s0)
  note IH = "1.IH" [OF refl]
  show ?case unfolding value_p.simps [of x s0] Let_def
    by (intro wf_trailing wf_p_or wf_atoms; simp split: option.splits)
      (auto simp: wf_p_def [of PFail] intro!: wf_bracketed wf_VSet wf_VMap simp del: wf_value.simps(5,6)
        dest!: IH)
next
  case (2 x s)
  then show ?case
    by (cases "value_p x s"; subst (asm) (3) values_p.simps) (auto simp: p_map_POk wf_p_def split: if_splits)
next
  case (3 x s)
  then show ?case
    by (cases "value_p x s"; subst (asm) (4) pairs_p.simps)
      (auto simp: p_map_POk wf_p_def split: if_splits presult.splits, fastforce+)
qed

section \<open>Properties\<close>

text \<open>C23.  Whatever text the reader accepts, the value it returns nests at most 256 collections
  deep: the lexical check that runs before the grammar counts at least the nesting that the
  grammar builds, with strings, escapes and comments skipped exactly as the grammar skips
  them.  No text can therefore produce a value deep enough to exhaust the stack.\<close>

theorem parse_value_depth:
  assumes "parse_value x s = Inr v"
  shows "vdepth v \<le> MAX_NESTING"
proof -
  have ok: "is_ok (check_nesting s MAX_NESTING)" and v: "value_p x s = POk v []"
    using assms by (auto simp: parse_value_def split: sum.splits presult.splits if_splits)
  from ok have "scan MAX_NESTING s (Code, 0) \<noteq> None" by (simp add: check_nesting_scan)
  moreover have "reads s [] (\<lambda>mx d. d + vdepth v \<le> mx)" using grammar_reads(1) [OF v] ..
  ultimately have "0 + vdepth v \<le> MAX_NESTING" unfolding reads_def by fastforce
  then show ?thesis by simp
qed

theorem parse_value_depth_witness:
  "parse_value sample_ext ''[()]'' = Inr (VVector [VList []]) \<and> vdepth (VVector [VList []]) \<le> MAX_NESTING"
proof -
  have "parse_value sample_ext ''[()]'' = Inr (VVector [VList []])" by code_simp
  with parse_value_depth [OF this] show ?thesis by simp
qed

text \<open>C22.  Every value the reader returns is well-formed: its symbols and keywords satisfy the
  invariant of their names, its sets are strictly ascending and its maps have strictly
  ascending keys in the order of values, at every level of nesting.\<close>

theorem parse_value_wf:
  assumes "parse_value x s = Inr v"
  shows "wf_value v"
proof -
  have "value_p x s = POk v []"
    using assms by (auto simp: parse_value_def split: sum.splits presult.splits if_splits)
  then show ?thesis using grammar_wf(1) [of x s] by (simp add: wf_p_def)
qed

theorem parse_value_wf_witness:
  "parse_value sample_ext ''#{:a/b 3 3}'' =
     Inr (VSet [VInteger 3, VKeyword (Keyword \<lparr>components = ''a/b'', boundary = 1\<rparr>)]) \<and>
   wf_value (VSet [VInteger 3, VKeyword (Keyword \<lparr>components = ''a/b'', boundary = 1\<rparr>)])"
proof -
  have "parse_value sample_ext ''#{:a/b 3 3}'' =
     Inr (VSet [VInteger 3, VKeyword (Keyword \<lparr>components = ''a/b'', boundary = 1\<rparr>)])" by code_simp
  with parse_value_wf [OF this] show ?thesis by blast
qed

end
