(* ===== verification/Edn_Roundtrip.thy ===== *)
theory Edn_Roundtrip
  imports Edn_Reader
begin

text \<open>
  Reading back what the printers write: string literals of the pretty printer for every
  string, and the \<open>Display\<close> text of every value built from the atoms whose text does not depend
  on third-party formatting.
\<close>

section \<open>Reading what the printer writes\<close>

lemma text_body_escape: "text_body (escape_chars s @ CHR 0x22 # r) = Some (s, r)"
proof (induction s)
  case Nil
  then show ?case by (cases r) simp_all
next
  case (Cons c s)
  obtain d t where dt: "escape_chars s @ CHR 0x22 # r = d # t"
    by (cases "escape_chars s @ CHR 0x22 # r") auto
  show ?case using Cons dt by (auto simp: unescape_def)
qed

text \<open>What follows a printed value: the end of the text or a space.\<close>

definition delim :: "string \<Rightarrow> bool" where
  "delim r \<longleftrightarrow> r = [] \<or> hd r = CHR '' ''"

lemma delimE:
  assumes "delim r" obtains "r = []" | r' where "r = CHR '' '' # r'"
  using assms by (cases r) (auto simp: delim_def)

lemma lit_Cons: "lit (a # w) s = (case s of [] \<Rightarrow> None | c # t \<Rightarrow> if c = a then lit w t else None)"
  by (cases s) (auto simp: lit_def)

lemma lit_Nil [simp]: "lit [] s = Some s" by (simp add: lit_def)

lemma span1_append:
  assumes "m \<noteq> []" "\<forall>c\<in>set m. P c" "r = [] \<or> \<not> P (hd r)"
  shows "span1 P (m @ r) = Some (m, r)"
proof -
  have "takeWhile P (m @ r) = m @ takeWhile P r" "dropWhile P (m @ r) = dropWhile P r"
    using assms(2) by simp_all
  moreover have "takeWhile P r = []" "dropWhile P r = r" using assms(3) by (cases r; simp)+
  ultimately show ?thesis using assms(1) by (simp add: span1_def)
qed

lemma not_digit [simp]: "\<not> is_digit (CHR '' '')" "\<not> is_digit (CHR ''N'')" "\<not> is_digit (CHR ''-'')"
  "\<not> is_digit (CHR ''r'')" "\<not> is_digit (CHR ''x'')" "\<not> is_digit (CHR ''+'')"
  by (simp_all add: is_digit_def)

lemma digit_not_sign: "is_digit c \<Longrightarrow> \<not> is_sign c"
  by (auto simp: is_sign_def)

lemma signed_digits_show:
  assumes "r = [] \<or> \<not> is_digit (hd r)"
  shows "signed_digits (show_int i @ r) = Some (show_int i, r)"
proof -
  have s: "span1 is_digit (show_nat n @ r) = Some (show_nat n, r)" for n
    by (rule span1_append) (use assms show_nat_digits in auto)
  obtain c t where ct: "show_nat (nat i) = c # t" by (cases "show_nat (nat i)") auto
  then have "\<not> is_sign c" using show_nat_digits [of "nat i"] by (simp add: digit_not_sign)
  then show ?thesis using s [of "nat i"] s [of "nat (- i)"] ct
    by (auto simp: show_int_def signed_digits_def opt_sign_def is_sign_def)
qed

lemma read_int_show: "read_int (show_int i) = i"
proof -
  obtain c t where ct: "show_nat (nat i) = c # t" by (cases "show_nat (nat i)") auto
  then have "\<not> is_sign c" using show_nat_digits [of "nat i"] by (simp add: digit_not_sign)
  then show ?thesis using ct read_show_nat [of "nat i"]
    by (cases "i < 0") (auto simp: show_int_def read_int_def is_sign_def)
qed

lemma show_nat_zero: "hd (show_nat n) = CHR ''0'' \<Longrightarrow> n = 0"
proof (induction n rule: show_nat.induct)
  case (1 n)
  show ?case
  proof (cases "n < 10")
    case True
    then have "digit_val (char_of (48 + n)) = n" by simp
    moreover have "char_of (48 + n) = CHR ''0''" using 1(2) True by (subst (asm) show_nat.simps) simp
    ultimately show ?thesis by (simp add: digit_val_def)
  next
    case False
    then have "hd (show_nat n) = hd (show_nat (n div 10))" by (subst show_nat.simps) simp
    then show ?thesis using 1 False by simp
  qed
qed

lemma show_nat_0: "show_nat 0 = ''0''"
proof -
  have "(of_char (char_of (48::nat) :: char) :: nat) = of_char (CHR ''0'')"
    by (simp only: of_char_of) simp
  then have "char_of (48::nat) = CHR ''0''" by (simp only: of_char_eq_iff)
  then show ?thesis by (subst show_nat.simps) simp
qed

lemma digits_not_lit:
  assumes "\<forall>c\<in>set s. is_digit c" "\<not> is_digit a" "r = [] \<or> hd r \<noteq> a"
  shows "lit [a] (s @ r) = None"
  using assms by (cases s; cases r) (auto simp: lit_Cons)

lemma digits_append:
  assumes "\<forall>c\<in>set s. is_digit c" "s @ r = b @ t" "\<forall>c\<in>set b. is_digit c" "r = [] \<or> \<not> is_digit (hd r)"
  shows "\<exists>s'. s = b @ s' \<and> t = s' @ r"
  using assms
proof (induction b arbitrary: s)
  case (Cons c b)
  then show ?case by (cases s) auto
qed simp

lemma based_show: "delim r \<Longrightarrow> raw_basedinteger (show_int i @ r) = PFail"
proof (cases "validbase (show_int i @ r)")
  case (Some bt)
  assume r: "delim r"
  obtain b t where bt: "bt = (b, t)" by (cases bt)
  have b: "show_int i @ r = b @ t" "\<forall>c\<in>set b. is_digit c" "b \<noteq> []"
    using validbase_digits [of _ b t] Some bt by auto
  then have "\<forall>c\<in>set (show_int i). is_digit c"
    using show_nat_digits by (cases b) (auto simp: show_int_def)
  then obtain s' where "show_int i = b @ s'" "t = s' @ r"
    using digits_append [of "show_int i" r b t] b r by (auto simp: delim_def)
  then have "lit ''r'' t = None"
    using digits_not_lit [of s' "CHR ''r''" r] \<open>\<forall>c\<in>set (show_int i). is_digit c\<close> r
    by (auto simp: delim_def)
  then show ?thesis using Some bt by (simp add: raw_basedinteger_def)
qed (simp add: raw_basedinteger_def)

lemma octal_hex_show:
  assumes "delim r"
  shows "raw_hexinteger (show_int i @ r) = PFail" "raw_octalinteger (show_int i @ r) = PFail"
proof -
  have "show_int i = ''0''" if "show_int i @ r = CHR ''0'' # t" for t
  proof -
    have "\<not> i < 0" using that by (auto simp: show_int_def)
    moreover have "hd (show_nat (nat i)) = CHR ''0''"
      using that calculation by (cases "show_nat (nat i)") (auto simp: show_int_def)
    ultimately show ?thesis using show_nat_zero [of "nat i"] show_nat_0 by (simp add: show_int_def)
  qed
  then consider "show_int i = ''0''" | "\<nexists>t. show_int i @ r = CHR ''0'' # t" by blast
  then have "raw_hexinteger (show_int i @ r) = PFail \<and> raw_octalinteger (show_int i @ r) = PFail"
  proof cases
    case 1
    from assms show ?thesis
      by (rule delimE)
        (simp_all add: 1 raw_hexinteger_def raw_octalinteger_def lit_Cons span1_def octaldigit_def)
  next
    case 2
    then have "lit ''0x'' (show_int i @ r) = None" "lit ''0'' (show_int i @ r) = None"
      by (cases "show_int i @ r"; simp add: lit_Cons)+
    then show ?thesis by (simp add: raw_hexinteger_def raw_octalinteger_def)
  qed
  then show "raw_hexinteger (show_int i @ r) = PFail" "raw_octalinteger (show_int i @ r) = PFail" by auto
qed

text \<open>Which rules can match is decided by the first character.\<close>

lemma first_char:
  "c \<noteq> CHR ''n'' \<Longrightarrow> nil (c # s) = PFail"
  "c \<noteq> CHR ''#'' \<Longrightarrow> nan (c # s) = PFail" "c \<noteq> CHR ''#'' \<Longrightarrow> infinity (c # s) = PFail"
  "c \<noteq> CHR ''t'' \<Longrightarrow> c \<noteq> CHR ''f'' \<Longrightarrow> boolean (c # s) = PFail"
  "c \<noteq> CHR ''#'' \<Longrightarrow> inst x (c # s) = PFail" "c \<noteq> CHR ''#'' \<Longrightarrow> uuid x (c # s) = PFail"
  "c \<noteq> CHR ''#'' \<Longrightarrow> bytes x (c # s) = PFail" "c \<noteq> CHR 0x22 \<Longrightarrow> raw_text (c # s) = PFail"
  "c \<noteq> CHR '':'' \<Longrightarrow> keyword_p (c # s) = PFail"
  by (simp_all add: nil_def nan_def infinity_def boolean_def hash_f_def inst_def inst_millis_def
      inst_micros_def inst_string_def uuid_def bytes_def raw_text_def keyword_p_def lit_Cons
      p_or_def p_map_def)

lemma number_first: "\<not> is_digit c \<Longrightarrow> \<not> is_sign c \<Longrightarrow> number x (c # s) = PFail"
proof -
  assume c: "\<not> is_digit c" "\<not> is_sign c"
  then have sd: "signed_digits (c # s) = None" by (simp add: signed_digits_def opt_sign_def span1_def)
  have "validbase (c # s) = None"
    using c(1) validbase_digits [of "c # s"] by (cases "validbase (c # s)") (fastforce simp: Cons_eq_append_conv)+
  moreover have "c \<noteq> CHR ''0''" using c(1) by (auto simp: is_digit_def)
  ultimately show ?thesis using sd
    by (simp add: number_def raw_bigint_def raw_basedinteger_def raw_hexinteger_def raw_octalinteger_def
        raw_integer_def raw_float_def lit_Cons p_or_def p_map_def)
qed

lemma symbol_first: "\<not> symbol_char_initial c \<Longrightarrow> c \<noteq> CHR ''.'' \<Longrightarrow> symbol (c # s) = PFail"
  by (simp add: symbol_def opt_namespace_def symbol_namespace_def plain_symbol_name_def symbol_name_def
      span1_def lit_Cons)

lemma number_show:
  assumes "delim r"
  shows "i64_ok i \<Longrightarrow> number x (show_int i @ r) = POk (VInteger i) r"
    and "number x (show_int i @ CHR ''N'' # r) = POk (VBigInteger i) r"
proof -
  have d: "r = [] \<or> \<not> is_digit (hd r)" using assms by (auto simp: delim_def)
  have "lit ''N'' r = None" using assms by (rule delimE) (simp_all add: lit_Cons)
  then have "raw_bigint (show_int i @ r) = PFail"
    using signed_digits_show [OF d] by (simp add: raw_bigint_def)
  moreover have "raw_integer (show_int i @ r) = POk i r" if "i64_ok i"
    using assms that signed_digits_show [OF d] read_int_show [of i]
    by (auto simp: raw_integer_def parse_i64_def p_action_def delim_def split: list.splits)
  ultimately show "i64_ok i \<Longrightarrow> number x (show_int i @ r) = POk (VInteger i) r"
    using based_show [OF assms] octal_hex_show [OF assms] by (simp add: number_def p_or_def p_map_def)
  have "raw_bigint (show_int i @ CHR ''N'' # r) = POk i r"
    using signed_digits_show [of "CHR ''N'' # r" i] read_int_show [of i]
    by (simp add: raw_bigint_def lit_Cons)
  then show "number x (show_int i @ CHR ''N'' # r) = POk (VBigInteger i) r"
    by (simp add: number_def p_or_def p_map_def)
qed

lemma show_int_first: "\<exists>c t. show_int i = c # t \<and> (is_sign c \<or> is_digit c)"
proof -
  obtain c t where "show_nat (nat i) = c # t" by (cases "show_nat (nat i)") auto
  then show ?thesis using show_nat_digits [of "nat i"] by (auto simp: show_int_def is_sign_def)
qed

lemma number_char:
  assumes "is_sign c \<or> is_digit c"
  shows "c \<noteq> CHR ''n''" "c \<noteq> CHR ''t''" "c \<noteq> CHR ''f''" "c \<noteq> CHR ''#''" "c \<noteq> CHR 0x22"
    "c \<noteq> CHR '';''" "\<not> is_ws c"
  using assms by (auto simp: is_sign_def is_digit_def is_ws_def)

lemma atoms_number: "number x (c # s) = POk v r \<Longrightarrow> is_sign c \<or> is_digit c \<Longrightarrow> atoms x (c # s) = POk v r"
  by (simp add: atoms_def first_char number_char p_or_def)

definition lex_ns :: "string \<Rightarrow> bool" where
  "lex_ns ns \<longleftrightarrow> symbol_namespace (ns @ ''/'') = Some (ns, ''/'')"

definition lex_name :: "string \<Rightarrow> bool" where
  "lex_name n \<longleftrightarrow> symbol_name n = Some (n, [])"

lemma initial_subsequent: "symbol_char_initial c \<Longrightarrow> symbol_char_subsequent c"
  by (auto simp: symbol_char_initial_def symbol_char_subsequent_def)

lemma lex_name_chars:
  assumes "lex_name n"
  shows "n \<noteq> []" "symbol_char_initial (hd n)" "\<forall>c\<in>set n. symbol_char_subsequent c"
proof -
  let ?i = "takeWhile symbol_char_initial n" and ?d = "dropWhile symbol_char_initial n"
  have n: "?i \<noteq> []" "n = ?i @ takeWhile symbol_char_subsequent ?d"
    using assms by (auto simp: lex_name_def symbol_name_def span1_def split: if_splits)
  then show "n \<noteq> []" by auto
  show "symbol_char_initial (hd n)" using n(1) by (cases n) (auto split: if_splits)
  have "\<forall>c\<in>set (?i @ takeWhile symbol_char_subsequent ?d). symbol_char_subsequent c"
    by (auto dest!: set_takeWhileD intro: initial_subsequent)
  then show "\<forall>c\<in>set n. symbol_char_subsequent c" using n(2) by simp
qed

lemma not_subsequent [simp]:
  "\<not> symbol_char_subsequent (CHR '' '')" "\<not> symbol_char_subsequent (CHR ''/'')"
  "\<not> symbol_char_subsequent (CHR ''.'')" "\<not> symbol_char_initial (CHR '' '')"
  "\<not> symbol_char_initial (CHR '':'')"
  by (simp_all add: symbol_char_subsequent_def symbol_char_initial_def alphanumeric_def is_digit_def
      is_lower_def is_upper_def)

lemma symbol_name_append:
  assumes "lex_name n" "delim r"
  shows "symbol_name (n @ r) = Some (n, r)"
proof -
  let ?i = "takeWhile symbol_char_initial n" and ?d = "dropWhile symbol_char_initial n"
  have n: "?i \<noteq> []" "takeWhile symbol_char_subsequent ?d = ?d"
    using assms(1) unfolding lex_name_def symbol_name_def span1_def
    by (auto split: if_splits)
  have r: "takeWhile P r = []" "dropWhile P r = r" if "\<not> P (CHR '' '')" for P
    using assms(2) that by (rule_tac [!] delimE [of r]) simp_all
  show ?thesis
  proof (cases "?d = []")
    case True
    then have "takeWhile symbol_char_initial (n @ r) = n" "dropWhile symbol_char_initial (n @ r) = r"
      using r [of symbol_char_initial] by (auto simp: takeWhile_append dropWhile_append)
    then show ?thesis using n(1) r [of symbol_char_subsequent]
      by (auto simp: symbol_name_def span1_def)
  next
    case False
    then have i: "takeWhile symbol_char_initial (n @ r) = ?i" "dropWhile symbol_char_initial (n @ r) = ?d @ r"
      by (auto simp: takeWhile_append dropWhile_append)
    have "\<forall>c\<in>set ?d. symbol_char_subsequent c" using n(2) by (metis set_takeWhileD)
    then have "takeWhile symbol_char_subsequent (?d @ r) = ?d" "dropWhile symbol_char_subsequent (?d @ r) = r"
      using r [of symbol_char_subsequent] by simp_all
    then show ?thesis using i n(1) by (simp add: symbol_name_def span1_def)
  qed
qed

lemma subsequent_slash:
  "takeWhile symbol_char_subsequent (u @ CHR ''/'' # t) = takeWhile symbol_char_subsequent u"
  "dropWhile symbol_char_subsequent (u @ CHR ''/'' # t) = dropWhile symbol_char_subsequent u @ CHR ''/'' # t"
  by (induction u) auto

lemma namespace_parts_slash:
  "namespace_parts (u @ CHR ''/'' # t) =
     (fst (namespace_parts (u @ ''/'')), butlast (snd (namespace_parts (u @ ''/''))) @ CHR ''/'' # t)"
  "snd (namespace_parts (u @ ''/'')) \<noteq> []"
proof (induction "length u" arbitrary: u rule: less_induct)
  case less
  let ?tw = "takeWhile symbol_char_subsequent" and ?dw = "dropWhile symbol_char_subsequent"
  have "namespace_parts (u @ CHR ''/'' # t) =
      (fst (namespace_parts (u @ ''/'')), butlast (snd (namespace_parts (u @ ''/''))) @ CHR ''/'' # t)
    \<and> snd (namespace_parts (u @ ''/'')) \<noteq> []"
  proof (cases "\<exists>v. u = CHR ''.'' # v \<and> ?tw v \<noteq> []")
    case False
    then have "namespace_parts (u @ CHR ''/'' # w) = ([], u @ CHR ''/'' # w)" for w
      by (cases u) (auto simp: namespace_parts.simps [of "_ # _"] lit_Cons span1_def subsequent_slash
          split: if_splits)
    from this [of "[]"] this [of t] show ?thesis by simp
  next
    case True
    then obtain v where u: "u = CHR ''.'' # v" "?tw v \<noteq> []" by blast
    have len: "length (?dw v) < length u" using length_dropWhile_le [of symbol_char_subsequent v] u by simp
    have "namespace_parts (u @ CHR ''/'' # w) = (''.'' @ ?tw v @ fst (namespace_parts (?dw v @ CHR ''/'' # w)),
        snd (namespace_parts (?dw v @ CHR ''/'' # w)))" for w
      using u len by (subst namespace_parts.simps)
        (auto simp: lit_Cons span1_def subsequent_slash split: prod.splits)
    from this [of "[]"] this [of t] show ?thesis using less [OF len] by simp
  qed
  then show "namespace_parts (u @ CHR ''/'' # t) =
      (fst (namespace_parts (u @ ''/'')), butlast (snd (namespace_parts (u @ ''/''))) @ CHR ''/'' # t)"
    "snd (namespace_parts (u @ ''/'')) \<noteq> []" by blast+
qed

lemma symbol_namespace_slash:
  assumes "lex_ns ns"
  shows "symbol_namespace (ns @ CHR ''/'' # t) = Some (ns, CHR ''/'' # t)"
proof (cases ns)
  case Nil
  then show ?thesis using assms
    by (simp add: lex_ns_def symbol_namespace_def symbol_char_initial_def alphanumeric_def is_digit_def
        is_lower_def is_upper_def)
next
  case (Cons c u)
  let ?d = "dropWhile symbol_char_subsequent u"
  obtain m r where mr: "namespace_parts (?d @ ''/'') = (m, r)" by (cases "namespace_parts (?d @ ''/'')")
  then have "symbol_char_initial c" "takeWhile symbol_char_subsequent u @ m = u" "r = ''/''"
    using assms Cons by (auto simp: lex_ns_def symbol_namespace_def subsequent_slash split: if_splits)
  then show ?thesis using namespace_parts_slash(1) [of ?d t] mr Cons
    by (simp add: symbol_namespace_def subsequent_slash)
qed

lemma lex_ns_not_Nil: "lex_ns ns \<Longrightarrow> ns \<noteq> []"
  by (auto simp: lex_ns_def symbol_namespace_def split: list.splits if_splits prod.splits)

lemma opt_namespace_slash: "lex_ns ns \<Longrightarrow> opt_namespace (ns @ CHR ''/'' # t) = (Some ns, t)"
  by (simp add: opt_namespace_def symbol_namespace_slash lit_Cons)

lemma delim_takeWhile: "delim r \<Longrightarrow> \<not> P (CHR '' '') \<Longrightarrow> takeWhile P r = [] \<and> dropWhile P r = r"
  by (erule delimE) simp_all

lemma opt_namespace_plain:
  assumes "lex_name n" "delim r"
  shows "opt_namespace (n @ r) = (None, n @ r)"
proof -
  obtain c m where n: "n = c # m" using lex_name_chars(1) [OF assms(1)] by (cases n) auto
  have "takeWhile symbol_char_subsequent (m @ r) = m" "dropWhile symbol_char_subsequent (m @ r) = r"
    using lex_name_chars(3) [OF assms(1)] n delim_takeWhile [OF assms(2), of symbol_char_subsequent]
    by simp_all
  moreover have "namespace_parts r = ([], r)" "lit ''/'' r = None"
    using assms(2) by (rule_tac [!] delimE [of r]) (simp_all add: namespace_parts.simps lit_Cons)
  ultimately show ?thesis using n lex_name_chars(2) [OF assms(1)]
    by (simp add: opt_namespace_def symbol_namespace_def)
qed

section \<open>Printable values\<close>

text \<open>Names that the grammar reads as one lexeme; a symbol must moreover not begin like a
  number, \<open>nil\<close> or a boolean, whose rules come first.\<close>

definition lexical :: "namespaceable_name \<Rightarrow> bool" where
  "lexical n \<longleftrightarrow> lex_name (nn_name n) \<and> (case nn_namespace n of None \<Rightarrow> True | Some ns \<Rightarrow> lex_ns ns)"

definition symbol_start :: "string \<Rightarrow> bool" where
  "symbol_start s \<longleftrightarrow> s \<noteq> [] \<and> \<not> is_digit (hd s) \<and>
     lit ''nil'' s = None \<and> lit ''true'' s = None \<and> lit ''false'' s = None"

fun printable :: "edn_value \<Rightarrow> bool" where
  "printable VNil = True"
| "printable (VBoolean _) = True"
| "printable (VInteger i) = i64_ok i"
| "printable (VBigInteger _) = True"
| "printable (VFloat f) = (case f of Finite _ \<Rightarrow> False | _ \<Rightarrow> True)"
| "printable (VText s) = (\<forall>c\<in>set s. c \<noteq> CHR 0x22 \<and> c \<noteq> CHR 0x5C)"
| "printable (VPlainSymbol p) = (lex_name (ps_display p) \<and> symbol_start (ps_display p @ '' ''))"
| "printable (VNamespacedSymbol (NamespacedSymbol n)) = (lexical n \<and> symbol_start (nn_display n @ '' ''))"
| "printable (VKeyword (Keyword n)) = lexical n"
| "printable (VVector vs) = (\<forall>v\<in>set vs. printable v)"
| "printable (VList vs) = (\<forall>v\<in>set vs. printable v)"
| "printable (VSet vs) = (\<forall>v\<in>set vs. printable v)"
| "printable (VMap m) = (\<forall>e\<in>set m. printable (fst e) \<and> printable (snd e))"
| "printable _ = False"

lemma nn_display_parts:
  "wf_name n \<Longrightarrow> nn_display n = (case nn_namespace n of None \<Rightarrow> nn_name n | Some ns \<Rightarrow> ns @ ''/'' @ nn_name n)"
  using id_take_nth_drop [of "boundary n" "components n", symmetric]
  by (auto simp: nn_display_def wf_name_def nn_namespace_def nn_name_def split: if_splits)

lemma keyword_p_back:
  assumes "wf_name n" "lexical n" "delim r"
  shows "keyword_p (kw_display (Keyword n) @ r) = POk (VKeyword (Keyword n)) r"
proof -
  have new: "nn_new (nn_namespace n) (nn_name n) = Inr n" by (rule nn_parts_new [OF assms(1)])
  have "symbol_name (nn_name n @ r) = Some (nn_name n, r)"
    using assms(2,3) by (intro symbol_name_append) (auto simp: lexical_def)
  moreover have "opt_namespace (nn_display n @ r) = (nn_namespace n, nn_name n @ r)"
    using assms nn_display_parts [OF assms(1)]
    by (auto simp: lexical_def opt_namespace_plain opt_namespace_slash split: option.splits)
  moreover have "from_keyword (nn_namespace n) (nn_name n) = Inr (VKeyword (Keyword n))"
    using new wf_name_parts [OF assms(1)]
    by (auto simp: from_keyword_def nn_new_def kw_namespaced_def kw_plain_def split: option.splits)
  ultimately show ?thesis by (simp add: keyword_p_def lit_Cons p_action_def)
qed

lemma symbol_back:
  assumes "wf_namespaced_symbol (NamespacedSymbol n)" "lexical n" "delim r"
  shows "symbol (nn_display n @ r) = POk (VNamespacedSymbol (NamespacedSymbol n)) r"
proof -
  have n: "wf_name n" "nn_namespace n \<noteq> None" using assms(1) by (auto simp: nn_namespace_def)
  have new: "nn_new (nn_namespace n) (nn_name n) = Inr n" by (rule nn_parts_new [OF n(1)])
  have "symbol_name (nn_name n @ r) = Some (nn_name n, r)"
    using assms(2,3) by (intro symbol_name_append) (auto simp: lexical_def)
  moreover have "opt_namespace (nn_display n @ r) = (nn_namespace n, nn_name n @ r)"
    using assms n nn_display_parts [OF n(1)] by (auto simp: lexical_def opt_namespace_slash)
  moreover have "from_symbol (nn_namespace n) (nn_name n) = Inr (VNamespacedSymbol (NamespacedSymbol n))"
    using new n wf_name_parts [OF n(1)] by (auto simp: from_symbol_def nn_new_def ns_namespaced_def)
  ultimately show ?thesis by (simp add: symbol_def plain_symbol_name_def p_action_def)
qed

lemma plain_symbol_back:
  assumes "lex_name s" "delim r"
  shows "symbol (s @ r) = POk (VPlainSymbol (PlainSymbol s)) r"
  using opt_namespace_plain [OF assms] symbol_name_append [OF assms] lex_name_chars(1) [OF assms(1)]
  by (simp add: symbol_def plain_symbol_name_def from_symbol_def ps_plain_def p_action_def)

lemma initial_char:
  assumes "symbol_char_initial c"
  shows "c \<noteq> CHR ''#''" "c \<noteq> CHR 0x22" "c \<noteq> CHR '':''" "\<not> is_sign c" "\<not> is_ws c" "c \<noteq> CHR '';''"
  using assms by (auto simp: symbol_char_initial_def alphanumeric_def is_digit_def is_lower_def
      is_upper_def is_sign_def is_ws_def)

lemma lit_prefix_None:
  "lit w (s @ [a]) = None \<Longrightarrow> a \<notin> set w \<Longrightarrow> r = [] \<or> hd r = a \<Longrightarrow> lit w (s @ r) = None"
proof (induction w arbitrary: s)
  case (Cons b w)
  then show ?case by (cases s; cases r) (auto simp: lit_Cons split: if_splits)
qed simp

lemma atoms_symbol:
  assumes "symbol (s @ r) = POk v r" "symbol_start (s @ '' '')" "delim r" "s \<noteq> []" "symbol_char_initial (hd s)"
  shows "atoms x (s @ r) = POk v r"
proof -
  obtain c t where s: "s = c # t" using assms(4) by (cases s) auto
  have "lit w (s @ r) = None" if "w \<in> {''nil'', ''true'', ''false''}" for w
    by (rule lit_prefix_None [of _ _ "CHR '' ''"])
      (use that assms(2,3) in \<open>auto simp: symbol_start_def delim_def\<close>)
  then have "nil (s @ r) = PFail" "boolean (s @ r) = PFail" by (simp_all add: nil_def boolean_def)
  moreover have "\<not> is_digit c" using assms(2) s by (simp add: symbol_start_def)
  ultimately show ?thesis using assms(1,5) s initial_char [of c]
    by (simp add: atoms_def first_char number_first p_or_def p_map_def)
qed

lemma lexical_first:
  assumes "wf_name n" "lexical n"
  shows "nn_display n \<noteq> []" "symbol_char_initial (hd (nn_display n))"
proof -
  have "symbol_char_initial (hd ns)" if "lex_ns ns" for ns
    using that by (cases ns) (auto simp: lex_ns_def symbol_namespace_def symbol_char_initial_def
        alphanumeric_def is_digit_def is_lower_def is_upper_def split: if_splits)
  then show "nn_display n \<noteq> []" "symbol_char_initial (hd (nn_display n))"
    using nn_display_parts [OF assms(1)] assms(2) lex_name_chars(1,2) [of "nn_name n"]
    by (auto simp: lexical_def hd_append dest: lex_ns_not_Nil split: option.splits)
qed

text \<open>\<open>starts s\<close>: the text does not begin with white space or a comment.\<close>

definition starts :: "string \<Rightarrow> bool" where
  "starts s \<longleftrightarrow> s \<noteq> [] \<and> \<not> is_ws (hd s) \<and> hd s \<noteq> CHR '';''"

lemma skip_starts: "starts s \<Longrightarrow> skip (s @ r) = s @ r"
  by (cases s) (simp_all add: starts_def)

definition reads_back :: "'x ext_scheme \<Rightarrow> edn_value \<Rightarrow> bool" where
  "reads_back x v \<longleftrightarrow> starts (display_value x v) \<and>
     (\<forall>r. delim r \<longrightarrow> value_p x (display_value x v @ r) = POk v (skip r))"

lemma reads_back_atom:
  assumes "starts (display_value x v)" "\<And>r. delim r \<Longrightarrow> atoms x (display_value x v @ r) = POk v r"
  shows "reads_back x v"
  using assms by (auto simp: reads_back_def value_p.simps Let_def skip_starts p_or_def trailing_def)

lemma text_body_plain:
  "\<forall>c\<in>set s. c \<noteq> CHR 0x22 \<and> c \<noteq> CHR 0x5C \<Longrightarrow> text_body (s @ CHR 0x22 # r) = Some (s, r)"
proof (induction s)
  case Nil
  then show ?case by (cases r) simp_all
next
  case (Cons c s)
  obtain d t where dt: "s @ CHR 0x22 # r = d # t" by (cases "s @ CHR 0x22 # r") auto
  then show ?case using Cons by simp
qed

lemma reads_back_atoms:
  assumes "printable v" "wf_value v" "vdepth v = 0"
  shows "reads_back x v"
proof (cases v)
  case (VInteger i)
  obtain c t where c: "show_int i = c # t" "is_sign c \<or> is_digit c" using show_int_first by blast
  show ?thesis
  proof (rule reads_back_atom)
    show "starts (display_value x v)" using VInteger c number_char [OF c(2)] by (simp add: starts_def)
    show "atoms x (display_value x v @ r) = POk v r" if "delim r" for r
      using VInteger assms(1) c number_show(1) [OF that, of i x] by (simp add: atoms_number)
  qed
next
  case (VBigInteger i)
  obtain c t where c: "show_int i = c # t" "is_sign c \<or> is_digit c" using show_int_first by blast
  show ?thesis
  proof (rule reads_back_atom)
    show "starts (display_value x v)" using VBigInteger c number_char [OF c(2)] by (simp add: starts_def)
    show "atoms x (display_value x v @ r) = POk v r" if "delim r" for r
      using VBigInteger c number_show(2) [OF that, of x i] by (simp add: atoms_number)
  qed
next
  case (VText s)
  show ?thesis
    by (rule reads_back_atom) (use VText assms text_body_plain [of s] in
        \<open>simp_all add: starts_def is_ws_def atoms_def first_char number_first p_or_def p_map_def raw_text_def
          is_digit_def is_sign_def\<close>)
next
  case (VKeyword k)
  obtain n where k: "k = Keyword n" by (cases k)
  show ?thesis
    by (rule reads_back_atom) (use VKeyword k assms keyword_p_back [of n] in
        \<open>simp_all add: starts_def is_ws_def atoms_def first_char number_first p_or_def p_map_def
          is_digit_def is_sign_def\<close>)
next
  case (VNamespacedSymbol m)
  obtain n where m: "m = NamespacedSymbol n" by (cases m)
  have f: "nn_display n \<noteq> []" "symbol_char_initial (hd (nn_display n))"
    using lexical_first [of n] VNamespacedSymbol m assms by auto
  show ?thesis
    by (rule reads_back_atom) (use f VNamespacedSymbol m assms initial_char symbol_back [of n] in
        \<open>auto simp: starts_def intro!: atoms_symbol\<close>)
next
  case (VPlainSymbol p)
  obtain s where p: "p = PlainSymbol s" by (cases p)
  show ?thesis
    by (rule reads_back_atom) (use VPlainSymbol p assms initial_char plain_symbol_back [of s]
        lex_name_chars(1,2) [of s] in \<open>auto simp: starts_def intro!: atoms_symbol\<close>)
qed (use assms in \<open>auto intro!: reads_back_atom simp: starts_def is_ws_def atoms_def first_char nil_def
      boolean_def nan_def infinity_def hash_f_def span1_def is_sign_def lit_Cons number_first is_digit_def
      p_or_def split: f64.splits\<close>)

section \<open>Collections\<close>

definition vals_text :: "'x ext_scheme \<Rightarrow> edn_value list \<Rightarrow> string" where
  "vals_text x vs = concat (map (\<lambda>v. '' '' @ display_value x v) vs)"

definition pairs_text :: "'x ext_scheme \<Rightarrow> (edn_value \<times> edn_value) list \<Rightarrow> string" where
  "pairs_text x m =
     concat (map (\<lambda>(k, v). '' '' @ display_value x k @ '' '' @ display_value x v) m)"

lemma display_texts:
  "display_value x (VVector vs) = ''['' @ vals_text x vs @ '' ]''"
  "display_value x (VList vs) = ''('' @ vals_text x vs @ '' )''"
  "display_value x (VSet vs) = ''#{'' @ vals_text x vs @ '' }''"
  "display_value x (VMap m) = ''{'' @ pairs_text x m @ '' }''"
  by (simp_all add: vals_text_def pairs_text_def)

lemma texts_Cons [simp]:
  "vals_text x [] = []" "vals_text x (v # vs) = CHR '' '' # display_value x v @ vals_text x vs"
  "pairs_text x [] = []"
  "pairs_text x ((k, v) # m) = CHR '' '' # display_value x k @ CHR '' '' # display_value x v @ pairs_text x m"
  by (simp_all add: vals_text_def pairs_text_def)

lemma delim_texts [simp]: "delim (vals_text x vs @ CHR '' '' # r)" "delim (pairs_text x m @ CHR '' '' # r)"
  "delim (CHR '' '' # r)"
proof -
  show "delim (vals_text x vs @ CHR '' '' # r)" by (cases vs) (simp_all add: delim_def)
  show "delim (pairs_text x m @ CHR '' '' # r)" by (cases m) (auto simp: delim_def)
qed (simp add: delim_def)

definition closing :: "char \<Rightarrow> bool" where
  "closing c \<longleftrightarrow> c \<in> set '')]}''"

lemma closing_simps:
  assumes "closing c"
  shows "skip (c # r) = c # r" "value_p x (c # r) = PFail" "is_ws (CHR '' '')"
proof -
  show sk: "skip (c # r) = c # r" using assms by (auto simp: closing_def is_ws_def)
  have "atoms x (c # r) = PFail" "c \<noteq> CHR ''(''" "c \<noteq> CHR ''[''" "c \<noteq> CHR ''{''" "c \<noteq> CHR ''#''"
    using assms by (auto simp: closing_def atoms_def first_char number_first symbol_first p_or_def p_map_def
        is_digit_def is_sign_def symbol_char_initial_def alphanumeric_def is_lower_def is_upper_def)
  then show "value_p x (c # r) = PFail" unfolding value_p.simps [of x "c # r"] sk
    by (simp add: Let_def lit_Cons p_or_def trailing_def)
  show "is_ws (CHR '' '')" by (simp add: is_ws_def)
qed

lemma reads_backD:
  assumes "reads_back x v" "delim r"
  shows "value_p x (display_value x v @ r) = POk v (skip r)"
    "length (skip r) < length (display_value x v @ r)" "skip (CHR '' '' # display_value x v @ r) = display_value x v @ r"
proof -
  show "value_p x (display_value x v @ r) = POk v (skip r)" using assms by (simp add: reads_back_def)
  have st: "starts (display_value x v)" using assms(1) by (simp add: reads_back_def)
  then show "length (skip r) < length (display_value x v @ r)"
    using length_skip [of r] by (cases "display_value x v") (simp_all add: starts_def)
  show "skip (CHR '' '' # display_value x v @ r) = display_value x v @ r"
    using skip_starts [OF st] by (simp add: is_ws_def)
qed

lemma values_back:
  assumes "\<forall>v\<in>set vs. reads_back x v" "closing c"
  shows "values_p x (skip (vals_text x vs @ CHR '' '' # c # r)) = POk vs (c # r)"
  using assms(1)
proof (induction vs)
  case Nil
  have "skip (CHR '' '' # c # r) = c # r" using closing_simps(1,3) [OF assms(2)] by simp
  then show ?case by (simp add: values_p.simps [of x "c # r"] closing_simps(2) [OF assms(2)] del: skip.simps)
next
  case (Cons v vs)
  let ?r = "vals_text x vs @ CHR '' '' # c # r"
  have v: "reads_back x v" and IH: "values_p x (skip ?r) = POk vs (c # r)" using Cons by simp_all
  have "values_p x (display_value x v @ ?r) = POk (v # vs) (c # r)"
    using reads_backD(1,2) [OF v, of ?r] IH by (subst values_p.simps) (simp add: p_map_def)
  then show ?case using reads_backD(3) [OF v, of ?r] by simp
qed

lemma pairs_back:
  assumes "\<forall>e\<in>set m. reads_back x (fst e) \<and> reads_back x (snd e)" "closing c"
  shows "pairs_p x (skip (pairs_text x m @ CHR '' '' # c # r)) = POk m (c # r)"
  using assms(1)
proof (induction m)
  case Nil
  have "skip (CHR '' '' # c # r) = c # r" using closing_simps(1,3) [OF assms(2)] by simp
  then show ?case by (simp add: pairs_p.simps [of x "c # r"] closing_simps(2) [OF assms(2)] del: skip.simps)
next
  case (Cons e m)
  obtain k v where e: "e = (k, v)" by (cases e)
  let ?r = "pairs_text x m @ CHR '' '' # c # r"
  let ?vr = "display_value x v @ ?r"
  have k: "reads_back x k" and v: "reads_back x v" and IH: "pairs_p x (skip ?r) = POk m (c # r)"
    using Cons e by simp_all
  have "length (skip ?r) < length (display_value x k @ CHR '' '' # ?vr)"
    using reads_backD(2) [OF v, of ?r] by simp
  then have "pairs_p x (display_value x k @ CHR '' '' # ?vr) = POk ((k, v) # m) (c # r)"
    using reads_backD(1,2) [OF k, of "CHR '' '' # ?vr"] reads_backD(1,3) [OF v, of ?r] IH
    by (subst pairs_p.simps) (simp add: p_map_def)
  then show ?case using reads_backD(3) [OF k, of "CHR '' '' # ?vr"] e by simp
qed

lemma open_chars:
  "starts ''[''" "starts ''(''" "starts ''{''" "starts ''#{''"
  "atoms x (CHR ''['' # s) = PFail" "atoms x (CHR ''('' # s) = PFail" "atoms x (CHR ''{'' # s) = PFail"
  "atoms x (CHR ''#'' # CHR ''{'' # s) = PFail"
  by (simp_all add: starts_def is_ws_def atoms_def first_char number_first symbol_first p_or_def p_map_def
      is_digit_def is_sign_def symbol_char_initial_def alphanumeric_def is_lower_def is_upper_def
      nan_def infinity_def hash_f_def inst_def inst_millis_def inst_micros_def inst_string_def
      uuid_def bytes_def lit_Cons)

lemmas collection_simps = value_p.simps Let_def lit_Cons p_or_def trailing_def bracketed_def
  open_chars(5-8) is_ws_def

lemma reads_back_collections:
  "\<forall>v\<in>set vs. reads_back x v \<Longrightarrow> reads_back x (VVector vs)"
  "\<forall>v\<in>set vs. reads_back x v \<Longrightarrow> reads_back x (VList vs)"
  "\<forall>v\<in>set vs. reads_back x v \<Longrightarrow> ascending value_cmp vs \<Longrightarrow> reads_back x (VSet vs)"
  "\<forall>e\<in>set m. reads_back x (fst e) \<and> reads_back x (snd e) \<Longrightarrow> ascending value_cmp (map fst m) \<Longrightarrow>
     reads_back x (VMap m)"
proof -
  have c: "closing (CHR '']'')" "closing (CHR '')'')" "closing (CHR ''}'')" by (simp_all add: closing_def)
  assume vs: "\<forall>v\<in>set vs. reads_back x v"
  note vb = values_back [OF vs]
  show "reads_back x (VVector vs)" using open_chars(1) vb [OF c(1)]
    by (auto simp: reads_back_def display_texts starts_def collection_simps c simp del: display_value.simps)
  show "reads_back x (VList vs)" using open_chars(2) vb [OF c(2)]
    by (auto simp: reads_back_def display_texts starts_def collection_simps c simp del: display_value.simps)
  assume "ascending value_cmp vs"
  then show "reads_back x (VSet vs)" using open_chars(4) vb [OF c(3)]
    by (auto simp: reads_back_def display_texts starts_def collection_simps c
        value_ord.bt_set_of_list_ascending simp del: display_value.simps)
next
  have c: "closing (CHR ''}'')" by (simp_all add: closing_def)
  assume "\<forall>e\<in>set m. reads_back x (fst e) \<and> reads_back x (snd e)" "ascending value_cmp (map fst m)"
  then show "reads_back x (VMap m)" using open_chars(3) pairs_back [OF _ c, of m x]
    by (auto simp: reads_back_def display_texts starts_def collection_simps c
        value_ord.bt_of_list_ascending simp del: display_value.simps)
qed

lemma printable_reads_back: "printable v \<Longrightarrow> wf_value v \<Longrightarrow> reads_back x v"
proof (induction v)
  case (VMap m)
  have "reads_back x (fst e) \<and> reads_back x (snd e)" if "e \<in> set m" for e
    using VMap.IH [OF that, of "fst e"] VMap.IH [OF that, of "snd e"] VMap.prems that
    by (auto simp: fsts.simps snds.simps)
  then show ?case using VMap.prems by (intro reads_back_collections(4)) auto
next
  case (VVector vs)
  then show ?case by (intro reads_back_collections(1)) simp
next
  case (VList vs)
  then show ?case by (intro reads_back_collections(2)) simp
next
  case (VSet vs)
  then show ?case by (intro reads_back_collections(3)) simp_all
qed (rule reads_back_atoms; (assumption | simp))+

section \<open>The nesting of printed text\<close>

lemma lexical_neutral:
  assumes "wf_name n" "lexical n"
  shows "\<forall>c\<in>set (nn_display n). neutral c"
proof -
  have "\<forall>c\<in>set ns. neutral c" if "lex_ns ns" for ns
    using that symbol_namespace_split [of "ns @ ''/''" ns "''/''"] by (simp add: lex_ns_def)
  then show ?thesis using assms nn_display_parts [OF assms(1)] lex_name_chars(3) [of "nn_name n"]
    by (auto simp: lexical_def neutral_classes split: option.splits)
qed

lemma quiet_atoms:
  assumes "printable v" "wf_value v" "vdepth v = 0"
  shows "quiet (display_value x v)"
proof -
  have int: "\<forall>c\<in>set (show_int i). neutral c" for i
    using show_nat_digits by (auto simp: show_int_def neutral_classes)
  show ?thesis
  proof (cases v)
    case (VText s)
    then show ?thesis using assms(1) quiet_quoted [of s] by simp
  next
    case (VKeyword k)
    then show ?thesis using assms lexical_neutral by (cases k) (auto intro!: quiet_neutral)
  next
    case (VNamespacedSymbol m)
    then show ?thesis using assms lexical_neutral by (cases m) (auto intro!: quiet_neutral)
  next
    case (VPlainSymbol p)
    then show ?thesis using assms lex_name_chars(3) [of "ps_display p"]
      by (auto intro!: quiet_neutral neutral_classes)
  next
    case (VInteger i)
    then show ?thesis using quiet_neutral [OF int] by simp
  next
    case (VBigInteger i)
    then show ?thesis using quiet_append [OF quiet_neutral [OF int], of "''N''" i] by simp
  next
    case (VBoolean b)
    then show ?thesis by (cases b) (simp_all add: quiet_def scan_defs)
  next
    case (VFloat f)
    then show ?thesis using assms(1) by (cases f) (simp_all add: quiet_def scan_defs)
  next
    case VNil
    then show ?thesis by (simp add: quiet_def scan_defs)
  qed (use assms in simp_all)
qed

definition scans :: "'x ext_scheme \<Rightarrow> edn_value \<Rightarrow> bool" where
  "scans x v \<longleftrightarrow>
     (\<forall>mx d. d + vdepth v \<le> mx \<longrightarrow> scan mx (display_value x v) (Code, d) = Some (Code, d))"

lemma scans_atoms: "printable v \<Longrightarrow> wf_value v \<Longrightarrow> vdepth v = 0 \<Longrightarrow> scans x v"
  using quiet_atoms [of v x] by (simp add: scans_def quiet_def)

lemma scan_space: "scan mx (CHR '' '' # s) (Code, d) = scan mx s (Code, d)"
  by (simp add: lex_step_def is_opener_def is_closer_def)

lemma scan_vals:
  "\<forall>v\<in>set vs. scans x v \<and> d + vdepth v \<le> mx \<Longrightarrow> scan mx (vals_text x vs @ t) (Code, d) = scan mx t (Code, d)"
  by (induction vs) (simp_all add: scan_space scan_append scans_def del: scan.simps)

lemma scan_pairs:
  "\<forall>e\<in>set m. scans x (fst e) \<and> scans x (snd e) \<and> d + vdepth (fst e) \<le> mx \<and> d + vdepth (snd e) \<le> mx \<Longrightarrow>
     scan mx (pairs_text x m @ t) (Code, d) = scan mx t (Code, d)"
  by (induction m) (auto simp: scan_space scan_append scans_def simp del: scan.simps)

lemma scan_brackets:
  assumes "is_opener c" "is_closer e" "Suc d \<le> mx"
    and "scan mx (body @ CHR '' '' # [e]) (Code, Suc d) = scan mx (CHR '' '' # [e]) (Code, Suc d)"
  shows "scan mx (c # body @ CHR '' '' # [e]) (Code, d) = Some (Code, d)"
  using assms by (auto simp: lex_step_def is_opener_def is_closer_def)

lemma printable_scans: "printable v \<Longrightarrow> wf_value v \<Longrightarrow> scans x v"
proof (induction v)
  case (VVector vs)
  then show ?case unfolding scans_def [of x "VVector vs"] vdepth_le display_texts
    by (auto intro!: scan_brackets scan_vals simp: is_opener_def is_closer_def simp del: scan.simps)
next
  case (VList vs)
  then show ?case unfolding scans_def [of x "VList vs"] vdepth_le display_texts
    by (auto intro!: scan_brackets scan_vals simp: is_opener_def is_closer_def simp del: scan.simps)
next
  case (VSet vs)
  have "scan mx (CHR ''#'' # s) (Code, d) = scan mx s (Code, d)" for mx d s
    by (simp add: lex_step_def is_opener_def is_closer_def)
  with VSet show ?case unfolding scans_def [of x "VSet vs"] vdepth_le display_texts
    by (auto intro!: scan_brackets scan_vals simp: is_opener_def is_closer_def simp del: scan.simps)
next
  case (VMap m)
  have "scans x (fst e) \<and> scans x (snd e)" if "e \<in> set m" for e
    using VMap.IH [OF that, of "fst e"] VMap.IH [OF that, of "snd e"] VMap.prems that
    by (auto simp: fsts.simps snds.simps)
  then show ?case unfolding scans_def [of x "VMap m"] vdepth_le display_texts
    by (auto intro!: scan_brackets scan_pairs simp: is_opener_def is_closer_def simp del: scan.simps)
qed (rule scans_atoms; (assumption | simp))+

section \<open>Properties\<close>

text \<open>C5.  Reading what \<open>Display\<close> writes gives the value back: for every well-formed value within
  the nesting limit that is built from \<open>nil\<close>, booleans, 64-bit integers, big integers, the
  three special floating-point values, texts without quotes and backslashes, symbols and
  keywords in the grammar's character set, and vectors, lists, sets and maps of such values.\<close>

theorem parse_display_value:
  assumes "wf_value v" "printable v" "vdepth v \<le> MAX_NESTING"
  shows "parse_value x (display_value x v) = Inr v"
proof -
  have "scan MAX_NESTING (display_value x v) (Code, 0) = Some (Code, 0)"
    using printable_scans [OF assms(2,1), of x] assms(3) by (simp add: scans_def)
  then have "is_ok (check_nesting (display_value x v) MAX_NESTING)" by (simp add: check_nesting_scan)
  moreover have "value_p x (display_value x v) = POk v []"
    using printable_reads_back [OF assms(2,1), of x] by (auto simp: reads_back_def delim_def dest: spec [of _ "[]"])
  ultimately show ?thesis by (auto simp: parse_value_def split: sum.splits)
qed

theorem parse_display_value_witness:
  "display_value sample_ext (VVector [VInteger (- 7), VSet [VBoolean True], VText ''a b''])
     = [CHR ''[''] @ '' -7 #{ true } '' @ [CHR 0x22] @ ''a b'' @ [CHR 0x22] @ '' ]'' \<and>
   parse_value sample_ext ([CHR ''[''] @ '' -7 #{ true } '' @ [CHR 0x22] @ ''a b'' @ [CHR 0x22] @ '' ]'')
     = Inr (VVector [VInteger (- 7), VSet [VBoolean True], VText ''a b''])"
proof -
  let ?v = "VVector [VInteger (- 7), VSet [VBoolean True], VText ''a b'']"
  have v: "wf_value ?v" "printable ?v" "vdepth ?v \<le> MAX_NESTING"
    by (simp_all add: i64_ok_def MAX_NESTING_def)
  have "display_value sample_ext ?v = [CHR ''[''] @ '' -7 #{ true } '' @ [CHR 0x22] @ ''a b'' @ [CHR 0x22] @ '' ]''"
    by code_simp
  with parse_display_value [OF v, of sample_ext] show ?thesis by simp
qed

text \<open>C25.  Every string survives the pretty printer and the reader: the literal that
  \<open>escape_text\<close> writes, with its quotes and backslashes escaped, is read back as exactly that
  string, whatever bytes it contains.\<close>

theorem parse_escape_text: "parse_value x (escape_text s) = Inr (VText s)"
proof -
  have rt: "raw_text (escape_text s) = POk s []"
    using text_body_escape [of s "[]"] by (simp add: raw_text_def escape_text_def)
  have "quiet (escape_text s)"
    using eats_text [of "escape_text s"] rt by (auto simp: eats_def)
  then have ok: "is_ok (check_nesting (escape_text s) MAX_NESTING)"
    by (simp add: check_nesting_scan quiet_def)
  have "atoms x (escape_text s) = POk (VText s) []"
    using rt by (simp add: escape_text_def atoms_def first_char number_first p_or_def p_map_def
        is_digit_def is_sign_def)
  then have "value_p x (escape_text s) = POk (VText s) []"
    by (simp add: value_p.simps Let_def escape_text_def is_ws_def p_or_def trailing_def)
  then show ?thesis using ok by (auto simp: parse_value_def split: sum.splits)
qed

end
