(* ===== verification/Typed_Store.thy ===== *)
theory Typed_Store
  imports Edn_Value "HOL-Library.AList"
begin

text \<open>
  Typed values, the append-only datom log and its current-state projection
  (\<open>pg_mentat/src/functions/transact.rs\<close>, the functions that issue SQL on the typed tables, and
  \<open>pg_mentat/sql/24_current_projection.sql\<close>).  The nine log tables \<open>datoms_<type>_new\<close> are one
  list \<open>datoms\<close> of rows and the nine projection tables \<open>current_<type>\<close> one list \<open>current\<close>: the
  constructor of a row's value says which table it is in, so a statement on one table is a
  statement on the rows of that constructor.  SQL statements are translated with their
  primary keys and their errors; what the server alone decides is a parameter: the row that a
  \<open>LIMIT 1\<close> without an order returns (\<open>pick_log\<close>, \<open>pick_cur\<close>) and the time stamp that
  \<open>to_timestamp\<close> of a rounded double gives (\<open>to_timestamp\<close>).  Values the server refuses to
  store (a text with a NUL byte, a time stamp outside its range) abort the transaction and are
  not modelled; negative zero is identified with zero, as the server's comparison does.
\<close>

section \<open>Values\<close>

datatype typed_value =
    TRef int
  | TBoolean bool
  | TLong int
  | TDouble f64
  | TText string
  | TKeyword string
  | TInstant int
  | TUuid string
  | TBytes string

primrec type_tag :: "typed_value \<Rightarrow> int" where
  "type_tag (TRef _) = 0"
| "type_tag (TBoolean _) = 1"
| "type_tag (TLong _) = 2"
| "type_tag (TDouble _) = 3"
| "type_tag (TInstant _) = 4"
| "type_tag (TText _) = 7"
| "type_tag (TKeyword _) = 8"
| "type_tag (TUuid _) = 10"
| "type_tag (TBytes _) = 11"

text \<open>The derived \<open>PartialEq\<close>: a floating-point NaN is not equal to itself.\<close>

definition tv_eq :: "typed_value \<Rightarrow> typed_value \<Rightarrow> bool" where
  "tv_eq v w \<longleftrightarrow> v = w \<and> v \<noteq> TDouble NaN"

primrec current_projection_table :: "typed_value \<Rightarrow> string" where
  "current_projection_table (TRef _) = ''current_ref''"
| "current_projection_table (TBoolean _) = ''current_boolean''"
| "current_projection_table (TLong _) = ''current_long''"
| "current_projection_table (TDouble _) = ''current_double''"
| "current_projection_table (TInstant _) = ''current_instant''"
| "current_projection_table (TText _) = ''current_text''"
| "current_projection_table (TKeyword _) = ''current_keyword''"
| "current_projection_table (TUuid _) = ''current_uuid''"
| "current_projection_table (TBytes _) = ''current_bytes''"

primrec log_table_for :: "typed_value \<Rightarrow> string" where
  "log_table_for (TRef _) = ''datoms_ref_new''"
| "log_table_for (TBoolean _) = ''datoms_boolean_new''"
| "log_table_for (TLong _) = ''datoms_long_new''"
| "log_table_for (TDouble _) = ''datoms_double_new''"
| "log_table_for (TInstant _) = ''datoms_instant_new''"
| "log_table_for (TText _) = ''datoms_text_new''"
| "log_table_for (TKeyword _) = ''datoms_keyword_new''"
| "log_table_for (TUuid _) = ''datoms_uuid_new''"
| "log_table_for (TBytes _) = ''datoms_bytes_new''"

section \<open>Tables\<close>

record log_row =
  l_store :: int
  l_e :: int
  l_a :: int
  l_v :: typed_value
  l_tx :: int
  l_added :: bool

record cur_row =
  c_store :: int
  c_e :: int
  c_a :: int
  c_v :: typed_value
  c_tx :: int

record tables =
  datoms :: "log_row list"
  current :: "cur_row list"

type_synonym row = "int \<times> int \<times> typed_value \<times> int \<times> bool"

datatype sql_error = CannotAffectRowTwice

record pgx = ext +
  f64_exp :: "rat \<Rightarrow> string"
  f64_text :: "f64 \<Rightarrow> string"
  read_f64 :: "string \<Rightarrow> f64 option"
  to_timestamp :: "int \<Rightarrow> int"
  pick_log :: "log_row list \<Rightarrow> nat"
  pick_cur :: "cur_row list \<Rightarrow> nat"

text \<open>A concrete instance for evaluating definitions on examples.\<close>

definition sample_pgx :: pgx where
  "sample_pgx = \<lparr>rfc3339 = \<lambda>_. [], hyphenated = id, hex_encode = id, show_f64 = \<lambda>_. [],
     timestamp_opt = \<lambda>s n. Some (DateTime s n), parse_f64 = \<lambda>_. NaN,
     parse_rfc3339 = \<lambda>_. None, parse_uuid = Some, hex_decode = Some,
     f64_exp = \<lambda>q. (case quotient_of q of (n, d) \<Rightarrow> show_int n @ ''/'' @ show_int d),
     f64_text = \<lambda>_. ''NaN'', read_f64 = \<lambda>_. Some NaN, to_timestamp = id,
     pick_log = \<lambda>_. 0, pick_cur = \<lambda>_. 0\<rparr>"

text \<open>\<open>LIMIT 1\<close>: the server may return any of the rows.\<close>

definition limit1 :: "('r list \<Rightarrow> nat) \<Rightarrow> 'r list \<Rightarrow> 'r option" where
  "limit1 pick rs = (if rs = [] then None else Some (rs ! (pick rs mod length rs)))"

definition log_eav :: "log_row \<Rightarrow> int \<times> int \<times> int \<times> typed_value" where
  "log_eav r = (l_store r, l_e r, l_a r, l_v r)"

definition log_key :: "log_row \<Rightarrow> int \<times> int \<times> int \<times> typed_value \<times> int" where
  "log_key r = (l_store r, l_e r, l_a r, l_v r, l_tx r)"

definition cur_key :: "cur_row \<Rightarrow> int \<times> int \<times> int \<times> typed_value" where
  "cur_key c = (c_store c, c_e c, c_a c, c_v c)"

section \<open>SQL text\<close>

primrec sql_escape_str :: "string \<Rightarrow> string" where
  "sql_escape_str [] = []"
| "sql_escape_str (c # s) = (if c = CHR 0x27 then [CHR 0x27, CHR 0x27] else [c]) @ sql_escape_str s"

definition sql_quote :: "string \<Rightarrow> string" where
  "sql_quote s = [CHR 0x27] @ sql_escape_str s @ [CHR 0x27]"

definition sql_quoted :: "string \<Rightarrow> string" where
  "sql_quoted s = [CHR 0x27] @ s @ [CHR 0x27]"

primrec typed_value_sql_literal :: "'x pgx_scheme \<Rightarrow> typed_value \<Rightarrow> string" where
  "typed_value_sql_literal x (TRef i) = show_int i"
| "typed_value_sql_literal x (TBoolean b) = (if b then ''true'' else ''false'')"
| "typed_value_sql_literal x (TLong n) = show_int n"
| "typed_value_sql_literal x (TDouble f) =
     (case f of
        NaN \<Rightarrow> sql_quoted ''NaN'' @ ''::double precision''
      | PosInfinity \<Rightarrow> sql_quoted ''Infinity'' @ ''::double precision''
      | NegInfinity \<Rightarrow> sql_quoted ''-Infinity'' @ ''::double precision''
      | Finite q \<Rightarrow> f64_exp x q @ ''::double precision'')"
| "typed_value_sql_literal x (TInstant m) =
     ''to_timestamp('' @ show_int m @ ''::double precision/1000000.0)''"
| "typed_value_sql_literal x (TText s) = sql_quote s"
| "typed_value_sql_literal x (TKeyword s) = sql_quote s"
| "typed_value_sql_literal x (TUuid u) = sql_quoted (hyphenated x u) @ ''::uuid''"
| "typed_value_sql_literal x (TBytes b) =
     ''decode('' @ sql_quoted (hex_encode x b) @ '','' @ sql_quoted ''hex'' @ '')''"

text \<open>The value that the literal has once it is in its column.\<close>

primrec column :: "'x pgx_scheme \<Rightarrow> typed_value \<Rightarrow> typed_value" where
  "column x (TRef i) = TRef i"
| "column x (TBoolean b) = TBoolean b"
| "column x (TLong n) = TLong n"
| "column x (TDouble f) = TDouble f"
| "column x (TText s) = TText s"
| "column x (TKeyword s) = TKeyword s"
| "column x (TInstant m) = TInstant (to_timestamp x m)"
| "column x (TUuid u) = TUuid u"
| "column x (TBytes b) = TBytes b"

section \<open>Writing a batch to the log\<close>

fun dedup_rows :: "'x pgx_scheme \<Rightarrow> (int \<times> int \<times> string \<times> int \<times> bool) set \<Rightarrow> row list \<Rightarrow> row list" where
  "dedup_rows x seen [] = []"
| "dedup_rows x seen ((e, a, v, tx, added) # rows) =
     (let key = (e, a, typed_value_sql_literal x v, tx, added) in
      if key \<in> seen then dedup_rows x seen rows
      else (e, a, v, tx, added) # dedup_rows x (insert key seen) rows)"

fun log_values :: "'x pgx_scheme \<Rightarrow> int \<Rightarrow> row \<Rightarrow> log_row" where
  "log_values x sid (e, a, v, tx, added) =
     \<lparr>l_store = sid, l_e = e, l_a = a, l_v = column x v, l_tx = tx, l_added = added\<rparr>"

definition upsert_log :: "log_row \<Rightarrow> log_row list \<Rightarrow> log_row list" where
  "upsert_log r ds =
     (if log_key r \<in> log_key ` set ds
      then map (\<lambda>d. if log_key d = log_key r then d\<lparr>l_added := l_added r\<rparr> else d) ds
      else ds @ [r])"

text \<open>One \<open>INSERT .. ON CONFLICT (store_id,e,a,v,tx) DO UPDATE SET added\<close>.\<close>

definition insert_log :: "log_row list \<Rightarrow> tables \<Rightarrow> (sql_error, tables) result" where
  "insert_log vals t =
     (if distinct (map log_key vals)
      then Inr (t\<lparr>datoms := foldl (\<lambda>ds r. upsert_log r ds) (datoms t) vals\<rparr>)
      else Inl CannotAffectRowTwice)"

definition flush :: "int \<Rightarrow> log_row list \<Rightarrow> tables \<Rightarrow> (sql_error, tables) result" where
  "flush tag vals t =
     (let vs = filter (\<lambda>r. type_tag (l_v r) = tag) vals in if vs = [] then Inr t else insert_log vs t)"

definition flush_order :: "int list" where
  "flush_order = [0, 1, 2, 3, 4, 7, 8, 10, 11]"

definition batch_insert_datoms ::
  "'x pgx_scheme \<Rightarrow> int \<Rightarrow> row list \<Rightarrow> tables \<Rightarrow> (sql_error, tables) result" where
  "batch_insert_datoms x sid rows t =
     (if rows = [] then Inr t
      else let vals = map (log_values x sid) (dedup_rows x {} rows) in
           foldR (\<lambda>tag t. flush tag vals t) flush_order t)"

section \<open>Maintaining the projection\<close>

text \<open>The two nested hash maps are association lists keyed by table, entity, attribute and
  literal; a statement is issued for every table that has an entry.\<close>

type_synonym proj_key = "string \<times> int \<times> int \<times> string"
type_synonym proj_ops = "(proj_key \<times> cur_row) list"

fun proj_step :: "'x pgx_scheme \<Rightarrow> int \<Rightarrow> proj_ops \<times> proj_ops \<Rightarrow> row \<Rightarrow> proj_ops \<times> proj_ops" where
  "proj_step x sid (upserts, deletes) (e, a, v, tx, added) =
     (let key = (current_projection_table v, e, a, typed_value_sql_literal x v);
          r = \<lparr>c_store = sid, c_e = e, c_a = a, c_v = column x v, c_tx = tx\<rparr>
      in if added then (AList.update key r upserts, AList.delete key deletes)
         else (AList.delete key upserts, AList.update key r deletes))"

definition ops_tables :: "proj_ops \<Rightarrow> string list" where
  "ops_tables m = remdups (map (fst \<circ> fst) m)"

definition ops_rows :: "string \<Rightarrow> proj_ops \<Rightarrow> cur_row list" where
  "ops_rows tab m = map snd (filter (\<lambda>(k, r). fst k = tab) m)"

text \<open>\<open>DELETE .. WHERE (store_id,e,a,v) IN (VALUES ..)\<close> and
  \<open>INSERT .. ON CONFLICT (store_id,e,a,v) DO UPDATE SET tx\<close>.\<close>

definition delete_current :: "cur_row list \<Rightarrow> tables \<Rightarrow> tables" where
  "delete_current rs t = t\<lparr>current := filter (\<lambda>c. cur_key c \<notin> cur_key ` set rs) (current t)\<rparr>"

definition upsert_cur :: "cur_row \<Rightarrow> cur_row list \<Rightarrow> cur_row list" where
  "upsert_cur r cs =
     (if cur_key r \<in> cur_key ` set cs
      then map (\<lambda>c. if cur_key c = cur_key r then c\<lparr>c_tx := c_tx r\<rparr> else c) cs
      else cs @ [r])"

definition insert_current :: "cur_row list \<Rightarrow> tables \<Rightarrow> (sql_error, tables) result" where
  "insert_current rs t =
     (if distinct (map cur_key rs)
      then Inr (t\<lparr>current := foldl (\<lambda>cs r. upsert_cur r cs) (current t) rs\<rparr>)
      else Inl CannotAffectRowTwice)"

definition maintain_current_projection ::
  "'x pgx_scheme \<Rightarrow> int \<Rightarrow> row list \<Rightarrow> tables \<Rightarrow> (sql_error, tables) result" where
  "maintain_current_projection x sid rows t =
     (if rows = [] then Inr t
      else let (upserts, deletes) = foldl (proj_step x sid) ([], []) rows;
               t' = foldl (\<lambda>t tab. delete_current (ops_rows tab deletes) t) t (ops_tables deletes)
           in foldR (\<lambda>tab t. insert_current (ops_rows tab upserts) t) (ops_tables upserts) t')"

text \<open>The end of \<open>insert_datoms\<close>: the log, then the projection, from the same rows.\<close>

definition write_rows :: "'x pgx_scheme \<Rightarrow> int \<Rightarrow> row list \<Rightarrow> tables \<Rightarrow> (sql_error, tables) result" where
  "write_rows x sid rows t = rbind (batch_insert_datoms x sid rows t) (maintain_current_projection x sid rows)"

section \<open>Pruning without history\<close>

definition prune_projection_ea :: "int \<Rightarrow> int \<Rightarrow> int \<Rightarrow> typed_value \<Rightarrow> tables \<Rightarrow> tables" where
  "prune_projection_ea sid e a hint t =
     t\<lparr>current := filter (\<lambda>c. \<not> (current_projection_table (c_v c) = current_projection_table hint
                               \<and> c_store c = sid \<and> c_e c = e \<and> c_a c = a)) (current t)\<rparr>"

definition prune_no_history_ea :: "int \<Rightarrow> int \<Rightarrow> int \<Rightarrow> typed_value \<Rightarrow> tables \<Rightarrow> tables" where
  "prune_no_history_ea sid e a hint t =
     t\<lparr>datoms := filter (\<lambda>d. \<not> (log_table_for (l_v d) = log_table_for hint
                              \<and> l_store d = sid \<and> l_e d = e \<and> l_a d = a)) (datoms t)\<rparr>"

definition prune_no_history_eav ::
  "'x pgx_scheme \<Rightarrow> int \<Rightarrow> int \<Rightarrow> int \<Rightarrow> typed_value \<Rightarrow> tables \<Rightarrow> tables" where
  "prune_no_history_eav x sid e a v t =
     t\<lparr>datoms := filter (\<lambda>d. \<not> (log_table_for (l_v d) = log_table_for v
                              \<and> l_store d = sid \<and> l_e d = e \<and> l_a d = a \<and> l_v d = column x v)) (datoms t)\<rparr>"

section \<open>Reading the projection\<close>

datatype read_error = BadValue string

text \<open>The text that each table's value expression gives.  The cast of the epoch to \<open>bigint\<close>
  rounds to the nearest second, halves away from zero.\<close>

definition epoch_seconds :: "int \<Rightarrow> int" where
  "epoch_seconds m = (if 0 \<le> m then (2 * m + 1000000) div 2000000 else - ((2 * (- m) + 1000000) div 2000000))"

primrec value_text :: "'x pgx_scheme \<Rightarrow> typed_value \<Rightarrow> string" where
  "value_text x (TRef i) = show_int i"
| "value_text x (TBoolean b) = (if b then ''true'' else ''false'')"
| "value_text x (TLong n) = show_int n"
| "value_text x (TDouble f) = f64_text x f"
| "value_text x (TInstant m) = show_int (epoch_seconds m * 1000000)"
| "value_text x (TText s) = s"
| "value_text x (TKeyword s) = s"
| "value_text x (TUuid u) = hyphenated x u"
| "value_text x (TBytes b) = hex_encode x b"

definition parse_bool :: "string \<Rightarrow> bool option" where
  "parse_bool s = (if s = ''true'' then Some True else if s = ''false'' then Some False else None)"

definition parse_typed_value_from_tag ::
  "'x pgx_scheme \<Rightarrow> int \<Rightarrow> string \<Rightarrow> (read_error, typed_value) result" where
  "parse_typed_value_from_tag x tag s =
     (if tag = 0 then of_option (BadValue ''Invalid ref'') (map_option TRef (str_parse_i64 s))
      else if tag = 1 then of_option (BadValue ''Invalid boolean'') (map_option TBoolean (parse_bool s))
      else if tag = 2 then of_option (BadValue ''Invalid long'') (map_option TLong (str_parse_i64 s))
      else if tag = 3 then of_option (BadValue ''Invalid double'') (map_option TDouble (read_f64 x s))
      else if tag = 4 then of_option (BadValue ''Invalid instant'') (map_option TInstant (str_parse_i64 s))
      else if tag = 7 then Inr (TText s)
      else if tag = 8 then Inr (TKeyword s)
      else if tag = 10 then of_option (BadValue ''Invalid UUID'') (map_option TUuid (parse_uuid x s))
      else if tag = 11 then of_option (BadValue ''Invalid hex'') (map_option TBytes (hex_decode x s))
      else Inl (BadValue (''Unknown type_tag: '' @ show_int tag)))"

definition current_rows_ea :: "int \<Rightarrow> int \<Rightarrow> int \<Rightarrow> typed_value \<Rightarrow> tables \<Rightarrow> cur_row list" where
  "current_rows_ea sid e a hint t =
     filter (\<lambda>c. current_projection_table (c_v c) = current_projection_table hint
                 \<and> c_store c = sid \<and> c_e c = e \<and> c_a c = a) (current t)"

definition current_projection_value_for_ea ::
  "'x pgx_scheme \<Rightarrow> int \<Rightarrow> int \<Rightarrow> int \<Rightarrow> typed_value \<Rightarrow> tables \<Rightarrow> (read_error, typed_value option) result" where
  "current_projection_value_for_ea x sid e a hint t =
     (case limit1 (pick_cur x) (current_rows_ea sid e a hint t) of
        None \<Rightarrow> Inr None
      | Some c \<Rightarrow> rbind (parse_typed_value_from_tag x (type_tag hint) (value_text x (c_v c))) (Inr \<circ> Some))"

datatype cardinality_one_result = Skip | Insert | Replace typed_value

definition retract_existing_cardinality_one ::
  "'x pgx_scheme \<Rightarrow> int \<Rightarrow> int \<Rightarrow> int \<Rightarrow> typed_value \<Rightarrow> tables \<Rightarrow> (read_error, cardinality_one_result) result" where
  "retract_existing_cardinality_one x sid e a new_v t =
     rbind (current_projection_value_for_ea x sid e a new_v t)
       (\<lambda>existing. case existing of
           Some old_v \<Rightarrow> if tv_eq old_v new_v then Inr Skip else Inr (Replace old_v)
         | None \<Rightarrow> Inr Insert)"

definition is_duplicate_cardinality_many ::
  "'x pgx_scheme \<Rightarrow> int \<Rightarrow> int \<Rightarrow> int \<Rightarrow> typed_value \<Rightarrow> tables \<Rightarrow> bool" where
  "is_duplicate_cardinality_many x sid e a v t \<longleftrightarrow>
     (sid, e, a, column x v) \<in> cur_key ` set (current t)"

definition check_unique_typed_value ::
  "'x pgx_scheme \<Rightarrow> int \<Rightarrow> int \<Rightarrow> typed_value \<Rightarrow> tables \<Rightarrow> int option" where
  "check_unique_typed_value x sid a v t =
     map_option l_e (limit1 (pick_log x)
       (filter (\<lambda>d. l_store d = sid \<and> l_a d = a \<and> l_v d = column x v \<and> l_added d) (datoms t)))"

section \<open>Rebuilding and verifying the projection\<close>

text \<open>\<open>SELECT DISTINCT ON (store_id,e,a,v) .. ORDER BY store_id, e, a, v, tx DESC\<close>.\<close>

primrec latest :: "log_row list \<Rightarrow> log_row option" where
  "latest [] = None"
| "latest (r # rs) = (case latest rs of None \<Rightarrow> Some r | Some q \<Rightarrow> if l_tx r < l_tx q then Some q else Some r)"

definition resolved :: "int \<Rightarrow> tables \<Rightarrow> log_row list" where
  "resolved store t =
     (let rs = filter (\<lambda>r. l_store r = store) (datoms t);
          firsts = List.map_filter (\<lambda>k. latest (filter (\<lambda>r. log_eav r = k) rs)) (remdups (map log_eav rs))
      in filter l_added firsts)"

definition to_cur :: "log_row \<Rightarrow> cur_row" where
  "to_cur r = \<lparr>c_store = l_store r, c_e = l_e r, c_a = l_a r, c_v = l_v r, c_tx = l_tx r\<rparr>"

definition rebuild_current_projection :: "int \<Rightarrow> tables \<Rightarrow> tables \<times> nat" where
  "rebuild_current_projection store t =
     (let live = resolved store t
      in (t\<lparr>current := filter (\<lambda>c. c_store c \<noteq> store) (current t) @ map to_cur live\<rparr>, length live))"

definition verify_current_projection :: "int \<Rightarrow> tables \<Rightarrow> nat" where
  "verify_current_projection store t =
     (let res = remdups (map log_eav (resolved store t));
          proj = remdups (map cur_key (filter (\<lambda>c. c_store c = store) (current t)))
      in length (filter (\<lambda>k. k \<notin> set proj) res) + length (filter (\<lambda>k. k \<notin> set res) proj))"

end
