(* ===== verification/Projection.thy ===== *)
theory Projection
  imports Typed_Store
begin

text \<open>
  The contract of the storage layer: the projection tables are the current state of the log.
  The abstract store maps each (store, entity, attribute, value) to the transaction that last
  asserted it; \<open>live\<close> reads it off the log by the latest-transaction rule of
  \<open>sql/24_current_projection.sql\<close>, \<open>proj\<close> reads it off the projection, and \<open>abs_step\<close> is what
  one row of a batch means.  Writing a batch refines the fold of \<open>abs_step\<close> on both sides.
\<close>

section \<open>Specification\<close>

type_synonym fact = "int \<times> int \<times> int \<times> typed_value"

definition live :: "tables \<Rightarrow> fact \<Rightarrow> int option" where
  "live t k = (case latest (filter (\<lambda>r. log_eav r = k) (datoms t)) of
       None \<Rightarrow> None | Some r \<Rightarrow> if l_added r then Some (l_tx r) else None)"

definition proj :: "tables \<Rightarrow> fact \<Rightarrow> int option" where
  "proj t = map_of (map (\<lambda>c. (cur_key c, c_tx c)) (current t))"

definition primary_keys :: "tables \<Rightarrow> bool" where
  "primary_keys t \<longleftrightarrow> distinct (map log_key (datoms t)) \<and> distinct (map cur_key (current t))"

definition proj_ok :: "tables \<Rightarrow> bool" where
  "proj_ok t \<longleftrightarrow> primary_keys t \<and> proj t = live t"

fun row_fact :: "'x pgx_scheme \<Rightarrow> int \<Rightarrow> row \<Rightarrow> fact" where
  "row_fact x sid (e, a, v, tx, added) = (sid, e, a, column x v)"

fun row_added :: "row \<Rightarrow> bool" where
  "row_added (e, a, v, tx, added) = added"

fun row_tx :: "row \<Rightarrow> int" where
  "row_tx (e, a, v, tx, added) = tx"

definition abs_step :: "'x pgx_scheme \<Rightarrow> int \<Rightarrow> (fact \<Rightarrow> int option) \<Rightarrow> row \<Rightarrow> fact \<Rightarrow> int option" where
  "abs_step x sid m r = m(row_fact x sid r := if row_added r then Some (row_tx r) else None)"

text \<open>What is relied on of the formatting functions: different values of one type have
  different literals.\<close>

definition literals_ok :: "'x pgx_scheme \<Rightarrow> bool" where
  "literals_ok x \<longleftrightarrow> inj (f64_exp x) \<and> (\<forall>q. take 1 (f64_exp x q) \<noteq> [CHR 0x27])
     \<and> inj (hyphenated x) \<and> inj (hex_encode x)"

text \<open>The rows of one transaction: one transaction id, greater than every earlier one about the
  same fact, and one type of value for each entity and attribute.\<close>

definition fresh_rows :: "'x pgx_scheme \<Rightarrow> int \<Rightarrow> int \<Rightarrow> row list \<Rightarrow> tables \<Rightarrow> bool" where
  "fresh_rows x sid tx rows t \<longleftrightarrow>
     (\<forall>d\<in>set (datoms t). \<forall>r\<in>set rows. log_eav d = row_fact x sid r \<longrightarrow> l_tx d < tx)"

definition tx_rows :: "int \<Rightarrow> row list \<Rightarrow> bool" where
  "tx_rows tx rows \<longleftrightarrow> (\<forall>r\<in>set rows. row_tx r = tx) \<and>
     (\<forall>(e, a, v, _)\<in>set rows. \<forall>(e', a', w, _)\<in>set rows. e = e' \<and> a = a' \<longrightarrow> type_tag v = type_tag w)"

section \<open>SQL literals\<close>

lemma sql_escape_str_inj: "sql_escape_str s = sql_escape_str u \<Longrightarrow> s = u"
proof (induction s arbitrary: u)
  case Nil
  then show ?case by (cases u) (auto split: if_splits)
next
  case (Cons c s)
  then show ?case by (cases u) (auto split: if_splits)
qed

lemma same_type_cases:
  assumes "type_tag v = type_tag w"
  obtains (ref) i j where "v = TRef i" "w = TRef j"
    | (boolean) b c where "v = TBoolean b" "w = TBoolean c"
    | (long) i j where "v = TLong i" "w = TLong j"
    | (double) f g where "v = TDouble f" "w = TDouble g"
    | (str) s u where "v = TText s" "w = TText u"
    | (kw) s u where "v = TKeyword s" "w = TKeyword u"
    | (inst) i j where "v = TInstant i" "w = TInstant j"
    | (uuid) s u where "v = TUuid s" "w = TUuid u"
    | (bytes) s u where "v = TBytes s" "w = TBytes u"
  using assms by (cases v; cases w; simp)

lemma f64_exp_first:
  assumes "literals_ok x"
  shows "f64_exp x q \<noteq> CHR 0x27 # u" "CHR 0x27 # u \<noteq> f64_exp x q"
proof -
  show *: "f64_exp x q \<noteq> CHR 0x27 # u"
  proof
    assume "f64_exp x q = CHR 0x27 # u"
    then have "take 1 (f64_exp x q) = [CHR 0x27]" by simp
    then show False using assms by (auto simp: literals_ok_def)
  qed
  show "CHR 0x27 # u \<noteq> f64_exp x q" using * by metis
qed

lemma double_literal_inj:
  assumes "literals_ok x"
    and "typed_value_sql_literal x (TDouble f) = typed_value_sql_literal x (TDouble g)"
  shows "f = g"
  using assms(2) f64_exp_first [OF assms(1)] assms(1)
  by (cases f; cases g) (auto simp: sql_quoted_def literals_ok_def dest: injD)

lemma literal_inj:
  assumes "literals_ok x" and "type_tag v = type_tag w"
    and "typed_value_sql_literal x v = typed_value_sql_literal x w"
  shows "v = w"
  using assms(2)
proof (cases rule: same_type_cases)
  case double
  then show ?thesis using double_literal_inj assms(1,3) by blast
qed (use assms in \<open>auto simp: literals_ok_def sql_quote_def sql_quoted_def show_int_inj
       dest: injD sql_escape_str_inj split: if_splits\<close>)

lemma table_type: "current_projection_table v = current_projection_table w \<longleftrightarrow> type_tag v = type_tag w"
  by (cases v; cases w; simp)

section \<open>The log\<close>

lemma latest_None [simp]: "latest rs = None \<longleftrightarrow> rs = []"
  by (cases rs) (auto split: option.splits)

lemma latest_Some: "latest rs = Some r \<Longrightarrow> r \<in> set rs \<and> (\<forall>q\<in>set rs. l_tx q \<le> l_tx r)"
  by (induction rs arbitrary: r) (fastforce split: option.splits if_splits)+

lemma latest_snoc: "\<forall>q\<in>set rs. l_tx q < l_tx r \<Longrightarrow> latest (rs @ [r]) = Some r"
  by (induction rs) auto

lemma foldl_upsert_log:
  "distinct (map log_key (ds @ vs)) \<Longrightarrow> foldl (\<lambda>ds r. upsert_log r ds) ds vs = ds @ vs"
proof (induction vs arbitrary: ds)
  case (Cons v vs)
  then have "upsert_log v ds = ds @ [v]" by (auto simp: upsert_log_def)
  then show ?case using Cons by simp
qed simp

definition of_tag :: "int \<Rightarrow> log_row list \<Rightarrow> log_row list" where
  "of_tag g vals = filter (\<lambda>r. type_tag (l_v r) = g) vals"

text \<open>The statements of a batch, when no row has the key of a row that is there already.\<close>

lemma flushes:
  assumes "distinct gs" and "distinct (map log_key (datoms t))"
    and "\<And>r. r \<in> set vals \<Longrightarrow> type_tag (l_v r) \<in> set gs \<Longrightarrow> log_key r \<notin> log_key ` set (datoms t)"
  shows "foldR (\<lambda>g t. flush g vals t) gs t =
    (if \<forall>g\<in>set gs. distinct (map log_key (of_tag g vals))
     then Inr (t\<lparr>datoms := datoms t @ concat (map (\<lambda>g. of_tag g vals) gs)\<rparr>)
     else Inl CannotAffectRowTwice)"
  using assms
proof (induction gs arbitrary: t)
  case (Cons g gs)
  let ?vs = "of_tag g vals"
  have vs: "?vs = filter (\<lambda>r. type_tag (l_v r) = g) vals" by (simp add: of_tag_def)
  show ?case
  proof (cases "distinct (map log_key ?vs)")
    case True
    have "log_key r \<notin> log_key ` set (datoms t)" if "r \<in> set ?vs" for r
      using that Cons.prems(3) [of r] by (auto simp: of_tag_def)
    then have "log_key ` set ?vs \<inter> log_key ` set (datoms t) = {}" by blast
    then have dis: "distinct (map log_key (datoms t @ ?vs))"
      using True Cons.prems(2) by (simp add: Int_commute)
    have fl: "flush g vals t = Inr (t\<lparr>datoms := datoms t @ ?vs\<rparr>)"
      using True foldl_upsert_log [OF dis] by (simp add: flush_def Let_def insert_log_def flip: vs)
    have "log_key r \<notin> log_key ` set (datoms t @ ?vs)"
      if "r \<in> set vals" "type_tag (l_v r) \<in> set gs" for r
      using that Cons.prems(1) Cons.prems(3) [of r] by (auto simp: of_tag_def log_key_def)
    then show ?thesis using Cons.IH [of "t\<lparr>datoms := datoms t @ ?vs\<rparr>"] Cons.prems fl dis True by simp
  next
    case False
    then have "?vs \<noteq> []" by auto
    then show ?thesis using False by (simp add: flush_def Let_def insert_log_def flip: vs)
  qed
qed simp

lemma type_tag_flush_order: "type_tag v \<in> set flush_order"
  by (cases v) (simp_all add: flush_order_def)

lemma distinct_of_tag:
  "(\<forall>g\<in>set flush_order. distinct (map log_key (of_tag g vals))) \<longleftrightarrow> distinct (map log_key vals)"
proof
  assume *: "\<forall>g\<in>set flush_order. distinct (map log_key (of_tag g vals))"
  show "distinct (map log_key vals)"
    using *
  proof (induction vals)
    case (Cons r vals)
    have "log_key r \<notin> log_key ` set vals"
    proof
      assume "log_key r \<in> log_key ` set vals"
      then obtain q where q: "q \<in> set vals" "log_key q = log_key r" by auto
      then have "type_tag (l_v q) = type_tag (l_v r)" by (simp add: log_key_def)
      then have "log_key r \<in> log_key ` set (of_tag (type_tag (l_v r)) vals)"
        using q by (intro image_eqI [of _ _ q]) (simp_all add: of_tag_def)
      moreover have "distinct (map log_key (of_tag (type_tag (l_v r)) (r # vals)))"
        using Cons.prems type_tag_flush_order by blast
      ultimately show False by (simp add: of_tag_def)
    qed
    moreover have "distinct (map log_key vals)"
      using Cons by (auto simp: of_tag_def split: if_splits)
    ultimately show ?case by simp
  qed simp
next
  assume "distinct (map log_key vals)"
  then show "\<forall>g\<in>set flush_order. distinct (map log_key (of_tag g vals))"
    by (simp add: of_tag_def distinct_map_filter)
qed

lemma set_of_tags: "set (concat (map (\<lambda>g. of_tag g vals) flush_order)) = set vals"
  using type_tag_flush_order by (auto simp: of_tag_def)

section \<open>Batches\<close>

fun row_key :: "'x pgx_scheme \<Rightarrow> row \<Rightarrow> int \<times> int \<times> string \<times> int \<times> bool" where
  "row_key x (e, a, v, tx, added) = (e, a, typed_value_sql_literal x v, tx, added)"

lemma dedup_rows_Cons:
  "dedup_rows x seen (r # rows) =
     (if row_key x r \<in> seen then dedup_rows x seen rows
      else r # dedup_rows x (insert (row_key x r) seen) rows)"
  by (cases r) (simp add: Let_def)

lemma dedup_rows_inj:
  assumes "inj_on (row_key x) (set rows)"
  shows "set (dedup_rows x seen rows) = {r \<in> set rows. row_key x r \<notin> seen} \<and> distinct (dedup_rows x seen rows)"
  using assms
proof (induction rows arbitrary: seen)
  case (Cons r rows)
  have inj: "row_key x q = row_key x r \<longleftrightarrow> q = r" if "q \<in> set rows" for q
    using Cons.prems that by (meson inj_on_def list.set_intros)
  have IH: "set (dedup_rows x seen rows) = {r \<in> set rows. row_key x r \<notin> seen}"
    "distinct (dedup_rows x seen rows)" for seen
    using Cons by simp_all
  have "{q \<in> set (r # rows). row_key x q \<notin> seen} =
      insert r {q \<in> set rows. row_key x q \<notin> insert (row_key x r) seen}" if "row_key x r \<notin> seen"
    using that inj by (simp only: set_simps) blast
  then show ?case using IH by (simp add: dedup_rows_Cons) blast
qed simp

lemma row_key_inj:
  assumes "literals_ok x" "tx_rows tx rows"
  shows "inj_on (row_key x) (set rows)"
proof (rule inj_onI)
  fix r q assume rq: "r \<in> set rows" "q \<in> set rows" and eq: "row_key x r = row_key x q"
  obtain e a v t b where r: "r = (e, a, v, t, b)" by (cases r)
  obtain w where q: "q = (e, a, w, t, b)" using eq r by (cases q) auto
  have "type_tag v = type_tag w" using assms(2) rq by (auto simp: r q tx_rows_def)
  then have "v = w" using literal_inj [OF assms(1)] eq by (simp add: r q)
  then show "r = q" by (simp add: r q)
qed

lemma log_key_eav: "log_key d = log_key r \<longleftrightarrow> log_eav d = log_eav r \<and> l_tx d = l_tx r"
  by (auto simp: log_key_def log_eav_def)

lemma log_key_values:
  "log_key (log_values x sid r) = log_key (log_values x sid q)
     \<longleftrightarrow> row_fact x sid r = row_fact x sid q \<and> row_tx r = row_tx q"
  by (cases r; cases q) (auto simp: log_key_def)

lemma log_values_simps [simp]:
  "log_eav (log_values x sid r) = row_fact x sid r" "l_added (log_values x sid r) = row_added r"
  "l_tx (log_values x sid r) = row_tx r" "l_store (log_values x sid r) = sid"
  by (cases r; simp add: log_eav_def)+

lemma inj_log_key:
  assumes "\<forall>r\<in>set rows. row_tx r = tx"
  shows "inj_on (\<lambda>r. log_key (log_values x sid r)) (set rows) \<longleftrightarrow> inj_on (row_fact x sid) (set rows)"
  using assms unfolding inj_on_def log_key_values by metis

lemma distinct_tags:
  "distinct gs \<Longrightarrow> \<forall>g\<in>set gs. distinct (map log_key (of_tag g vals)) \<Longrightarrow>
   distinct (map log_key (concat (map (\<lambda>g. of_tag g vals) gs)))"
proof (induction gs)
  case (Cons g gs)
  have "log_key q \<noteq> log_key r" if "q \<in> set (of_tag g vals)" "r \<in> set (concat (map (\<lambda>g. of_tag g vals) gs))" for q r
    using that Cons.prems(1) by (auto simp: of_tag_def log_key_def)
  then have "log_key ` set (of_tag g vals) \<inter> log_key ` set (concat (map (\<lambda>g. of_tag g vals) gs)) = {}"
    by blast
  then show ?case using Cons by (simp del: set_concat)
qed simp

text \<open>A batch of a fresh transaction succeeds exactly when no value is both asserted and
  retracted; then its rows are appended to the log and nothing else changes.\<close>

lemma batch_insert_eq:
  assumes "literals_ok x" "primary_keys t" "fresh_rows x sid tx rows t" "tx_rows tx rows"
  shows "if inj_on (row_fact x sid) (set rows)
    then \<exists>ds. batch_insert_datoms x sid rows t = Inr (t\<lparr>datoms := datoms t @ ds\<rparr>)
           \<and> set ds = log_values x sid ` set rows \<and> distinct (map log_key ds)
    else batch_insert_datoms x sid rows t = Inl CannotAffectRowTwice"
proof -
  let ?ded = "dedup_rows x {} rows"
  let ?vals = "map (log_values x sid) ?ded"
  let ?ds = "concat (map (\<lambda>g. of_tag g ?vals) flush_order)"
  have ded: "set ?ded = set rows" "distinct ?ded"
    using dedup_rows_inj [OF row_key_inj [OF assms(1,4)], of "{}"] by auto
  have txs: "\<forall>r\<in>set rows. row_tx r = tx" using assms(4) by (simp add: tx_rows_def)
  have new: "log_key r \<notin> log_key ` set (datoms t)" if "r \<in> set ?vals" for r
  proof
    assume "log_key r \<in> log_key ` set (datoms t)"
    then obtain d where d: "d \<in> set (datoms t)" "log_key d = log_key r" by (metis imageE)
    from that obtain q where q: "q \<in> set rows" "r = log_values x sid q" using ded(1) by (metis imageE set_map)
    then have "l_tx r = tx" using txs by simp
    then have "log_eav d = row_fact x sid q" "l_tx d = tx" using d(2) log_key_eav [of d r] q(2) by simp_all
    then show False using d(1) q(1) assms(3) unfolding fresh_rows_def by fastforce
  qed
  have dist: "distinct (map log_key ?vals) \<longleftrightarrow> inj_on (row_fact x sid) (set rows)"
    using ded inj_log_key [OF txs, of x sid] by (simp add: distinct_map comp_def)
  have fo: "distinct flush_order" by (simp add: flush_order_def)
  have eq: "foldR (\<lambda>g t. flush g ?vals t) flush_order t =
      (if inj_on (row_fact x sid) (set rows) then Inr (t\<lparr>datoms := datoms t @ ?ds\<rparr>) else Inl CannotAffectRowTwice)"
    using flushes [OF fo, of t ?vals] new assms(2) dist unfolding distinct_of_tag primary_keys_def by simp
  show ?thesis
  proof (cases "rows = []")
    case True
    then show ?thesis by (auto simp: batch_insert_datoms_def intro!: exI [of _ "[]"])
  next
    case False
    have "set ?ds = log_values x sid ` set rows" using set_of_tags [of ?vals] ded(1) by simp
    moreover have "distinct (map log_key ?ds)" if "inj_on (row_fact x sid) (set rows)"
      using distinct_tags [OF fo, of ?vals] distinct_of_tag [of ?vals] dist that by blast
    ultimately show ?thesis using False eq
      by (auto simp: batch_insert_datoms_def Let_def simp del: set_concat intro!: exI [of _ ?ds])
  qed
qed

lemma foldl_abs_step_other:
  "k \<notin> row_fact x sid ` set rows \<Longrightarrow> foldl (abs_step x sid) m rows k = m k"
  by (induction rows arbitrary: m) (simp_all add: abs_step_def)

lemma foldl_abs_step_row:
  assumes "inj_on (row_fact x sid) (set rows)" and "r \<in> set rows"
  shows "foldl (abs_step x sid) m rows (row_fact x sid r) = (if row_added r then Some (row_tx r) else None)"
  using assms
proof (induction rows rule: rev_induct)
  case (snoc q rows)
  show ?case
  proof (cases "row_fact x sid r = row_fact x sid q")
    case True
    then have "r = q" using inj_onD [OF snoc.prems(1), of r q] snoc.prems(2) by simp
    then show ?thesis by (simp add: abs_step_def)
  next
    case False
    then have "r \<in> set rows" using snoc.prems(2) by auto
    then show ?thesis using snoc False by (simp add: abs_step_def)
  qed
qed simp

lemma foldl_abs_stepI:
  assumes "inj_on (row_fact x sid) (set rows)"
    and "\<And>k. k \<notin> row_fact x sid ` set rows \<Longrightarrow> f k = m k"
    and "\<And>r. r \<in> set rows \<Longrightarrow> f (row_fact x sid r) = (if row_added r then Some (row_tx r) else None)"
  shows "f = foldl (abs_step x sid) m rows"
proof (rule HOL.ext)
  fix k
  show "f k = foldl (abs_step x sid) m rows k"
  proof (cases "k \<in> row_fact x sid ` set rows")
    case True
    then obtain r where r: "r \<in> set rows" "k = row_fact x sid r" by (rule imageE)
    show ?thesis unfolding r(2) foldl_abs_step_row [OF assms(1) r(1)] by (rule assms(3) [OF r(1)])
  next
    case False
    then show ?thesis using assms(2) by (simp add: foldl_abs_step_other)
  qed
qed

lemma distinct_singleton: "distinct xs \<Longrightarrow> set xs = {y} \<Longrightarrow> xs = [y]"
  by (cases xs; cases "tl xs") auto

lemma live_append:
  assumes "fresh_rows x sid tx rows t" "tx_rows tx rows" "inj_on (row_fact x sid) (set rows)"
    and ds: "set ds = log_values x sid ` set rows" "distinct (map log_key ds)"
  shows "live (t\<lparr>datoms := datoms t @ ds\<rparr>) = foldl (abs_step x sid) (live t) rows"
proof (rule foldl_abs_stepI [OF assms(3)])
  fix k assume "k \<notin> row_fact x sid ` set rows"
  then have "filter (\<lambda>r. log_eav r = k) ds = []" using ds(1) by (auto simp: filter_empty_conv)
  then show "live (t\<lparr>datoms := datoms t @ ds\<rparr>) k = live t k" by (simp add: live_def)
next
  fix r assume r: "r \<in> set rows"
  let ?k = "row_fact x sid r" and ?d = "log_values x sid r"
  have txs: "row_tx q = tx" if "q \<in> set rows" for q using assms(2) that by (simp add: tx_rows_def)
  have "d = ?d" if d: "d \<in> set ds" "log_eav d = ?k" for d
  proof -
    obtain q where q: "q \<in> set rows" "d = log_values x sid q" using d(1) ds(1) by (metis imageE)
    then have "q = r" using inj_onD [OF assms(3), of q r] r d(2) by simp
    then show ?thesis using q by simp
  qed
  moreover have "?d \<in> set ds" "log_eav ?d = ?k" using ds(1) r by simp_all
  ultimately have "set (filter (\<lambda>d. log_eav d = ?k) ds) = {?d}" unfolding set_filter by blast
  moreover have "distinct (filter (\<lambda>d. log_eav d = ?k) ds)" using ds(2) by (simp add: distinct_map)
  ultimately have "filter (\<lambda>d. log_eav d = ?k) ds = [?d]" by (intro distinct_singleton)
  moreover have "\<forall>q\<in>set (filter (\<lambda>d. log_eav d = ?k) (datoms t)). l_tx q < l_tx ?d"
    using assms(1) r txs [OF r] by (fastforce simp: fresh_rows_def)
  ultimately show "live (t\<lparr>datoms := datoms t @ ds\<rparr>) ?k = (if row_added r then Some (row_tx r) else None)"
    by (simp add: live_def latest_snoc)
qed

section \<open>The projection\<close>

fun pk :: "'x pgx_scheme \<Rightarrow> row \<Rightarrow> proj_key" where
  "pk x (e, a, v, tx, added) = (current_projection_table v, e, a, typed_value_sql_literal x v)"

fun cr :: "'x pgx_scheme \<Rightarrow> int \<Rightarrow> row \<Rightarrow> cur_row" where
  "cr x sid (e, a, v, tx, added) = \<lparr>c_store = sid, c_e = e, c_a = a, c_v = column x v, c_tx = tx\<rparr>"

lemma cr_simps [simp]: "cur_key (cr x sid r) = row_fact x sid r" "c_tx (cr x sid r) = row_tx r"
  by (cases r; simp add: cur_key_def)+

declare row_fact.simps [simp del] pk.simps [simp del] cr.simps [simp del]

lemma proj_step_row:
  "proj_step x sid m r =
     (if row_added r then (AList.update (pk x r) (cr x sid r) (fst m), AList.delete (pk x r) (snd m))
      else (AList.delete (pk x r) (fst m), AList.update (pk x r) (cr x sid r) (snd m)))"
  by (cases m; cases r) (simp add: Let_def pk.simps cr.simps)

lemma pk_inj:
  assumes "literals_ok x" "inj_on (row_fact x sid) (set rows)"
  shows "inj_on (pk x) (set rows)"
proof (rule inj_onI)
  fix r q assume rq: "r \<in> set rows" "q \<in> set rows" and eq: "pk x r = pk x q"
  have "row_fact x sid r = row_fact x sid q"
    using eq by (cases r; cases q) (auto simp: row_fact.simps pk.simps table_type dest: literal_inj [OF assms(1)])
  then show "r = q" by (rule inj_onD [OF assms(2) _ rq])
qed

text \<open>What the two maps hold after the loop, when no value occurs twice in the batch.\<close>

definition ops_hold :: "'x pgx_scheme \<Rightarrow> int \<Rightarrow> row set \<Rightarrow> proj_ops \<Rightarrow> bool" where
  "ops_hold x sid R m \<longleftrightarrow> distinct (map fst m) \<and>
     (\<forall>k c. map_of m k = Some c \<longleftrightarrow> (\<exists>r\<in>R. pk x r = k \<and> cr x sid r = c))"

lemma ops_hold_set:
  assumes "ops_hold x sid R m"
  shows "set m = (\<lambda>r. (pk x r, cr x sid r)) ` R"
proof -
  have "p \<in> set m \<longleftrightarrow> p \<in> (\<lambda>r. (pk x r, cr x sid r)) ` R" for p
  proof (cases p)
    case (Pair k c)
    have "(k, c) \<in> set m \<longleftrightarrow> (\<exists>r\<in>R. pk x r = k \<and> cr x sid r = c)"
      using assms unfolding ops_hold_def by (metis map_of_eq_Some_iff)
    then show ?thesis unfolding Pair by blast
  qed
  then show ?thesis by blast
qed

lemma ops_hold_update:
  assumes "ops_hold x sid R m" "inj_on (pk x) (insert q R)"
  shows "ops_hold x sid (insert q R) (AList.update (pk x q) (cr x sid q) m)"
proof -
  have "r = q" if "r \<in> R" "pk x r = pk x q" for r
    using inj_onD [OF assms(2), of r q] that by blast
  then show ?thesis using assms(1) unfolding ops_hold_def update_conv'
    by (simp add: distinct_update) (metis insert_iff option.inject)
qed

lemma ops_hold_delete:
  assumes "ops_hold x sid R m" "pk x q \<notin> pk x ` R"
  shows "ops_hold x sid R (AList.delete (pk x q) m)"
proof -
  have "map_of m (pk x q) = None"
    using assms unfolding ops_hold_def by (metis image_eqI not_Some_eq)
  then have m: "map_of (AList.delete (pk x q) m) = map_of m" by (simp add: delete_conv' fun_upd_idem)
  have "distinct (map fst (AList.delete (pk x q) m))"
    using assms(1) by (simp only: ops_hold_def distinct_delete)
  then show ?thesis using assms(1) unfolding ops_hold_def m by blast
qed

lemma proj_steps:
  assumes "inj_on (pk x) (set rows)"
  shows "ops_hold x sid {r \<in> set rows. row_added r} (fst (foldl (proj_step x sid) ([], []) rows))
    \<and> ops_hold x sid {r \<in> set rows. \<not> row_added r} (snd (foldl (proj_step x sid) ([], []) rows))"
  using assms
proof (induction rows rule: rev_induct)
  case Nil
  then show ?case by (simp add: ops_hold_def)
next
  case (snoc q rows)
  let ?m = "foldl (proj_step x sid) ([], []) rows"
  let ?A = "{r \<in> set rows. row_added r}" and ?D = "{r \<in> set rows. \<not> row_added r}"
  have IH: "ops_hold x sid ?A (fst ?m)" "ops_hold x sid ?D (snd ?m)"
    using snoc by (auto intro: inj_on_subset)
  have inj: "r = q" if "r \<in> set rows" "pk x r = pk x q" for r
    using inj_onD [OF snoc.prems, of r q] that by simp
  have sets: "{r \<in> set (rows @ [q]). row_added r} = (if row_added q then insert q ?A else ?A)"
    "{r \<in> set (rows @ [q]). \<not> row_added r} = (if row_added q then ?D else insert q ?D)" by auto
  have inj': "inj_on (pk x) (insert q ?A)" "inj_on (pk x) (insert q ?D)"
    by (rule inj_on_subset [OF snoc.prems]; auto)+
  show ?case
  proof (cases "row_added q")
    case True
    have "pk x q \<notin> pk x ` ?D" using inj True by (metis (mono_tags, lifting) imageE mem_Collect_eq)
    then show ?thesis
      using True ops_hold_update [OF IH(1) inj'(1)] ops_hold_delete [OF IH(2)]
      unfolding sets by (simp add: proj_step_row [of x sid ?m q])
  next
    case False
    have "pk x q \<notin> pk x ` ?A" using inj False by (metis (mono_tags, lifting) imageE mem_Collect_eq)
    then show ?thesis
      using False ops_hold_update [OF IH(2) inj'(2)] ops_hold_delete [OF IH(1)]
      unfolding sets by (simp add: proj_step_row [of x sid ?m q])
  qed
qed

text \<open>The statements of the maintenance on the rows of the projection.\<close>

definition cur_map :: "cur_row list \<Rightarrow> fact \<Rightarrow> int option" where
  "cur_map cs = map_of (map (\<lambda>c. (cur_key c, c_tx c)) cs)"

lemma proj_cur_map: "proj t = cur_map (current t)"
  by (simp add: proj_def cur_map_def)

lemma cur_map_Cons: "cur_map (c # cs) = (cur_map cs)(cur_key c \<mapsto> c_tx c)"
  by (simp add: cur_map_def)

lemma cur_map_append: "cur_map (cs @ [r]) = (if cur_key r \<in> cur_key ` set cs then cur_map cs else (cur_map cs)(cur_key r \<mapsto> c_tx r))"
  by (induction cs) (auto simp: cur_map_Cons cur_map_def fun_upd_twist)

lemma cur_map_filter: "cur_map (filter (\<lambda>c. cur_key c \<notin> K) cs) k = (if k \<in> K then None else cur_map cs k)"
  by (induction cs) (auto simp: cur_map_Cons cur_map_def)

lemma cur_key_tx [simp]: "cur_key (c\<lparr>c_tx := tx\<rparr>) = cur_key c"
  by (simp add: cur_key_def)

lemma cur_map_upsert: "cur_map (upsert_cur r cs) = (cur_map cs)(cur_key r \<mapsto> c_tx r)"
proof (cases "cur_key r \<in> cur_key ` set cs")
  case True
  have "cur_map (map (\<lambda>c. if cur_key c = cur_key r then c\<lparr>c_tx := c_tx r\<rparr> else c) cs) k =
      (if k = cur_key r \<and> k \<in> cur_key ` set cs then Some (c_tx r) else cur_map cs k)" for k
    by (induction cs) (auto simp: cur_map_Cons cur_map_def)
  then show ?thesis using True by (auto simp: upsert_cur_def)
next
  case False
  then show ?thesis by (simp add: upsert_cur_def cur_map_append)
qed

lemma keys_upsert_cur:
  "map cur_key (upsert_cur r cs) =
     (if cur_key r \<in> cur_key ` set cs then map cur_key cs else map cur_key cs @ [cur_key r])"
  by (simp add: upsert_cur_def)

lemma distinct_upsert_cur: "distinct (map cur_key cs) \<Longrightarrow> distinct (map cur_key (upsert_cur r cs))"
  by (simp add: keys_upsert_cur)

lemma foldl_upsert_cur:
  assumes "\<forall>r\<in>set rs. c_tx r = tx" and "distinct (map cur_key cs)"
  shows "cur_map (foldl (\<lambda>cs r. upsert_cur r cs) cs rs) k = (if k \<in> cur_key ` set rs then Some tx else cur_map cs k)
    \<and> distinct (map cur_key (foldl (\<lambda>cs r. upsert_cur r cs) cs rs))"
  using assms
proof (induction rs arbitrary: cs)
  case (Cons r rs)
  then show ?case using Cons.IH [of "upsert_cur r cs"] by (simp add: cur_map_upsert distinct_upsert_cur)
qed simp

lemma deletes_eq:
  "foldl (\<lambda>t tab. delete_current (f tab) t) t tabs =
     t\<lparr>current := filter (\<lambda>c. cur_key c \<notin> cur_key ` (\<Union>tab\<in>set tabs. set (f tab))) (current t)\<rparr>"
proof (induction tabs arbitrary: t)
  case (Cons tab tabs)
  show ?case unfolding foldl_Cons Cons.IH
    by (simp add: delete_current_def image_Un conj_commute)
qed simp

lemma inserts_eq:
  assumes "\<And>tab. tab \<in> set tabs \<Longrightarrow> distinct (map cur_key (f tab))"
  shows "foldR (\<lambda>tab t. insert_current (f tab) t) tabs t =
     Inr (t\<lparr>current := foldl (\<lambda>cs r. upsert_cur r cs) (current t) (concat (map f tabs))\<rparr>)"
  using assms by (induction tabs arbitrary: t) (simp_all add: insert_current_def)

lemma ops_rows_all: "(\<Union>tab\<in>set (ops_tables m). set (ops_rows tab m)) = snd ` set m"
  by (force simp: ops_tables_def ops_rows_def)

lemma maintain_proj:
  assumes "literals_ok x" "tx_rows tx rows" "inj_on (row_fact x sid) (set rows)" "distinct (map cur_key (current t))"
  shows "\<exists>cs. maintain_current_projection x sid rows t = Inr (t\<lparr>current := cs\<rparr>)
    \<and> cur_map cs = foldl (abs_step x sid) (proj t) rows \<and> distinct (map cur_key cs)"
proof (cases "rows = []")
  case True
  then show ?thesis using assms(4) by (auto simp: maintain_current_projection_def proj_cur_map intro: exI [of _ "current t"])
next
  case False
  let ?A = "{r \<in> set rows. row_added r}" and ?D = "{r \<in> set rows. \<not> row_added r}"
  obtain ups dels where ud: "foldl (proj_step x sid) ([], []) rows = (ups, dels)" by (metis surj_pair)
  have hold: "ops_hold x sid ?A ups" "ops_hold x sid ?D dels"
    using proj_steps [OF pk_inj [OF assms(1,3)], of sid] by (simp_all add: ud)
  have keys: "cur_key ` snd ` set ups = row_fact x sid ` ?A" "cur_key ` snd ` set dels = row_fact x sid ` ?D"
    by (simp_all add: ops_hold_set [OF hold(1)] ops_hold_set [OF hold(2)] image_image)
  have inj: "inj_on (\<lambda>p. cur_key (snd p)) (set ups)"
  proof (rule inj_onI)
    fix p q assume "p \<in> set ups" "q \<in> set ups" and eq: "cur_key (snd p) = cur_key (snd q)"
    then obtain r u where "r \<in> ?A" "p = (pk x r, cr x sid r)" "u \<in> ?A" "q = (pk x u, cr x sid u)"
      unfolding ops_hold_set [OF hold(1)] by blast
    then show "p = q" using eq inj_onD [OF assms(3), of r u] by simp
  qed
  have "distinct ups" using hold(1) by (simp add: ops_hold_def distinct_map)
  then have dist: "distinct (map cur_key (ops_rows tab ups))" for tab
    using inj by (auto simp: ops_rows_def distinct_map comp_def intro!: inj_on_subset [OF inj])
  let ?cs = "filter (\<lambda>c. cur_key c \<notin> row_fact x sid ` ?D) (current t)"
  let ?rs = "concat (map (\<lambda>tab. ops_rows tab ups) (ops_tables ups))"
  let ?final = "foldl (\<lambda>cs r. upsert_cur r cs) ?cs ?rs"
  have rs: "set ?rs = snd ` set ups" using ops_rows_all [of ups] by simp
  have eq: "maintain_current_projection x sid rows t = Inr (t\<lparr>current := ?final\<rparr>)"
    using False inserts_eq [of "ops_tables ups" "\<lambda>tab. ops_rows tab ups"] dist keys(2)
    by (simp add: maintain_current_projection_def ud deletes_eq ops_rows_all)
  have tx: "\<forall>r\<in>set ?rs. c_tx r = tx"
    using assms(2) unfolding rs ops_hold_set [OF hold(1)] by (auto simp: tx_rows_def)
  have final: "cur_map ?final k = (if k \<in> row_fact x sid ` ?A then Some tx else if k \<in> row_fact x sid ` ?D then None else proj t k)
      \<and> distinct (map cur_key ?final)" for k
    using foldl_upsert_cur [OF tx, of ?cs] assms(4) rs keys(1)
    by (simp add: cur_map_filter distinct_map_filter proj_cur_map del: set_concat)
  have "cur_map ?final = foldl (abs_step x sid) (proj t) rows"
  proof (rule foldl_abs_stepI [OF assms(3)])
    fix k assume "k \<notin> row_fact x sid ` set rows"
    then have "k \<notin> row_fact x sid ` ?A" "k \<notin> row_fact x sid ` ?D" by blast+
    then show "cur_map ?final k = proj t k" using final by simp
  next
    fix r assume r: "r \<in> set rows"
    have "row_fact x sid r \<in> row_fact x sid ` ?A \<longleftrightarrow> row_added r"
      using inj_onD [OF assms(3), of r] r by blast
    moreover have "row_fact x sid r \<in> row_fact x sid ` ?D" if "\<not> row_added r" using r that by blast
    ultimately show "cur_map ?final (row_fact x sid r) = (if row_added r then Some (row_tx r) else None)"
      using final [of "row_fact x sid r"] r assms(2) by (simp add: tx_rows_def)
  qed
  then show ?thesis using eq final by blast
qed

section \<open>The sample instance\<close>

lemma show_int_chars: "c \<in> set (show_int i) \<Longrightarrow> is_digit c \<or> c = CHR ''-''"
  using show_nat_digits by (auto simp: show_int_def split: if_splits)

lemma show_int_split:
  assumes "show_int i @ CHR ''/'' # s = show_int j @ CHR ''/'' # u"
  shows "i = j \<and> s = u"
proof -
  let ?P = "\<lambda>c. c \<noteq> CHR ''/''"
  have t: "takeWhile ?P (show_int k @ CHR ''/'' # w) = show_int k" for k w
  proof -
    have "CHR ''/'' \<notin> set (show_int k)" using show_int_chars [of "CHR ''/''" k] by (auto simp: is_digit_iff)
    then have "\<forall>c\<in>set (show_int k). ?P c" by auto
    then show ?thesis by (simp add: takeWhile_append2)
  qed
  have "show_int i = show_int j" using t [of i s] t [of j u] assms by metis
  then show ?thesis using assms by (simp add: show_int_inj)
qed

lemma literals_ok_sample: "literals_ok sample_pgx"
proof -
  have "inj (\<lambda>q. case quotient_of q of (n, d) \<Rightarrow> show_int n @ ''/'' @ show_int d)"
  proof (rule injI)
    fix p q :: rat
    assume "(case quotient_of p of (n, d) \<Rightarrow> show_int n @ ''/'' @ show_int d) =
      (case quotient_of q of (n, d) \<Rightarrow> show_int n @ ''/'' @ show_int d)"
    then have "quotient_of p = quotient_of q"
      by (auto simp: show_int_inj split: prod.splits dest!: show_int_split)
    then show "p = q" by (rule quotient_of_inject)
  qed
  moreover have "take 1 (show_int n @ s) \<noteq> [CHR 0x27]" for n s
  proof -
    obtain c cs where c: "show_int n = c # cs" by (cases "show_int n") (auto simp: show_int_def split: if_splits)
    then show ?thesis using show_int_chars [of c n] by (auto simp: is_digit_iff)
  qed
  ultimately show ?thesis by (simp add: literals_ok_def sample_pgx_def split: prod.splits)
qed

section \<open>The contract\<close>

lemma write_rows_Inr:
  assumes "literals_ok x" "proj_ok t" "fresh_rows x sid tx rows t" "tx_rows tx rows"
    and inj: "inj_on (row_fact x sid) (set rows)"
  shows "\<exists>t' ds. write_rows x sid rows t = Inr t' \<and> proj_ok t' \<and> proj t' = foldl (abs_step x sid) (proj t) rows
    \<and> datoms t' = datoms t @ ds \<and> set ds = log_values x sid ` set rows"
proof -
  have pks: "primary_keys t" and pl: "proj t = live t" using assms(2) by (auto simp: proj_ok_def)
  obtain ds where ds: "batch_insert_datoms x sid rows t = Inr (t\<lparr>datoms := datoms t @ ds\<rparr>)"
      "set ds = log_values x sid ` set rows" "distinct (map log_key ds)"
    using batch_insert_eq [OF assms(1) pks assms(3,4)] inj by auto
  let ?t1 = "t\<lparr>datoms := datoms t @ ds\<rparr>"
  obtain cs where cs: "maintain_current_projection x sid rows ?t1 = Inr (?t1\<lparr>current := cs\<rparr>)"
      "cur_map cs = foldl (abs_step x sid) (proj ?t1) rows" "distinct (map cur_key cs)"
    using maintain_proj [OF assms(1,4) inj, of ?t1] pks by (auto simp: primary_keys_def)
  have "log_key d \<noteq> log_key q" if d: "d \<in> set (datoms t)" and q: "q \<in> set ds" for d q
  proof
    assume eq: "log_key d = log_key q"
    obtain r where r: "r \<in> set rows" "q = log_values x sid r" using q ds(2) by (metis imageE)
    moreover have "row_tx r = tx" using r(1) assms(4) by (simp add: tx_rows_def)
    ultimately show False using eq d assms(3) unfolding log_key_eav fresh_rows_def by fastforce
  qed
  then have "log_key ` set (datoms t) \<inter> log_key ` set ds = {}" by blast
  then have "primary_keys (?t1\<lparr>current := cs\<rparr>)" using pks ds(3) cs(3) by (simp add: primary_keys_def)
  moreover have "live (?t1\<lparr>current := cs\<rparr>) = foldl (abs_step x sid) (live t) rows"
    using live_append [OF assms(3,4) inj ds(2,3)] by (simp add: live_def fun_eq_iff)
  moreover have "proj (?t1\<lparr>current := cs\<rparr>) = foldl (abs_step x sid) (proj t) rows"
    using cs(2) by (simp add: proj_cur_map)
  ultimately show ?thesis using ds(1,2) cs(1) pl by (auto simp: write_rows_def proj_ok_def)
qed

lemma write_rows_Inl:
  assumes "literals_ok x" "proj_ok t" "fresh_rows x sid tx rows t" "tx_rows tx rows"
    and "\<not> inj_on (row_fact x sid) (set rows)"
  shows "write_rows x sid rows t = Inl CannotAffectRowTwice"
  using batch_insert_eq [OF assms(1) _ assms(3,4)] assms(2,5) by (auto simp: write_rows_def proj_ok_def)

text \<open>C4.  Writing the rows of a transaction refines the abstract store.  Starting from tables
  whose projection is the current state of the log, a transaction that is newer than the log, whose
  rows have values of one type for each entity and attribute, either appends to the
  log, makes the projection the current state of the new log, and changes the abstract store by
  exactly the assertions and retractions of its rows in their order; or it fails, which happens
  precisely when two different rows concern the same stored value.\<close>

theorem write_rows_refines:
  assumes "literals_ok x" "proj_ok t" "fresh_rows x sid tx rows t" "tx_rows tx rows"
  shows "case write_rows x sid rows t of
      Inl err \<Rightarrow> \<not> inj_on (row_fact x sid) (set rows)
    | Inr t' \<Rightarrow> inj_on (row_fact x sid) (set rows) \<and> proj_ok t'
        \<and> proj t' = foldl (abs_step x sid) (proj t) rows \<and> (\<exists>ds. datoms t' = datoms t @ ds)"
proof (cases "inj_on (row_fact x sid) (set rows)")
  case True
  then show ?thesis using write_rows_Inr [OF assms] by auto
next
  case False
  then show ?thesis using write_rows_Inl [OF assms] by simp
qed

definition sample_tables :: tables where
  "sample_tables = \<lparr>datoms = [\<lparr>l_store = 0, l_e = 100, l_a = 65, l_v = TText ''a'', l_tx = 1, l_added = True\<rparr>],
     current = [\<lparr>c_store = 0, c_e = 100, c_a = 65, c_v = TText ''a'', c_tx = 1\<rparr>]\<rparr>"

lemma proj_ok_sample: "proj_ok sample_tables"
  by (auto simp: proj_ok_def primary_keys_def proj_def live_def sample_tables_def log_eav_def cur_key_def)

theorem write_rows_refines_witness:
  "case write_rows sample_pgx 0 [(100, 65, TText ''a'', 2, False), (100, 65, TText ''b'', 2, True)] sample_tables of
      Inl err \<Rightarrow> False
    | Inr t' \<Rightarrow> proj_ok t' \<and> proj t' (0, 100, 65, TText ''a'') = None \<and> proj t' (0, 100, 65, TText ''b'') = Some 2"
proof -
  have "fresh_rows sample_pgx 0 2 [(100, 65, TText ''a'', 2, False), (100, 65, TText ''b'', 2, True)] sample_tables"
    by (simp add: fresh_rows_def sample_tables_def)
  moreover have "tx_rows 2 [(100, 65, TText ''a'', 2, False), (100, 65, TText ''b'', 2, True)]"
    by (simp add: tx_rows_def)
  ultimately show ?thesis
    using write_rows_refines [OF literals_ok_sample proj_ok_sample]
    by (fastforce simp: abs_step_def row_fact.simps split: sum.splits)
qed

text \<open>Rows of one entity and attribute with values of two types can have one SQL literal.  They are taken
  for one row then: one retraction is lost in the log and carried out in the projection.\<close>

lemma two_types_one_literal:
  "map_sum id (verify_current_projection 0)
     (write_rows sample_pgx 0 [(100, 65, TKeyword ''a'', 2, False), (100, 65, TText ''a'', 2, False)] sample_tables) = Inr 1"
  by code_simp

section \<open>Rebuilding and verifying\<close>

lemma map_filter_keys:
  assumes "\<And>k. k \<in> set ks \<Longrightarrow> \<exists>r. f k = Some r \<and> g r = k"
  shows "map g (List.map_filter f ks) = ks"
  using assms by (induction ks) (force simp: List.map_filter_simps split: option.splits)+

lemma set_map_filter: "r \<in> set (List.map_filter f ks) \<longleftrightarrow> (\<exists>k\<in>set ks. f k = Some r)"
  by (induction ks) (auto simp: List.map_filter_simps split: option.splits)

lemma latest_key:
  assumes "k \<in> set (map log_eav rs)"
  obtains r where "latest (filter (\<lambda>r. log_eav r = k) rs) = Some r" "log_eav r = k" "r \<in> set rs"
proof -
  from assms have "filter (\<lambda>r. log_eav r = k) rs \<noteq> []" by (auto simp: filter_empty_conv)
  then obtain r where "latest (filter (\<lambda>r. log_eav r = k) rs) = Some r" by fastforce
  with latest_Some [OF this] show ?thesis using that by simp
qed

lemma resolved_keys: "distinct (map log_eav (resolved store t))"
proof -
  let ?rs = "filter (\<lambda>r. l_store r = store) (datoms t)"
  have "map log_eav (List.map_filter (\<lambda>k. latest (filter (\<lambda>r. log_eav r = k) ?rs)) (remdups (map log_eav ?rs)))
      = remdups (map log_eav ?rs)"
    by (intro map_filter_keys) (metis latest_key set_remdups)
  then show ?thesis unfolding resolved_def Let_def by (metis distinct_map_filter distinct_remdups)
qed

lemma store_filter:
  "fst k = store \<Longrightarrow> filter (\<lambda>r. log_eav r = k) (filter (\<lambda>r. l_store r = store) ds) = filter (\<lambda>r. log_eav r = k) ds"
  by (auto simp: log_eav_def intro: filter_cong)

lemma resolved_live: "r \<in> set (resolved store t) \<longleftrightarrow> l_store r = store \<and> l_added r \<and>
    latest (filter (\<lambda>q. log_eav q = log_eav r) (datoms t)) = Some r"
proof -
  let ?rs = "filter (\<lambda>r. l_store r = store) (datoms t)"
  let ?f = "\<lambda>k. latest (filter (\<lambda>r. log_eav r = k) ?rs)"
  have "r \<in> set (resolved store t) \<longleftrightarrow> l_added r \<and> (\<exists>k\<in>log_eav ` set ?rs. ?f k = Some r)"
    unfolding resolved_def Let_def set_filter mem_Collect_eq set_map_filter set_remdups set_map by blast
  also have "\<dots> \<longleftrightarrow> l_added r \<and> l_store r = store \<and> ?f (log_eav r) = Some r"
  proof (intro conj_cong refl iffI)
    assume "\<exists>k\<in>log_eav ` set ?rs. ?f k = Some r"
    then obtain k where k: "?f k = Some r" by blast
    with latest_Some [OF k] show "l_store r = store \<and> ?f (log_eav r) = Some r" by simp
  next
    assume "l_store r = store \<and> ?f (log_eav r) = Some r"
    with latest_Some [of _ r] show "\<exists>k\<in>log_eav ` set ?rs. ?f k = Some r" by (metis filter_is_subset imageI subsetD)
  qed
  also have "\<dots> \<longleftrightarrow> l_added r \<and> l_store r = store \<and> latest (filter (\<lambda>q. log_eav q = log_eav r) (datoms t)) = Some r"
    using store_filter [of "log_eav r" store "datoms t"] by (auto simp: log_eav_def)
  finally show ?thesis by blast
qed

lemma resolved_map:
  assumes "fst k = store"
  shows "map_of (map (\<lambda>r. (log_eav r, l_tx r)) (resolved store t)) k = live t k"
proof -
  have d: "distinct (map fst (map (\<lambda>r. (log_eav r, l_tx r)) (resolved store t)))"
    using resolved_keys [of store t] by (simp add: comp_def)
  have "map_of (map (\<lambda>r. (log_eav r, l_tx r)) (resolved store t)) k = Some tx \<longleftrightarrow> live t k = Some tx" for tx
  proof -
    have "map_of (map (\<lambda>r. (log_eav r, l_tx r)) (resolved store t)) k = Some tx
        \<longleftrightarrow> (\<exists>r\<in>set (resolved store t). log_eav r = k \<and> l_tx r = tx)"
      unfolding map_of_eq_Some_iff [OF d] by auto
    also have "\<dots> \<longleftrightarrow> live t k = Some tx"
    proof -
      have "r \<in> set (resolved store t) \<and> log_eav r = k \<longleftrightarrow>
          latest (filter (\<lambda>q. log_eav q = k) (datoms t)) = Some r \<and> l_added r" for r
        using assms latest_Some [of "filter (\<lambda>q. log_eav q = k) (datoms t)" r]
        by (auto simp: resolved_live) (auto simp: log_eav_def)
      moreover have "live t k = Some tx \<longleftrightarrow>
          (\<exists>r. latest (filter (\<lambda>q. log_eav q = k) (datoms t)) = Some r \<and> l_added r \<and> l_tx r = tx)"
        by (auto simp: live_def split: option.splits)
      ultimately show ?thesis by blast
    qed
    finally show ?thesis .
  qed
  then show ?thesis by (metis not_Some_eq)
qed

lemma cur_map_other: "k \<notin> cur_key ` set cs \<Longrightarrow> cur_map (cs @ ds) k = cur_map ds k"
  by (induction cs) (auto simp: cur_map_Cons)

lemma cur_map_front: "k \<notin> cur_key ` set ds \<Longrightarrow> cur_map (cs @ ds) k = cur_map cs k"
  by (induction cs) (auto simp: cur_map_Cons cur_map_def map_of_eq_None_iff image_image)

lemma to_cur_simps [simp]: "cur_key (to_cur r) = log_eav r" "c_tx (to_cur r) = l_tx r" "c_store (to_cur r) = l_store r"
  by (simp_all add: to_cur_def cur_key_def log_eav_def)

lemma verify_zero:
  assumes "\<And>k. fst k = store \<Longrightarrow> proj t k = live t k"
  shows "verify_current_projection store t = 0"
proof -
  have P: "k \<in> cur_key ` {c \<in> set (current t). c_store c = store} \<longleftrightarrow> fst k = store \<and> proj t k \<noteq> None" for k
    unfolding proj_def map_of_eq_None_iff by (auto simp: cur_key_def image_image image_iff)
  have L: "k \<in> log_eav ` set (resolved store t) \<longleftrightarrow> fst k = store \<and> live t k \<noteq> None" for k
  proof (cases "fst k = store")
    case True
    show ?thesis unfolding resolved_map [OF True, symmetric] map_of_eq_None_iff by (simp add: True image_image)
  next
    case False
    then show ?thesis by (auto simp: resolved_live log_eav_def)
  qed
  have "log_eav ` set (resolved store t) = cur_key ` {c \<in> set (current t). c_store c = store}"
  proof (rule set_eqI)
    fix k
    show "k \<in> log_eav ` set (resolved store t) \<longleftrightarrow> k \<in> cur_key ` {c \<in> set (current t). c_store c = store}"
      unfolding P L using assms [of k] by metis
  qed
  then show ?thesis by (simp add: verify_current_projection_def filter_empty_conv)
qed

text \<open>C21.  Rebuilding the projection of a store from its log gives exactly the current state of
  the log, leaves the log and the other stores alone and returns the number of live facts;
  afterwards the consistency check reports no disagreement.\<close>

theorem rebuild_current_projection_correct:
  assumes "primary_keys t" and "rebuild_current_projection store t = (t', n)"
  shows "primary_keys t' \<and> datoms t' = datoms t \<and> n = length (filter (\<lambda>c. c_store c = store) (current t'))
    \<and> (\<forall>k. proj t' k = (if fst k = store then live t k else proj t k))
    \<and> verify_current_projection store t' = 0"
proof -
  let ?old = "filter (\<lambda>c. c_store c \<noteq> store) (current t)" and ?new = "map to_cur (resolved store t)"
  have t': "t' = t\<lparr>current := ?old @ ?new\<rparr>" "n = length (resolved store t)"
    using assms(2) by (auto simp: rebuild_current_projection_def Let_def)
  have st: "fst k = store" if "k \<in> cur_key ` set ?new" for k
    using that by (auto simp: resolved_live log_eav_def)
  have so: "fst k \<noteq> store" if "k \<in> cur_key ` set ?old" for k
    using that by (auto simp: cur_key_def)
  have eq: "proj t' k = (if fst k = store then live t k else proj t k)" for k
  proof (cases "fst k = store")
    case True
    then have "k \<notin> cur_key ` set ?old" using so [of k] by blast
    then have "proj t' k = cur_map ?new k" unfolding t' proj_cur_map by (simp add: cur_map_other del: set_filter)
    then show ?thesis using True resolved_map [OF True, of t] by (simp add: cur_map_def comp_def)
  next
    case False
    then have "k \<notin> cur_key ` set ?new" using st [of k] by blast
    then have "proj t' k = cur_map ?old k" unfolding t' proj_cur_map by (simp add: cur_map_front del: set_map)
    also have "?old = filter (\<lambda>c. cur_key c \<notin> {k. fst k = store}) (current t)" by (simp add: cur_key_def)
    finally show ?thesis using False by (simp only: cur_map_filter proj_cur_map) simp
  qed
  have "cur_key ` set ?old \<inter> cur_key ` set ?new = {}" using st so by blast
  then have "primary_keys t'"
    using assms(1) resolved_keys [of store t] by (simp add: t' primary_keys_def distinct_map_filter comp_def image_image)
  moreover have "live t' = live t" by (simp add: t' live_def fun_eq_iff)
  then have "verify_current_projection store t' = 0" using eq by (intro verify_zero) simp
  moreover have "filter (\<lambda>c. c_store c = store) (current t') = ?new"
    by (auto simp: t' filter_empty_conv resolved_live intro!: filter_True)
  ultimately show ?thesis using eq by (simp add: t')
qed

theorem rebuild_current_projection_correct_witness:
  "\<exists>t' n. rebuild_current_projection 0 (sample_tables\<lparr>current := []\<rparr>) = (t', n) \<and>
     proj t' (0, 100, 65, TText ''a'') = Some 1 \<and> verify_current_projection 0 t' = 0"
proof -
  let ?t = "sample_tables\<lparr>current := []\<rparr>"
  obtain t' n where e: "rebuild_current_projection 0 ?t = (t', n)" by (metis surj_pair)
  have pk: "primary_keys ?t" by (simp add: primary_keys_def sample_tables_def)
  have "live ?t (0, 100, 65, TText ''a'') = Some 1" by (simp add: live_def sample_tables_def log_eav_def)
  then show ?thesis using rebuild_current_projection_correct [OF pk e] e by auto
qed

end
