(* ===== verification/Upsert.thy ===== *)
theory Upsert
  imports Typed_Store
begin

text \<open>
  Resolution of \<open>:db.unique/identity\<close> assertions (\<open>execute_transaction_inner\<close>, between the second
  pass and the insertion): entities are remapped to existing ones (phase A), merged within the
  transaction (phase B), the remap chains flattened and applied.  \<open>identity\<close> says which
  attributes are unique by identity and \<open>check\<close> is the lookup \<open>check_unique_typed_value\<close> of the
  store; the map \<open>upsert_remaps\<close> is the ascending list of its entries.
\<close>

record pending_datom =
  p_e :: int
  p_a :: int
  p_v :: typed_value
  p_added :: bool

type_synonym remaps = "(int \<times> int) list"

datatype upsert_error = ConflictingUpsert int int int

definition is_identity_assertion :: "(int \<Rightarrow> bool) \<Rightarrow> pending_datom \<Rightarrow> bool" where
  "is_identity_assertion identity d \<longleftrightarrow> p_added d \<and> identity (p_a d)"

section \<open>Phases\<close>

definition phase_a_step ::
  "(int \<Rightarrow> bool) \<Rightarrow> (int \<Rightarrow> typed_value \<Rightarrow> int option) \<Rightarrow> pending_datom \<Rightarrow> remaps \<Rightarrow> (upsert_error, remaps) result" where
  "phase_a_step identity check d m =
     (if \<not> is_identity_assertion identity d then Inr m
      else case check (p_a d) (p_v d) of
        None \<Rightarrow> Inr m
      | Some existing \<Rightarrow>
          if existing = p_e d then Inr m
          else case bt_get ord_cmp (p_e d) m of
            Some prev \<Rightarrow> if prev \<noteq> existing then Inl (ConflictingUpsert (p_e d) prev existing) else Inr m
          | None \<Rightarrow> Inr (bt_insert ord_cmp (p_e d) existing m))"

definition phase_a ::
  "(int \<Rightarrow> bool) \<Rightarrow> (int \<Rightarrow> typed_value \<Rightarrow> int option) \<Rightarrow> pending_datom list \<Rightarrow> (upsert_error, remaps) result" where
  "phase_a identity check ds = foldR (phase_a_step identity check) ds []"

text \<open>The bounded walk to the end of a remap chain.\<close>

primrec walk :: "nat \<Rightarrow> remaps \<Rightarrow> int \<Rightarrow> int" where
  "walk 0 m e = e"
| "walk (Suc n) m e = (case bt_get ord_cmp e m of
      Some nxt \<Rightarrow> if nxt \<noteq> e then walk n m nxt else e
    | None \<Rightarrow> e)"

definition resolve_root :: "remaps \<Rightarrow> int \<Rightarrow> int" where
  "resolve_root m e = walk (length m + 1) m e"

definition unify :: "pending_datom \<Rightarrow> pending_datom \<Rightarrow> remaps \<Rightarrow> remaps" where
  "unify di dj m =
     (if p_a di \<noteq> p_a dj then m
      else if \<not> tv_eq (p_v di) (p_v dj) then m
      else let root_i = resolve_root m (p_e di); root_j = resolve_root m (p_e dj)
           in if root_i = root_j then m else bt_insert ord_cmp root_j root_i m)"

primrec phase_b :: "pending_datom list \<Rightarrow> remaps \<Rightarrow> remaps" where
  "phase_b [] m = m"
| "phase_b (di # ds) m = phase_b ds (foldl (\<lambda>m dj. unify di dj m) m ds)"

definition flatten_key :: "remaps \<Rightarrow> int \<Rightarrow> remaps" where
  "flatten_key m k = (let root = walk (length m + 1) m k in if root \<noteq> k then bt_insert ord_cmp k root m else m)"

definition flatten :: "remaps \<Rightarrow> remaps" where
  "flatten m = (if m \<noteq> [] then foldl flatten_key m (map fst m) else m)"

section \<open>Application\<close>

definition remap :: "remaps \<Rightarrow> int \<Rightarrow> int" where
  "remap m e = (case bt_get ord_cmp e m of Some n \<Rightarrow> n | None \<Rightarrow> e)"

definition apply_remaps :: "remaps \<Rightarrow> pending_datom \<Rightarrow> pending_datom" where
  "apply_remaps m d = d\<lparr>p_e := remap m (p_e d),
     p_v := (case p_v d of TRef r \<Rightarrow> TRef (remap m r) | v \<Rightarrow> v)\<rparr>"

definition same_assertion :: "pending_datom \<Rightarrow> pending_datom \<Rightarrow> bool" where
  "same_assertion earlier d \<longleftrightarrow> p_added earlier \<and> p_e earlier = p_e d \<and> p_a earlier = p_a d \<and> tv_eq (p_v earlier) (p_v d)"

fun dedup_from :: "pending_datom list \<Rightarrow> pending_datom list \<Rightarrow> pending_datom list" where
  "dedup_from earlier [] = []"
| "dedup_from earlier (d # ds) =
     (if p_added d \<and> list_ex (\<lambda>q. same_assertion q d) earlier
      then dedup_from (earlier @ [d]) ds else d # dedup_from (earlier @ [d]) ds)"

definition apply_upserts ::
  "remaps \<Rightarrow> pending_datom list \<Rightarrow> (string \<times> int) list \<Rightarrow> pending_datom list \<times> (string \<times> int) list" where
  "apply_upserts m ds tempids =
     (if m = [] then (ds, tempids)
      else (dedup_from [] (map (apply_remaps m) ds), map (\<lambda>(t, e). (t, remap m e)) tempids))"

definition final_remaps :: "(int \<Rightarrow> bool) \<Rightarrow> pending_datom list \<Rightarrow> remaps \<Rightarrow> remaps" where
  "final_remaps identity ds m = flatten (phase_b (filter (is_identity_assertion identity) ds) m)"

definition resolve_upserts ::
  "(int \<Rightarrow> bool) \<Rightarrow> (int \<Rightarrow> typed_value \<Rightarrow> int option) \<Rightarrow> pending_datom list \<Rightarrow> (string \<times> int) list \<Rightarrow>
     (upsert_error, pending_datom list \<times> (string \<times> int) list) result" where
  "resolve_upserts identity check ds tempids =
     rbind (phase_a identity check ds) (\<lambda>m. Inr (apply_upserts (final_remaps identity ds m) ds tempids))"

section \<open>Chains\<close>

interpretation int_ord: rust_ord_eq "ord_cmp :: int \<Rightarrow> int \<Rightarrow> ordering" "\<lambda>_. True"
  by unfold_locales simp_all

abbreviation wf_remaps :: "remaps \<Rightarrow> bool" where
  "wf_remaps m \<equiv> ascending ord_cmp (map fst m)"

lemma get_insert [simp]:
  "wf_remaps m \<Longrightarrow> bt_get ord_cmp k' (bt_insert ord_cmp k v m) = (if k' = k then Some v else bt_get ord_cmp k' m)"
  by (simp add: int_ord.bt_get_insert)

lemma wf_insert [simp]: "wf_remaps m \<Longrightarrow> wf_remaps (bt_insert ord_cmp k v m)"
  by (rule int_ord.ascending_bt_insert)

lemma length_insert:
  "wf_remaps m \<Longrightarrow> length (bt_insert ord_cmp k v m) = (if bt_get ord_cmp k m = None then Suc (length m) else length m)"
  by (induction m) (auto simp: int_ord.cmp_Greater split: ordering.splits)

definition is_root :: "remaps \<Rightarrow> int \<Rightarrow> bool" where
  "is_root m e \<longleftrightarrow> bt_get ord_cmp e m = None \<or> bt_get ord_cmp e m = Some e"

text \<open>Every chain ends within the bound of the walk.\<close>

definition settled :: "remaps \<Rightarrow> bool" where
  "settled m \<longleftrightarrow> wf_remaps m \<and> (\<forall>e. bt_get ord_cmp e m \<noteq> Some e) \<and> (\<forall>e. is_root m (resolve_root m e))"

lemma walk_root: "is_root m e \<Longrightarrow> walk n m e = e"
  by (cases n) (auto simp: is_root_def)

lemma walk_more: "is_root m (walk n m e) \<Longrightarrow> n \<le> k \<Longrightarrow> walk k m e = walk n m e"
proof (induction n arbitrary: e k)
  case 0
  then show ?case by (simp add: walk_root)
next
  case (Suc n)
  then obtain k' where k: "k = Suc k'" "n \<le> k'" by (cases k) auto
  show ?case
  proof (cases "bt_get ord_cmp e m")
    case (Some x)
    show ?thesis
    proof (cases "x = e")
      case False
      then have "walk k' m x = walk n m x" using Suc.IH [of x k'] Suc.prems(1) k(2) Some by simp
      then show ?thesis using Some False k by simp
    qed (use Some k in simp)
  qed (use k in simp)
qed

lemma walk_redirect:
  assumes "wf_remaps m" "is_root m j" "is_root m i" "i \<noteq> j" "is_root m (walk n m e)"
  shows "walk (Suc n) (bt_insert ord_cmp j i m) e = (if walk n m e = j then i else walk n m e)"
  using assms(5)
proof (induction n arbitrary: e)
  case 0
  have "is_root (bt_insert ord_cmp j i m) i" using assms by (simp add: is_root_def)
  then show ?case using 0 assms by (auto simp: is_root_def)
next
  case (Suc n)
  have ri: "is_root (bt_insert ord_cmp j i m) i" using assms by (simp add: is_root_def)
  show ?case
  proof (cases "is_root m e")
    case True
    show ?thesis
    proof (cases "e = j")
      case True
      then show ?thesis using assms(1,4) walk_root [OF ri] walk_root [OF assms(2)] by (simp del: walk.simps(2) add: walk.simps(2) [of n "bt_insert ord_cmp j i m"] walk.simps(2) [of "Suc n" "bt_insert ord_cmp j i m"])
    next
      case False
      then have "is_root (bt_insert ord_cmp j i m) e" using True assms(1) by (simp add: is_root_def)
      then show ?thesis using False walk_root [OF True] walk_root by metis
    qed
  next
    case False
    then obtain x where x: "bt_get ord_cmp e m = Some x" "x \<noteq> e" by (auto simp: is_root_def)
    then have "e \<noteq> j" using assms(2) by (auto simp: is_root_def)
    then show ?thesis using x Suc assms(1) by simp
  qed
qed

lemma settled_redirect:
  assumes "settled m" "is_root m i" "is_root m j" "i \<noteq> j"
  shows "settled (bt_insert ord_cmp j i m)"
    and "resolve_root (bt_insert ord_cmp j i m) e = (if resolve_root m e = j then i else resolve_root m e)"
proof -
  have wf: "wf_remaps m" and rt: "is_root m (walk (length m + 1) m e)" for e
    using assms(1) by (auto simp: settled_def resolve_root_def)
  have none: "bt_get ord_cmp j m = None" using assms(1,3) by (auto simp: settled_def is_root_def)
  show eq: "resolve_root (bt_insert ord_cmp j i m) e = (if resolve_root m e = j then i else resolve_root m e)" for e
    using walk_redirect [OF wf assms(3,2,4) rt] none wf by (simp add: resolve_root_def length_insert)
  have "is_root (bt_insert ord_cmp j i m) (resolve_root (bt_insert ord_cmp j i m) e)" for e
    using assms wf by (auto simp: eq settled_def is_root_def)
  then show "settled (bt_insert ord_cmp j i m)" using assms(1,4) wf by (auto simp: settled_def)
qed

section \<open>Merging\<close>

definition matching :: "pending_datom \<Rightarrow> pending_datom \<Rightarrow> bool" where
  "matching di dj \<longleftrightarrow> p_a di = p_a dj \<and> tv_eq (p_v di) (p_v dj)"

definition merges :: "remaps \<Rightarrow> remaps \<Rightarrow> bool" where
  "merges m m' \<longleftrightarrow> (\<forall>e f. resolve_root m e = resolve_root m f \<longrightarrow> resolve_root m' e = resolve_root m' f)"

lemma merges_refl [simp]: "merges m m" by (simp add: merges_def)

lemma merges_trans: "merges m m' \<Longrightarrow> merges m' m'' \<Longrightarrow> merges m m''"
  unfolding merges_def by blast

lemma mergesD: "merges m m' \<Longrightarrow> resolve_root m e = resolve_root m f \<Longrightarrow> resolve_root m' e = resolve_root m' f"
  unfolding merges_def by blast

lemma unify_settled:
  assumes "settled m"
  shows "settled (unify di dj m) \<and> merges m (unify di dj m) \<and>
    (matching di dj \<longrightarrow> resolve_root (unify di dj m) (p_e di) = resolve_root (unify di dj m) (p_e dj))"
proof -
  let ?i = "resolve_root m (p_e di)" and ?j = "resolve_root m (p_e dj)"
  have roots: "is_root m ?i" "is_root m ?j" using assms by (simp_all add: settled_def)
  show ?thesis
  proof (cases "matching di dj \<and> ?i \<noteq> ?j")
    case True
    then have u: "unify di dj m = bt_insert ord_cmp ?j ?i m" by (simp add: unify_def matching_def)
    note sr = settled_redirect [OF assms roots]
    show ?thesis unfolding u using True sr by (simp add: merges_def)
  next
    case False
    then have "unify di dj m = m" by (auto simp: unify_def matching_def Let_def)
    then show ?thesis using assms False by auto
  qed
qed

lemma unify_all:
  assumes "settled m"
  shows "settled (foldl (\<lambda>m dj. unify di dj m) m ds) \<and> merges m (foldl (\<lambda>m dj. unify di dj m) m ds) \<and>
    (\<forall>dj\<in>set ds. matching di dj \<longrightarrow>
       resolve_root (foldl (\<lambda>m dj. unify di dj m) m ds) (p_e di) = resolve_root (foldl (\<lambda>m dj. unify di dj m) m ds) (p_e dj))"
  using assms
proof (induction ds arbitrary: m)
  case (Cons dj ds)
  have u: "settled (unify di dj m)" "merges m (unify di dj m)"
    "matching di dj \<Longrightarrow> resolve_root (unify di dj m) (p_e di) = resolve_root (unify di dj m) (p_e dj)"
    using unify_settled [OF Cons.prems] by blast+
  let ?f = "foldl (\<lambda>m dj. unify di dj m) (unify di dj m) ds"
  have IH: "settled ?f" "merges (unify di dj m) ?f"
    "\<And>d. d \<in> set ds \<Longrightarrow> matching di d \<Longrightarrow> resolve_root ?f (p_e di) = resolve_root ?f (p_e d)"
    using Cons.IH [OF u(1)] by blast+
  have "matching di dj \<Longrightarrow> resolve_root ?f (p_e di) = resolve_root ?f (p_e dj)"
    using mergesD [OF IH(2) u(3)] by blast
  then show ?case using IH(1,3) merges_trans [OF u(2) IH(2)] by auto
qed simp

lemma phase_b_merges:
  assumes "settled m"
  shows "settled (phase_b ds m) \<and> merges m (phase_b ds m) \<and>
    (\<forall>i j. i < j \<and> j < length ds \<and> matching (ds ! i) (ds ! j) \<longrightarrow>
       resolve_root (phase_b ds m) (p_e (ds ! i)) = resolve_root (phase_b ds m) (p_e (ds ! j)))"
  using assms
proof (induction ds arbitrary: m)
  case (Cons d ds)
  let ?m1 = "foldl (\<lambda>m dj. unify d dj m) m ds"
  have s1: "settled ?m1" and m1: "merges m ?m1"
    and e1: "\<And>dj. dj \<in> set ds \<Longrightarrow> matching d dj \<Longrightarrow> resolve_root ?m1 (p_e d) = resolve_root ?m1 (p_e dj)"
    using unify_all [OF Cons.prems] by blast+
  have IH: "settled (phase_b ds ?m1)" "merges ?m1 (phase_b ds ?m1)"
    "\<And>i j. i < j \<Longrightarrow> j < length ds \<Longrightarrow> matching (ds ! i) (ds ! j) \<Longrightarrow>
       resolve_root (phase_b ds ?m1) (p_e (ds ! i)) = resolve_root (phase_b ds ?m1) (p_e (ds ! j))"
    using Cons.IH [OF s1] by blast+
  have "resolve_root (phase_b (d # ds) m) (p_e ((d # ds) ! i)) = resolve_root (phase_b (d # ds) m) (p_e ((d # ds) ! j))"
    if ij: "i < j" "j < length (d # ds)" "matching ((d # ds) ! i) ((d # ds) ! j)" for i j
  proof (cases i)
    case 0
    then obtain j' where j': "j = Suc j'" "j' < length ds" using ij by (cases j) auto
    then have "resolve_root ?m1 (p_e d) = resolve_root ?m1 (p_e (ds ! j'))" using ij 0 e1 by simp
    from mergesD [OF IH(2) this] show ?thesis using 0 j' by simp
  next
    case (Suc i')
    then obtain j' where "j = Suc j'" using ij by (cases j) auto
    then show ?thesis using ij Suc IH(3) [of i' j'] by simp
  qed
  moreover have "merges m (phase_b (d # ds) m)" using merges_trans [OF m1 IH(2)] by simp
  ultimately show ?case using IH(1) by (simp only: phase_b.simps) blast
qed simp

section \<open>Flattening\<close>

lemma get_None: "wf_remaps m \<Longrightarrow> bt_get ord_cmp k m = None \<longleftrightarrow> k \<notin> fst ` set m"
  by (induction m) (auto split: ordering.splits dest: order.strict_trans)

lemma walk_shortcut:
  assumes "wf_remaps m" "is_root m r" "r \<noteq> k" "bt_get ord_cmp k m \<noteq> None" "\<not> is_root m k"
    and "\<And>n. is_root m (walk n m k) \<Longrightarrow> walk n m k = r"
    and "is_root m (walk n m e)"
  shows "walk n (bt_insert ord_cmp k r m) e = walk n m e"
  using assms(7)
proof (induction n arbitrary: e)
  case (Suc n)
  have r: "is_root (bt_insert ord_cmp k r m) r" using assms(1-3) by (simp add: is_root_def)
  show ?case
  proof (cases "e = k")
    case True
    then have "walk (Suc n) m e = r" using Suc.prems assms(6) by blast
    then show ?thesis using True assms(1,3) walk_root [OF r] by (simp del: walk.simps(2) add: walk.simps(2) [of n "bt_insert ord_cmp k r m"])
  next
    case False
    then show ?thesis using Suc assms(1) by (auto split: option.splits)
  qed
qed simp

lemma flatten_key_settled:
  assumes "settled m" "bt_get ord_cmp k m \<noteq> None"
  shows "settled (flatten_key m k) \<and> (\<forall>e. resolve_root (flatten_key m k) e = resolve_root m e)
    \<and> (\<forall>e. bt_get ord_cmp e (flatten_key m k) = (if e = k then Some (resolve_root m k) else bt_get ord_cmp e m))"
proof -
  let ?r = "resolve_root m k"
  have wf: "wf_remaps m" and rt: "is_root m (resolve_root m e)" and ns: "bt_get ord_cmp e m \<noteq> Some e" for e
    using assms(1) by (auto simp: settled_def)
  have nk: "\<not> is_root m k" using assms(2) ns by (simp add: is_root_def)
  then have rk: "?r \<noteq> k" using rt [of k] by metis
  have m': "flatten_key m k = bt_insert ord_cmp k ?r m"
    using rk by (simp add: flatten_key_def resolve_root_def)
  have uniq: "walk n m k = ?r" if "is_root m (walk n m k)" for n
    using that rt [of k] walk_more [of m n k "length m + 1"] walk_more [of m "length m + 1" k n]
    unfolding resolve_root_def by (metis nle_le)
  have len: "length (bt_insert ord_cmp k ?r m) = length m" using assms(2) wf by (simp add: length_insert)
  have roots: "resolve_root (bt_insert ord_cmp k ?r m) e = resolve_root m e" for e
  proof -
    have "is_root m (walk (length m + 1) m e)" using rt [of e] by (simp add: resolve_root_def)
    from walk_shortcut [OF wf rt rk assms(2) nk uniq this] show ?thesis
      using len by (simp add: resolve_root_def del: walk.simps)
  qed
  have "is_root (bt_insert ord_cmp k ?r m) (resolve_root m e)" for e
    using rt [of e] nk wf by (auto simp: is_root_def)
  then show ?thesis unfolding m' using wf ns rk by (simp add: settled_def roots)
qed

lemma foldl_flatten_key:
  assumes "settled m" "\<forall>k\<in>set ks. bt_get ord_cmp k m \<noteq> None"
  shows "settled (foldl flatten_key m ks)
    \<and> (\<forall>e. bt_get ord_cmp e (foldl flatten_key m ks) = (if e \<in> set ks then Some (resolve_root m e) else bt_get ord_cmp e m))"
  using assms
proof (induction ks arbitrary: m)
  case (Cons k ks)
  have f: "settled (flatten_key m k)" "resolve_root (flatten_key m k) e = resolve_root m e"
    "bt_get ord_cmp e (flatten_key m k) = (if e = k then Some (resolve_root m k) else bt_get ord_cmp e m)" for e
    using flatten_key_settled [OF Cons.prems(1), of k] Cons.prems(2) by simp_all
  have "\<forall>k'\<in>set ks. bt_get ord_cmp k' (flatten_key m k) \<noteq> None" using Cons.prems(2) f(3) by simp
  note IH = Cons.IH [OF f(1) this]
  show ?case using IH f(2,3) by auto
qed simp

lemma remap_flatten:
  assumes "settled m"
  shows "remap (flatten m) e = resolve_root m e"
proof (cases "m = []")
  case True
  then show ?thesis by (simp add: flatten_def remap_def resolve_root_def)
next
  case False
  have wf: "wf_remaps m" using assms by (simp add: settled_def)
  have "bt_get ord_cmp e (flatten m) = (if e \<in> fst ` set m then Some (resolve_root m e) else None)"
    using foldl_flatten_key [OF assms, of "map fst m"] get_None [OF wf] False by (auto simp: flatten_def)
  moreover have "resolve_root m e = e" if "e \<notin> fst ` set m"
    using that get_None [OF wf, of e] unfolding resolve_root_def by (intro walk_root) (simp add: is_root_def)
  ultimately show ?thesis by (simp add: remap_def)
qed

section \<open>The resolution as a whole\<close>

text \<open>No entity that phase A remaps to is itself remapped by it: the existing entities that
  occur in the transaction assert only identity values that are theirs or nobody's.\<close>

definition existing_stable ::
  "(int \<Rightarrow> bool) \<Rightarrow> (int \<Rightarrow> typed_value \<Rightarrow> int option) \<Rightarrow> pending_datom list \<Rightarrow> bool" where
  "existing_stable identity check ds \<longleftrightarrow>
     (\<forall>d\<in>set ds. \<forall>d'\<in>set ds. is_identity_assertion identity d \<and> is_identity_assertion identity d' \<and>
        check (p_a d) (p_v d) = Some (p_e d') \<longrightarrow> check (p_a d') (p_v d') \<in> {None, Some (p_e d')})"

text \<open>Where the entries of phase A come from, and that every identity assertion of an existing
  value has one.\<close>

definition phase_a_inv ::
  "(int \<Rightarrow> bool) \<Rightarrow> (int \<Rightarrow> typed_value \<Rightarrow> int option) \<Rightarrow> pending_datom set \<Rightarrow> remaps \<Rightarrow> bool" where
  "phase_a_inv identity check D m \<longleftrightarrow> wf_remaps m \<and>
     (\<forall>k x. bt_get ord_cmp k m = Some x \<longrightarrow> x \<noteq> k \<and>
        (\<exists>d\<in>D. is_identity_assertion identity d \<and> p_e d = k \<and> check (p_a d) (p_v d) = Some x))"

lemma phase_a_step_inv:
  assumes "phase_a_step identity check d m = Inr m'" "phase_a_inv identity check D m" "d \<in> D"
  shows "phase_a_inv identity check D m' \<and>
    (is_identity_assertion identity d \<longrightarrow> (\<forall>x. check (p_a d) (p_v d) = Some x \<longrightarrow> x = p_e d \<or> bt_get ord_cmp (p_e d) m' = Some x)) \<and>
    (\<forall>k x. bt_get ord_cmp k m = Some x \<longrightarrow> bt_get ord_cmp k m' = Some x)"
  using assms unfolding phase_a_inv_def
  by (auto simp: phase_a_step_def split: if_splits option.splits) blast

lemma phase_a_result:
  assumes "foldR (phase_a_step identity check) ds m = Inr m'" "phase_a_inv identity check D m" "set ds \<subseteq> D"
  shows "phase_a_inv identity check D m' \<and>
    (\<forall>d\<in>set ds. is_identity_assertion identity d \<longrightarrow> (\<forall>x. check (p_a d) (p_v d) = Some x \<longrightarrow> x = p_e d \<or> bt_get ord_cmp (p_e d) m' = Some x)) \<and>
    (\<forall>k x. bt_get ord_cmp k m = Some x \<longrightarrow> bt_get ord_cmp k m' = Some x)"
  using assms
proof (induction ds arbitrary: m)
  case (Cons d ds)
  then obtain u where u: "phase_a_step identity check d m = Inr u" "foldR (phase_a_step identity check) ds u = Inr m'"
    by (auto simp: rbind_eq_Inr)
  have "d \<in> D" "set ds \<subseteq> D" using Cons.prems(3) by auto
  note st = phase_a_step_inv [OF u(1) Cons.prems(2) this(1)]
  from st have "phase_a_inv identity check D u" by blast
  from Cons.IH [OF u(2) this \<open>set ds \<subseteq> D\<close>] st show ?case by (simp only: set_simps) blast
qed simp

lemma settled_direct:
  assumes "wf_remaps m" "\<And>k x. bt_get ord_cmp k m = Some x \<Longrightarrow> x \<noteq> k \<and> bt_get ord_cmp x m = None"
  shows "settled m"
proof -
  have "is_root m (resolve_root m e)" for e
  proof (cases "bt_get ord_cmp e m")
    case None
    then have "is_root m e" by (simp add: is_root_def)
    then show ?thesis by (simp add: resolve_root_def walk_root del: walk.simps)
  next
    case (Some x)
    then have "is_root m x" "x \<noteq> e" using assms(2) by (auto simp: is_root_def)
    then show ?thesis using Some by (simp add: resolve_root_def walk_root)
  qed
  then show ?thesis using assms by (auto simp: settled_def)
qed

lemma resolve_root_next:
  assumes "settled m" "bt_get ord_cmp e m = Some x"
  shows "resolve_root m e = resolve_root m x"
proof -
  have "x \<noteq> e" using assms by (auto simp: settled_def)
  then have w: "walk (length m + 1) m e = walk (length m) m x" using assms(2) by simp
  moreover have "is_root m (walk (length m + 1) m e)" using assms(1) by (simp add: settled_def resolve_root_def del: walk.simps)
  ultimately show ?thesis using walk_more [of m "length m" x "length m + 1"] by (simp add: resolve_root_def del: walk.simps)
qed

lemma phase_a_settled:
  assumes "phase_a identity check ds = Inr m" "existing_stable identity check ds"
  shows "settled m \<and> (\<forall>d\<in>set ds. is_identity_assertion identity d \<longrightarrow>
     (\<forall>x. check (p_a d) (p_v d) = Some x \<longrightarrow> resolve_root m (p_e d) = resolve_root m x))"
proof -
  have "phase_a_inv identity check (set ds) []" by (simp add: phase_a_inv_def)
  note r = phase_a_result [OF assms(1) [unfolded phase_a_def] this order_refl]
  have inv: "phase_a_inv identity check (set ds) m" using r by blast
  have "settled m"
  proof (rule settled_direct)
    show "wf_remaps m" using inv by (simp add: phase_a_inv_def)
    fix k x assume kx: "bt_get ord_cmp k m = Some x"
    then obtain d where d: "d \<in> set ds" "is_identity_assertion identity d" "check (p_a d) (p_v d) = Some x" "x \<noteq> k"
      using inv unfolding phase_a_inv_def by blast
    have "bt_get ord_cmp x m \<noteq> Some y" for y
    proof
      assume "bt_get ord_cmp x m = Some y"
      then obtain d' where "d' \<in> set ds" "is_identity_assertion identity d'" "p_e d' = x"
          "check (p_a d') (p_v d') = Some y" "y \<noteq> x"
        using inv unfolding phase_a_inv_def by blast
      then show False using d assms(2) unfolding existing_stable_def by fastforce
    qed
    then show "x \<noteq> k \<and> bt_get ord_cmp x m = None" using d(4) by auto
  qed
  then show ?thesis using r resolve_root_next by metis
qed

lemma tv_eq_sym: "tv_eq v w \<longleftrightarrow> tv_eq w v" by (auto simp: tv_eq_def)

lemma phase_b_pairs:
  assumes "settled m" "d \<in> set ds" "d' \<in> set ds" "matching d d'"
  shows "resolve_root (phase_b ds m) (p_e d) = resolve_root (phase_b ds m) (p_e d')"
proof -
  obtain i j where ij: "i < length ds" "d = ds ! i" "j < length ds" "d' = ds ! j"
    using assms(2,3) by (metis in_set_conv_nth)
  have "matching d' d" using assms(4) by (auto simp: matching_def tv_eq_sym)
  then show ?thesis using phase_b_merges [OF assms(1), of ds] ij assms(4)
    by (cases i j rule: linorder_cases) metis+
qed

lemma final_remaps_unify:
  assumes "phase_a identity check ds = Inr m0" "existing_stable identity check ds"
  defines "m \<equiv> final_remaps identity ds m0"
  shows "d \<in> set ds \<Longrightarrow> d' \<in> set ds \<Longrightarrow> is_identity_assertion identity d \<Longrightarrow> is_identity_assertion identity d' \<Longrightarrow> matching d d'
      \<Longrightarrow> remap m (p_e d) = remap m (p_e d')"
    "d \<in> set ds \<Longrightarrow> is_identity_assertion identity d \<Longrightarrow> check (p_a d) (p_v d) = Some y \<Longrightarrow> remap m (p_e d) = remap m y"
    "remap m (remap m e) = remap m e"
proof -
  let ?ds = "filter (is_identity_assertion identity) ds"
  let ?m = "phase_b ?ds m0"
  note A = phase_a_settled [OF assms(1,2)]
  then have B: "settled ?m" "merges m0 ?m" using phase_b_merges [of m0 ?ds] by blast+
  have r: "remap m e = resolve_root ?m e" for e
    using remap_flatten [OF B(1)] by (simp add: final_remaps_def m_def)
  have "is_root ?m (resolve_root ?m e)" for e using B(1) by (simp add: settled_def)
  then have "resolve_root ?m (resolve_root ?m e) = resolve_root ?m e" for e
    unfolding resolve_root_def [of ?m "resolve_root ?m e"] by (rule walk_root)
  then show "remap m (remap m e) = remap m e" by (simp add: r)
  show "remap m (p_e d) = remap m (p_e d')"
    if "d \<in> set ds" "d' \<in> set ds" "is_identity_assertion identity d" "is_identity_assertion identity d'" "matching d d'"
    using phase_b_pairs [of m0 d ?ds d'] A that by (simp add: r)
  show "remap m (p_e d) = remap m y"
    if "d \<in> set ds" "is_identity_assertion identity d" "check (p_a d) (p_v d) = Some y"
    using mergesD [OF B(2)] A that unfolding r by blast
qed

text \<open>Removing repeated assertions removes nothing else.\<close>

lemma same_assertion_eq: "same_assertion q d \<Longrightarrow> p_added d \<Longrightarrow> q = d"
  by (cases q; cases d) (auto simp: same_assertion_def tv_eq_def split: if_splits typed_value.splits)

lemma dedup_from_set: "set earlier \<union> set (dedup_from earlier ds) = set earlier \<union> set ds"
proof (induction earlier ds rule: dedup_from.induct)
  case (2 earlier d ds)
  have "d \<in> set earlier" if "p_added d" "list_ex (\<lambda>q. same_assertion q d) earlier"
    using that same_assertion_eq by (auto simp: list_ex_iff)
  then show ?case using 2 by auto
qed simp

lemma dedup_from_once:
  "sorted_wrt (\<lambda>p q. \<not> (p_added q \<and> same_assertion p q)) (dedup_from earlier ds)
   \<and> (\<forall>p\<in>set earlier. \<forall>q\<in>set (dedup_from earlier ds). \<not> (p_added q \<and> same_assertion p q))"
proof (induction earlier ds rule: dedup_from.induct)
  case (2 earlier d ds)
  show ?case
  proof (cases "p_added d \<and> list_ex (\<lambda>q. same_assertion q d) earlier")
    case True
    then show ?thesis using 2(1) [OF True] by simp
  next
    case False
    then have "\<not> (p_added d \<and> same_assertion p d)" if "p \<in> set earlier" for p using that by (auto simp: list_ex_iff)
    then show ?thesis using 2(2) [OF False] False by (simp only: dedup_from.simps if_False sorted_wrt.simps set_simps set_append) blast
  qed
qed simp

lemma apply_remaps_Nil: "apply_remaps [] d = d" "remap [] e = e"
  by (cases d; auto simp: apply_remaps_def remap_def split: typed_value.splits)+

text \<open>C11.  Upsert resolution gives every identity one entity.  When no entity that the database
  resolves to is itself remapped by the database, there is one remap of entities, final in that
  applying it again changes nothing, such that all assertions of one identity value are on one
  entity, and an assertion of a value that the database holds is on the entity that its holder is
  mapped to.  The resolved datoms are the given ones under this remap, without an assertion twice
  if anything is remapped, and the tempids follow it.\<close>

theorem resolve_upserts_unify:
  assumes "resolve_upserts identity check ds tempids = Inr (ds', tempids')" "existing_stable identity check ds"
  shows "\<exists>m. set ds' = apply_remaps m ` set ds \<and> tempids' = map (\<lambda>(t, e). (t, remap m e)) tempids
   \<and> (\<forall>d\<in>set ds. \<forall>d'\<in>set ds. is_identity_assertion identity d \<and> is_identity_assertion identity d' \<and> matching d d'
        \<longrightarrow> p_e (apply_remaps m d) = p_e (apply_remaps m d'))
   \<and> (\<forall>d\<in>set ds. \<forall>y. is_identity_assertion identity d \<and> check (p_a d) (p_v d) = Some y
        \<longrightarrow> p_e (apply_remaps m d) = remap m y)
   \<and> (\<forall>e. remap m (remap m e) = remap m e)
   \<and> (m \<noteq> [] \<longrightarrow> sorted_wrt (\<lambda>p q. \<not> (p_added q \<and> same_assertion p q)) ds')"
proof -
  obtain m0 where m0: "phase_a identity check ds = Inr m0" "(ds', tempids') = apply_upserts (final_remaps identity ds m0) ds tempids"
    using assms(1) by (auto simp: resolve_upserts_def rbind_eq_Inr)
  let ?m = "final_remaps identity ds m0"
  have "set ds' = apply_remaps ?m ` set ds" "tempids' = map (\<lambda>(t, e). (t, remap ?m e)) tempids"
    using m0(2) dedup_from_set [of "[]" "map (apply_remaps ?m) ds"]
    by (auto simp: apply_upserts_def apply_remaps_Nil split: if_splits)
  moreover have "?m \<noteq> [] \<longrightarrow> sorted_wrt (\<lambda>p q. \<not> (p_added q \<and> same_assertion p q)) ds'"
    using m0(2) dedup_from_once [of "[]" "map (apply_remaps ?m) ds"] by (auto simp: apply_upserts_def)
  ultimately show ?thesis using final_remaps_unify [OF m0(1) assms(2)]
    by (intro exI [of _ ?m]) (simp add: apply_remaps_def)
qed

definition sample_identities :: "pending_datom list" where
  "sample_identities = [\<lparr>p_e = 10001, p_a = 65, p_v = TText ''x'', p_added = True\<rparr>,
     \<lparr>p_e = 10002, p_a = 66, p_v = TLong 1, p_added = True\<rparr>, \<lparr>p_e = 10003, p_a = 66, p_v = TLong 1, p_added = True\<rparr>]"

definition sample_check :: "int \<Rightarrow> typed_value \<Rightarrow> int option" where
  "sample_check a v = (if a = 65 \<and> v = TText ''x'' then Some 500 else None)"

theorem resolve_upserts_unify_witness:
  "\<exists>ds' m. resolve_upserts (\<lambda>_. True) sample_check sample_identities [(''t'', 10003)] = Inr (ds', [(''t'', 10002)])
     \<and> length ds' = 2 \<and> set ds' = apply_remaps m ` set sample_identities \<and> remap m 10002 = remap m 10003 \<and> remap m 10001 = remap m 500"
proof -
  let ?r = "projr (resolve_upserts (\<lambda>_. True) sample_check sample_identities [(''t'', 10003)])"
  have r: "resolve_upserts (\<lambda>_. True) sample_check sample_identities [(''t'', 10003)] = Inr (fst ?r, snd ?r)"
    "length (fst ?r) = 2" "snd ?r = [(''t'', 10002)]" by code_simp+
  have "existing_stable (\<lambda>_. True) sample_check sample_identities"
    by (simp add: existing_stable_def sample_check_def sample_identities_def)
  then obtain m where m: "set (fst ?r) = apply_remaps m ` set sample_identities"
      "\<forall>d\<in>set sample_identities. \<forall>d'\<in>set sample_identities. is_identity_assertion (\<lambda>_. True) d \<and> is_identity_assertion (\<lambda>_. True) d'
         \<and> matching d d' \<longrightarrow> p_e (apply_remaps m d) = p_e (apply_remaps m d')"
      "\<forall>d\<in>set sample_identities. \<forall>y. is_identity_assertion (\<lambda>_. True) d \<and> sample_check (p_a d) (p_v d) = Some y
         \<longrightarrow> p_e (apply_remaps m d) = remap m y" by (rule resolve_upserts_unify [OF r(1), THEN exE]) (elim conjE, rule that; assumption)
  have d: "sample_identities ! i \<in> set sample_identities" if "i < 3" for i
    using that by (intro nth_mem) (simp add: sample_identities_def)
  have "p_e (apply_remaps m (sample_identities ! 1)) = p_e (apply_remaps m (sample_identities ! 2))"
    by (rule m(2) [rule_format, OF d d]) (simp_all add: sample_identities_def is_identity_assertion_def matching_def tv_eq_def)
  moreover have "p_e (apply_remaps m (sample_identities ! 0)) = remap m 500"
    by (rule m(3) [rule_format, OF d]) (simp_all add: sample_identities_def sample_check_def is_identity_assertion_def)
  ultimately have "remap m 10002 = remap m 10003" "remap m 10001 = remap m 500"
    by (simp_all add: sample_identities_def apply_remaps_def)
  then show ?thesis using r m(1) by metis
qed

text \<open>The holder of a value need not keep its id.  A new entity that comes first and shares an identity
  value with a tempid that the database resolves to the entity 500 takes the entity's place.\<close>

lemma existing_remapped:
  defines "ds \<equiv> [\<lparr>p_e = 10001, p_a = 66, p_v = TLong 1, p_added = True\<rparr>, \<lparr>p_e = 10002, p_a = 65, p_v = TText ''x'', p_added = True\<rparr>,
     \<lparr>p_e = 10002, p_a = 66, p_v = TLong 1, p_added = True\<rparr>]"
  shows "existing_stable (\<lambda>_. True) sample_check ds"
    "\<exists>ds'. resolve_upserts (\<lambda>_. True) sample_check ds [(''u'', 10002)] = Inr (ds', [(''u'', 10001)]) \<and> map p_e ds' = [10001, 10001]"
proof -
  show "existing_stable (\<lambda>_. True) sample_check ds" by (simp add: existing_stable_def sample_check_def ds_def)
  have "map_sum id (\<lambda>(ds', tm). (map p_e ds', tm)) (resolve_upserts (\<lambda>_. True) sample_check ds [(''u'', 10002)])
      = Inr ([10001, 10001], [(''u'', 10001)])" unfolding ds_def by code_simp
  then show "\<exists>ds'. resolve_upserts (\<lambda>_. True) sample_check ds [(''u'', 10002)] = Inr (ds', [(''u'', 10001)]) \<and> map p_e ds' = [10001, 10001]"
    by (cases "resolve_upserts (\<lambda>_. True) sample_check ds [(''u'', 10002)]") auto
qed

end
