(* ===== verification/Schema_Cache.thy ===== *)
theory Schema_Cache
  imports Prelude "HOL-Library.AList"
begin

text \<open>
  The per-store cache of schema and idents (\<open>pg_mentat/src/cache.rs\<close>) and its coherence with
  the catalog tables across backends.  A backend holds one \<open>schema_cache\<close>; the catalog is the
  shared \<open>schema\<close> and \<open>idents\<close> tables with the store's row of \<open>cache_generation\<close> (\<open>None\<close> when
  the store has no such row).  Locks and atomics are not modelled: a call is one step.
\<close>

section \<open>Catalog\<close>

record attribute_info =
  value_type :: string
  cardinality :: string
  unique_constraint :: "string option"
  fulltext :: bool
  indexed :: bool
  component :: bool
  no_history :: bool

record schema_row =
  s_entid :: int
  s_ident :: string
  s_info :: attribute_info

record catalog =
  schema_rows :: "schema_row list"
  ident_rows :: "(string \<times> int) list"
  gen_row :: "int option"

definition remote_gen :: "catalog \<Rightarrow> int" where
  "remote_gen cat = (case gen_row cat of Some g \<Rightarrow> g | None \<Rightarrow> 1)"

definition bump_store_generation :: "catalog \<Rightarrow> catalog" where
  "bump_store_generation cat = cat\<lparr>gen_row := map_option (\<lambda>g. g + 1) (gen_row cat)\<rparr>"

section \<open>Cache\<close>

record schema_cache =
  warmed :: bool
  local_gen :: int
  attrs_by_id :: "int \<rightharpoonup> attribute_info"
  idents_to_entid :: "string \<rightharpoonup> int"
  entids_to_ident :: "int \<rightharpoonup> string"

definition new_cache :: schema_cache where
  "new_cache = \<lparr>warmed = False, local_gen = 0, attrs_by_id = Map.empty,
     idents_to_entid = Map.empty, entids_to_ident = Map.empty\<rparr>"

definition load_schema_row :: "schema_row \<Rightarrow> schema_cache \<Rightarrow> schema_cache" where
  "load_schema_row r c = c\<lparr>attrs_by_id := (attrs_by_id c)(s_entid r \<mapsto> s_info r),
     idents_to_entid := (idents_to_entid c)(s_ident r \<mapsto> s_entid r),
     entids_to_ident := (entids_to_ident c)(s_entid r \<mapsto> s_ident r)\<rparr>"

text \<open>\<open>entry(k).or_insert(v)\<close>\<close>

definition or_insert :: "'k \<Rightarrow> 'v \<Rightarrow> ('k \<rightharpoonup> 'v) \<Rightarrow> 'k \<rightharpoonup> 'v" where
  "or_insert k v m = (case m k of None \<Rightarrow> m(k \<mapsto> v) | Some _ \<Rightarrow> m)"

fun load_ident_row :: "string \<times> int \<Rightarrow> schema_cache \<Rightarrow> schema_cache" where
  "load_ident_row (ident, entid) c = c\<lparr>idents_to_entid := or_insert ident entid (idents_to_entid c),
     entids_to_ident := or_insert entid ident (entids_to_ident c)\<rparr>"

definition warm :: "catalog \<Rightarrow> schema_cache \<Rightarrow> schema_cache" where
  "warm cat c =
     (if warmed c then c
      else (fold load_ident_row (ident_rows cat) (fold load_schema_row (schema_rows cat) c))
             \<lparr>local_gen := remote_gen cat, warmed := True\<rparr>)"

definition invalidate :: "schema_cache \<Rightarrow> schema_cache" where
  "invalidate c = c\<lparr>attrs_by_id := Map.empty, idents_to_entid := Map.empty,
     entids_to_ident := Map.empty, warmed := False\<rparr>"

definition ensure_fresh :: "bool \<Rightarrow> catalog \<Rightarrow> schema_cache \<Rightarrow> schema_cache" where
  "ensure_fresh tx_gen_bypass cat c =
     (if \<not> warmed c then warm cat c
      else if tx_gen_bypass then c
      else if local_gen c < remote_gen cat then warm cat (invalidate c)
      else c)"

definition begin_tx_cache_bypass :: "catalog \<Rightarrow> schema_cache \<Rightarrow> schema_cache" where
  "begin_tx_cache_bypass cat c =
     (if warmed c then if local_gen c < remote_gen cat then warm cat (invalidate c) else c
      else warm cat c)"

definition get_attribute :: "bool \<Rightarrow> catalog \<Rightarrow> schema_cache \<Rightarrow> int \<Rightarrow> attribute_info option \<times> schema_cache" where
  "get_attribute bypass cat c a = (let c' = ensure_fresh bypass cat c in (attrs_by_id c' a, c'))"

definition resolve_ident :: "bool \<Rightarrow> catalog \<Rightarrow> schema_cache \<Rightarrow> string \<Rightarrow> int option \<times> schema_cache" where
  "resolve_ident bypass cat c ident = (let c' = ensure_fresh bypass cat c in (idents_to_entid c' ident, c'))"

definition get_ident :: "bool \<Rightarrow> catalog \<Rightarrow> schema_cache \<Rightarrow> int \<Rightarrow> string option \<times> schema_cache" where
  "get_ident bypass cat c a = (let c' = ensure_fresh bypass cat c in (entids_to_ident c' a, c'))"

definition get_attribute_by_ident ::
  "bool \<Rightarrow> catalog \<Rightarrow> schema_cache \<Rightarrow> string \<Rightarrow> attribute_info option \<times> schema_cache" where
  "get_attribute_by_ident bypass cat c ident =
     (let c' = ensure_fresh bypass cat c
      in (case idents_to_entid c' ident of None \<Rightarrow> None | Some entid \<Rightarrow> attrs_by_id c' entid, c'))"

section \<open>Stores\<close>

text \<open>The map from store names to caches of one backend.\<close>

type_synonym store_caches = "string \<rightharpoonup> schema_cache"

definition get_or_create :: "store_caches \<Rightarrow> string \<Rightarrow> schema_cache \<times> store_caches" where
  "get_or_create m name = (case m name of Some c \<Rightarrow> (c, m) | None \<Rightarrow> (new_cache, m(name \<mapsto> new_cache)))"

definition invalidate_store :: "store_caches \<Rightarrow> string \<Rightarrow> store_caches" where
  "invalidate_store m name = (case m name of Some c \<Rightarrow> m(name \<mapsto> invalidate c) | None \<Rightarrow> m)"

definition invalidate_all :: "store_caches \<Rightarrow> store_caches" where
  "invalidate_all m = (\<lambda>name. map_option invalidate (m name))"

section \<open>What a warm cache holds\<close>

definition attrs_of :: "catalog \<Rightarrow> int \<rightharpoonup> attribute_info" where
  "attrs_of cat = map_of (map (\<lambda>r. (s_entid r, s_info r)) (rev (schema_rows cat)))"

definition idents_of :: "catalog \<Rightarrow> string \<rightharpoonup> int" where
  "idents_of cat = map_of (ident_rows cat) ++ map_of (map (\<lambda>r. (s_ident r, s_entid r)) (rev (schema_rows cat)))"

definition entids_of :: "catalog \<Rightarrow> int \<rightharpoonup> string" where
  "entids_of cat = map_of (map prod.swap (ident_rows cat)) ++ map_of (map (\<lambda>r. (s_entid r, s_ident r)) (rev (schema_rows cat)))"

definition holds_catalog :: "catalog \<Rightarrow> schema_cache \<Rightarrow> bool" where
  "holds_catalog cat c \<longleftrightarrow> attrs_by_id c = attrs_of cat \<and> idents_to_entid c = idents_of cat \<and> entids_to_ident c = entids_of cat"

definition empty_when_cold :: "schema_cache \<Rightarrow> bool" where
  "empty_when_cold c \<longleftrightarrow> (\<not> warmed c \<longrightarrow>
     attrs_by_id c = Map.empty \<and> idents_to_entid c = Map.empty \<and> entids_to_ident c = Map.empty)"

lemma fold_schema_rows:
  "attrs_by_id (fold load_schema_row rs c) = attrs_by_id c ++ map_of (map (\<lambda>r. (s_entid r, s_info r)) (rev rs))
   \<and> idents_to_entid (fold load_schema_row rs c) = idents_to_entid c ++ map_of (map (\<lambda>r. (s_ident r, s_entid r)) (rev rs))
   \<and> entids_to_ident (fold load_schema_row rs c) = entids_to_ident c ++ map_of (map (\<lambda>r. (s_entid r, s_ident r)) (rev rs))"
  by (induction rs arbitrary: c) (simp_all add: load_schema_row_def)

lemma or_insert_eq: "or_insert k v m = [k \<mapsto> v] ++ m"
  by (auto simp: or_insert_def fun_eq_iff map_add_def split: option.splits)

lemma fold_ident_rows:
  "attrs_by_id (fold load_ident_row rs c) = attrs_by_id c
   \<and> idents_to_entid (fold load_ident_row rs c) = map_of rs ++ idents_to_entid c
   \<and> entids_to_ident (fold load_ident_row rs c) = map_of (map prod.swap rs) ++ entids_to_ident c"
  by (induction rs arbitrary: c)
    (auto simp: or_insert_eq map_add_assoc fun_eq_iff map_add_def split: option.splits)

lemma warm_holds:
  assumes "empty_when_cold c" "\<not> warmed c"
  shows "holds_catalog cat (warm cat c)"
  using assms fold_schema_rows [of "schema_rows cat" c]
    fold_ident_rows [of "ident_rows cat" "fold load_schema_row (schema_rows cat) c"]
  by (simp add: warm_def holds_catalog_def attrs_of_def idents_of_def entids_of_def empty_when_cold_def)

section \<open>A transaction's use of the cache\<close>

text \<open>How a call of \<open>execute_transaction_body\<close> ends: with no schema assertion; with schema assertions and
  a commit; with an error of \<open>insert_datoms\<close> after the schema was installed; with an earlier error of
  the second pass, after the schema was installed and something was looked up; or with success
  inside an SQL transaction that is rolled back later, in which the backend looks something up
  after the call (\<open>RolledBack True\<close>) or not.\<close>

datatype tx_outcome = NoSchema | Committed | FailedInserting | FailedResolving | RolledBack bool

definition installed_cache :: "schema_cache \<Rightarrow> schema_cache" where
  "installed_cache c = invalidate c"

definition failed_cache :: "bool \<Rightarrow> schema_cache \<Rightarrow> schema_cache" where
  "failed_cache has_schema_changes c = (if has_schema_changes then invalidate c else c)"

definition publish_cache :: "bool \<Rightarrow> catalog \<Rightarrow> schema_cache \<Rightarrow> catalog \<times> schema_cache" where
  "publish_cache touched_schema cat c =
     (if touched_schema then (bump_store_generation cat, invalidate c) else (cat, c))"

text \<open>The catalog as the transaction itself sees it once the schema rows and idents of \<open>new\<close> are
  installed, before anything is committed.\<close>

definition tentative :: "catalog \<Rightarrow> catalog \<Rightarrow> catalog" where
  "tentative new cat = cat\<lparr>schema_rows := schema_rows new, ident_rows := ident_rows new\<rparr>"

text \<open>The committed catalog and the cache after the call.  A rollback undoes the rows and the generation
  counter, and nothing that is in memory.\<close>

definition tx_cache :: "tx_outcome \<Rightarrow> catalog \<Rightarrow> catalog \<Rightarrow> schema_cache \<Rightarrow> catalog \<times> schema_cache" where
  "tx_cache oc new cat c =
     (let seen = (if oc = NoSchema then cat else tentative new cat);
          c1 = ensure_fresh True seen (installed_cache (begin_tx_cache_bypass cat c))
      in case oc of
           NoSchema \<Rightarrow> publish_cache False cat c1
         | Committed \<Rightarrow> publish_cache True seen c1
         | FailedInserting \<Rightarrow> (cat, failed_cache True c1)
         | FailedResolving \<Rightarrow> (cat, c1)
         | RolledBack looked_up \<Rightarrow>
             (case publish_cache True seen c1 of
                (uncommitted, c2) \<Rightarrow> (cat, if looked_up then ensure_fresh False uncommitted c2 else c2)))"

text \<open>The catalog and the caches of all backends.\<close>

type_synonym cluster = "catalog \<times> (nat \<Rightarrow> schema_cache)"

datatype cluster_event = Lookup (actor: nat) | Transact (actor: nat) tx_outcome catalog

inductive cluster_step :: "cluster \<Rightarrow> cluster_event \<Rightarrow> cluster \<Rightarrow> bool" where
  lookup: "cluster_step (cat, bs) (Lookup b) (cat, bs(b := ensure_fresh False cat (bs b)))"
| transact: "tx_cache oc new cat (bs b) = (cat', c) \<Longrightarrow>
    cluster_step (cat, bs) (Transact b oc new) (cat', bs(b := c))"

inductive_cases cluster_stepE: "cluster_step s ev s'"
inductive_cases cluster_step_lookupE: "cluster_step s (Lookup b) s'"

inductive cluster_steps :: "cluster \<Rightarrow> cluster_event list \<Rightarrow> cluster \<Rightarrow> bool" where
  nil: "cluster_steps s [] s"
| cons: "cluster_step s ev u \<Longrightarrow> cluster_steps u evs t \<Longrightarrow> cluster_steps s (ev # evs) t"

text \<open>The events that leave attributes in a cache which were never committed.\<close>

definition strands :: "cluster_event \<Rightarrow> bool" where
  "strands ev = (case ev of Transact _ FailedResolving _ \<Rightarrow> True | Transact _ (RolledBack True) _ \<Rightarrow> True | _ \<Rightarrow> False)"

section \<open>Coherence\<close>

definition coherent_cache :: "catalog \<Rightarrow> schema_cache \<Rightarrow> bool" where
  "coherent_cache cat c \<longleftrightarrow> empty_when_cold c \<and> (warmed c \<longrightarrow> local_gen c \<le> remote_gen cat \<and>
     (local_gen c = remote_gen cat \<longrightarrow> holds_catalog cat c))"

definition coherent :: "cluster \<Rightarrow> bool" where
  "coherent s \<longleftrightarrow> gen_row (fst s) \<noteq> None \<and> (\<forall>b. coherent_cache (fst s) (snd s b))"

lemma warm_simps [simp]: "warmed (warm cat c)" "\<not> warmed c \<Longrightarrow> local_gen (warm cat c) = remote_gen cat"
  by (simp_all add: warm_def)

lemma empty_when_cold_warm [simp]: "empty_when_cold (warm cat c)"
  by (simp add: empty_when_cold_def)

lemma invalidate_simps [simp]: "\<not> warmed (invalidate c)" "empty_when_cold (invalidate c)"
  by (simp_all add: invalidate_def empty_when_cold_def)

lemma coherent_invalidate [simp]: "coherent_cache cat (invalidate c)"
  by (simp add: coherent_cache_def)

lemma coherent_warm: "empty_when_cold c \<Longrightarrow> \<not> warmed c \<Longrightarrow> coherent_cache cat (warm cat c)"
  by (simp add: coherent_cache_def warm_holds)

lemma ensure_fresh_holds:
  assumes "coherent_cache cat c"
  shows "coherent_cache cat (ensure_fresh False cat c)" "holds_catalog cat (ensure_fresh False cat c)"
  using assms by (auto simp: ensure_fresh_def coherent_warm warm_holds coherent_cache_def)

lemma remote_gen_bump: "gen_row cat \<noteq> None \<Longrightarrow> remote_gen (bump_store_generation cat) = remote_gen cat + 1"
  by (auto simp: remote_gen_def bump_store_generation_def)

lemma remote_gen_rows [simp]: "remote_gen (cat\<lparr>schema_rows := rs, ident_rows := is\<rparr>) = remote_gen cat"
  by (simp add: remote_gen_def)

lemma remote_gen_tentative [simp]: "remote_gen (tentative new cat) = remote_gen cat"
  by (simp add: tentative_def)

lemma attrs_of_simps [simp]: "attrs_of (tentative new cat) = attrs_of new" "attrs_of (bump_store_generation cat) = attrs_of cat"
  by (simp_all add: attrs_of_def tentative_def bump_store_generation_def)

lemma gen_row_simps [simp]: "gen_row (tentative new cat) = gen_row cat" "gen_row (bump_store_generation cat) = map_option (\<lambda>g. g + 1) (gen_row cat)"
  by (simp_all add: tentative_def bump_store_generation_def)

lemma tx_cache_eq:
  "tx_cache NoSchema new cat c = (cat, warm cat (invalidate (begin_tx_cache_bypass cat c)))"
  "tx_cache Committed new cat c =
     (bump_store_generation (tentative new cat), invalidate (warm (tentative new cat) (invalidate (begin_tx_cache_bypass cat c))))"
  "tx_cache FailedInserting new cat c = (cat, invalidate (warm (tentative new cat) (invalidate (begin_tx_cache_bypass cat c))))"
  "tx_cache FailedResolving new cat c = (cat, warm (tentative new cat) (invalidate (begin_tx_cache_bypass cat c)))"
  "tx_cache (RolledBack looked_up) new cat c =
     (cat, (if looked_up then warm (bump_store_generation (tentative new cat)) else id)
        (invalidate (warm (tentative new cat) (invalidate (begin_tx_cache_bypass cat c)))))"
  by (simp_all add: tx_cache_def Let_def installed_cache_def failed_cache_def publish_cache_def ensure_fresh_def)

lemma cluster_step_coherent:
  assumes "cluster_step s ev s'" "coherent s" "\<not> strands ev"
  shows "coherent s'"
  using assms(1)
proof (cases rule: cluster_step.cases)
  case (lookup cat bs b)
  then show ?thesis using assms(2) by (auto simp: coherent_def ensure_fresh_holds)
next
  case (transact oc new cat bs b cat' c)
  have co: "coherent_cache cat (bs b')" for b' using assms(2) transact by (simp add: coherent_def)
  have gen: "gen_row cat \<noteq> None" using assms(2) transact by (simp add: coherent_def)
  have "gen_row cat' \<noteq> None \<and> coherent_cache cat' c \<and> (\<forall>b'. coherent_cache cat' (bs b'))"
  proof (cases "oc = Committed")
    case True
    then have cat': "cat' = bump_store_generation (tentative new cat)" and c: "coherent_cache cat' c"
      using transact(4) by (auto simp: tx_cache_eq)
    have "remote_gen cat' = remote_gen cat + 1" using gen by (simp add: cat' remote_gen_bump)
    then have "coherent_cache cat' (bs b')" for b' using co [of b'] by (auto simp: coherent_cache_def)
    then show ?thesis using gen c by (simp add: cat')
  next
    case False
    then have "cat' = cat" "coherent_cache cat c"
      using transact(4) assms(3) transact(2) by (cases oc; auto simp: tx_cache_eq coherent_warm strands_def split: bool.splits)+
    then show ?thesis using co gen by simp
  qed
  then show ?thesis using transact by (simp add: coherent_def)
qed

lemma cluster_steps_coherent:
  "cluster_steps s evs s' \<Longrightarrow> coherent s \<Longrightarrow> \<forall>ev\<in>set evs. \<not> strands ev \<Longrightarrow> coherent s'"
  by (induction rule: cluster_steps.induct) (auto dest: cluster_step_coherent)

definition initial_cluster :: "catalog \<Rightarrow> cluster" where
  "initial_cluster cat = (cat, \<lambda>_. new_cache)"

lemma coherent_initial: "gen_row cat \<noteq> None \<Longrightarrow> coherent (initial_cluster cat)"
  by (simp add: coherent_def initial_cluster_def coherent_cache_def empty_when_cold_def new_cache_def)

text \<open>C12.  Every backend's cache is coherent.  In a store with a generation row (only the default store is
  given one), after any interleaving of lookups and transactions by any number of backends, a lookup
  by any backend returns exactly what the committed catalog tables hold; provided that no transaction
  fails in its second pass after installing its schema, and that no backend looks anything up between
  a transaction with schema and the rollback of the SQL transaction around it.\<close>

theorem cache_lookups_coherent:
  assumes "gen_row cat0 \<noteq> None" "cluster_steps (initial_cluster cat0) evs (cat, bs)"
    and "\<forall>ev\<in>set evs. \<not> strands ev"
  shows "fst (get_attribute False cat (bs b) a) = attrs_of cat a
    \<and> fst (resolve_ident False cat (bs b) i) = idents_of cat i
    \<and> fst (get_ident False cat (bs b) a) = entids_of cat a
    \<and> fst (get_attribute_by_ident False cat (bs b) i) = Option.bind (idents_of cat i) (attrs_of cat)"
proof -
  have "coherent (cat, bs)"
    using cluster_steps_coherent [OF assms(2) coherent_initial [OF assms(1)] assms(3)] .
  then have "holds_catalog cat (ensure_fresh False cat (bs b))"
    by (simp add: coherent_def ensure_fresh_holds)
  then show ?thesis
    by (simp add: holds_catalog_def get_attribute_def resolve_ident_def get_ident_def
        get_attribute_by_ident_def Let_def split: option.splits)
qed

text \<open>Examples: a catalog of one attribute and the same with a second one.\<close>

definition sample_info :: attribute_info where
  "sample_info = \<lparr>value_type = ''string'', cardinality = ''one'', unique_constraint = None,
     fulltext = False, indexed = False, component = False, no_history = False\<rparr>"

definition sample_catalog :: catalog where
  "sample_catalog = \<lparr>schema_rows = [\<lparr>s_entid = 65, s_ident = '':person/name'', s_info = sample_info\<rparr>],
     ident_rows = [('':person/name'', 65)], gen_row = Some 1\<rparr>"

definition wider_catalog :: catalog where
  "wider_catalog = sample_catalog
     \<lparr>schema_rows := schema_rows sample_catalog @ [\<lparr>s_entid = 66, s_ident = '':person/age'', s_info = sample_info\<rparr>]\<rparr>"

lemma cluster_step_transact:
  "cluster_step (cat, bs) (Transact b oc new) (fst (tx_cache oc new cat (bs b)), bs(b := snd (tx_cache oc new cat (bs b))))"
  by (rule cluster_step.transact) simp

lemma cluster_two:
  "cluster_step s e1 u \<Longrightarrow> cluster_step u e2 t \<Longrightarrow> cluster_steps s [e1, e2] t"
  by (blast intro: cluster_steps.intros)

theorem cache_lookups_coherent_witness:
  "\<exists>cat bs. cluster_steps (initial_cluster sample_catalog) [Lookup 0, Transact 1 Committed wider_catalog] (cat, bs)
     \<and> fst (get_attribute False cat (bs 0) 66) = Some sample_info"
proof -
  let ?bs = "(\<lambda>_. new_cache)(0::nat := ensure_fresh False sample_catalog new_cache)"
  let ?r = "tx_cache Committed wider_catalog sample_catalog (?bs 1)"
  have steps: "cluster_steps (initial_cluster sample_catalog) [Lookup 0, Transact 1 Committed wider_catalog]
      (fst ?r, ?bs(1 := snd ?r))"
    unfolding initial_cluster_def by (rule cluster_two [OF cluster_step.lookup cluster_step_transact])
  have "attrs_of (fst ?r) 66 = Some sample_info"
    by (simp add: tx_cache_eq) (simp add: attrs_of_def wider_catalog_def sample_catalog_def)
  then show ?thesis
    using cache_lookups_coherent [OF _ steps, of 0 66] steps
    by (fastforce simp: sample_catalog_def strands_def)
qed

section \<open>Incoherence\<close>


lemma warm_gen: "local_gen (warm cat (invalidate c)) = remote_gen cat"
  by simp

lemma lookup_warm:
  "warmed c \<Longrightarrow> remote_gen cat \<le> local_gen c \<Longrightarrow> fst (get_attribute False cat c a) = attrs_by_id c a"
  by (simp add: get_attribute_def ensure_fresh_def)



text \<open>Without a generation row every warm cache has the default generation for ever.\<close>

definition no_generation :: "cluster \<Rightarrow> bool" where
  "no_generation s \<longleftrightarrow> gen_row (fst s) = None \<and> (\<forall>b. warmed (snd s b) \<longrightarrow> local_gen (snd s b) = 1)"

lemma no_generation_step:
  assumes "cluster_step s ev s'" "no_generation s"
  shows "no_generation s'"
  using assms(1)
proof (cases rule: cluster_step.cases)
  case (lookup cat bs b)
  then show ?thesis using assms(2) by (auto simp: no_generation_def ensure_fresh_def remote_gen_def)
next
  case (transact oc new cat bs b cat' c)
  have "gen_row cat = None" using assms(2) transact by (simp add: no_generation_def)
  then have "gen_row cat' = None" "warmed c \<longrightarrow> local_gen c = 1"
    using transact(4) by (cases oc; auto simp: tx_cache_eq remote_gen_def bump_store_generation_def tentative_def split: if_splits)+
  then show ?thesis using assms(2) transact by (auto simp: no_generation_def)
qed

lemma no_generation_steps: "cluster_steps s evs s' \<Longrightarrow> no_generation s \<Longrightarrow> no_generation s'"
  by (induction rule: cluster_steps.induct) (auto dest: no_generation_step)

lemma others_step:
  "cluster_step s ev s' \<Longrightarrow> actor ev \<noteq> b \<Longrightarrow> snd s' b = snd s b"
  by (auto elim!: cluster_step.cases)

lemma others_steps: "cluster_steps s evs s' \<Longrightarrow> \<forall>ev\<in>set evs. actor ev \<noteq> b \<Longrightarrow> snd s' b = snd s b"
  by (induction rule: cluster_steps.induct) (auto simp: others_step)

text \<open>C30.  In a store without a generation row, which is every store but the default one, a backend never
  learns of the schema that others commit: after its first lookup its lookups give the same answers
  whatever the other backends do.\<close>

theorem cache_without_generation:
  assumes "gen_row cat0 = None" "cluster_steps (initial_cluster cat0) evs (cat, bs)" "cluster_step (cat, bs) (Lookup b) s"
    and "cluster_steps s evs' (cat', bs')" "\<forall>ev\<in>set evs'. actor ev \<noteq> b"
  shows "fst (get_attribute False cat' (bs' b) a) = fst (get_attribute False cat (bs b) a)"
proof -
  have s: "s = (cat, bs(b := ensure_fresh False cat (bs b)))" using assms(3) by (auto elim: cluster_step_lookupE)
  have "no_generation (initial_cluster cat0)" using assms(1) by (simp add: no_generation_def initial_cluster_def new_cache_def)
  then have n: "no_generation (cat, bs)" "no_generation s" "no_generation (cat', bs')"
    using no_generation_steps assms(2-4) no_generation_step by blast+
  have b: "bs' b = ensure_fresh False cat (bs b)" using others_steps [OF assms(4,5)] by (simp add: s)
  then have w: "warmed (bs' b)" by (simp add: ensure_fresh_def)
  then have "remote_gen cat' \<le> local_gen (bs' b)" using n(3) by (simp add: no_generation_def remote_gen_def)
  then show ?thesis using lookup_warm [OF w] b by (simp add: get_attribute_def Let_def)
qed

theorem cache_without_generation_witness:
  "\<exists>cat bs. cluster_steps (initial_cluster (sample_catalog\<lparr>gen_row := None\<rparr>)) [Lookup 0, Transact 1 Committed wider_catalog] (cat, bs)
      \<and> attrs_of cat 66 = Some sample_info \<and> fst (get_attribute False cat (bs 0) 66) = None"
proof -
  let ?cat = "sample_catalog\<lparr>gen_row := None\<rparr>"
  let ?bs = "(\<lambda>_. new_cache)(0::nat := ensure_fresh False ?cat new_cache)"
  let ?r = "tx_cache Committed wider_catalog ?cat new_cache"
  have one: "cluster_step (?cat, \<lambda>_. new_cache) (Lookup 0) (?cat, ?bs)"
    using cluster_step.lookup [of ?cat "\<lambda>_. new_cache" 0] by simp
  have two: "cluster_step (?cat, ?bs) (Transact 1 Committed wider_catalog) (fst ?r, ?bs(1 := snd ?r))"
    using cluster_step_transact [of ?cat ?bs 1 Committed wider_catalog] by simp
  have "attrs_of ?cat 66 = None" by (simp add: attrs_of_def sample_catalog_def)
  moreover have "fst (get_attribute False ?cat new_cache 66) = attrs_of ?cat 66"
    using warm_holds [of new_cache ?cat]
    by (simp add: get_attribute_def ensure_fresh_def holds_catalog_def new_cache_def empty_when_cold_def)
  moreover have "attrs_of (fst ?r) 66 = Some sample_info"
    by (simp add: tx_cache_eq) (simp add: attrs_of_def wider_catalog_def sample_catalog_def)
  moreover have "fst (get_attribute False (fst ?r) ((?bs(1 := snd ?r)) 0) 66) = fst (get_attribute False ?cat new_cache 66)"
  proof (rule cache_without_generation [where b = 0 and bs = "\<lambda>_. new_cache" and bs' = "?bs(1 := snd ?r)"])
    show "gen_row ?cat = None" by simp
    show "cluster_steps (initial_cluster ?cat) [] (?cat, \<lambda>_. new_cache)" unfolding initial_cluster_def by (rule cluster_steps.nil)
    show "cluster_steps (?cat, ?bs) [Transact 1 Committed wider_catalog] (fst ?r, ?bs(1 := snd ?r))"
      by (rule cluster_steps.cons [OF two cluster_steps.nil])
  qed (use one in simp_all)
  ultimately show ?thesis using cluster_two [OF one two] unfolding initial_cluster_def by fastforce
qed

end
