(* ===== verification/Errors.thy ===== *)
theory Errors
  imports Prelude
begin

text \<open>
  The structured errors of \<open>pg_mentat/src/error.rs\<close>: the enum \<open>MentatError\<close>, its \<open>Display\<close> text,
  its error code, and the suggestion of the closest attribute name by edit distance.
\<close>

section \<open>Errors\<close>

datatype mentat_error =
    AttributeNotFound string "string list" "string option"
  | TypeMismatch string string string int int
  | UniqueConstraintViolation string string int int
  | InvalidQuery string "string option"
  | InvalidPullPattern string
  | InvalidTransaction string
  | EntityNotFound string string
  | LookupRefNotFound string string
  | LookupRefRequiresUnique string
  | AllocationFailed string
  | CardinalityViolation string int nat
  | CasFailed int string string string
  | DataCorruption string
  | UnsupportedType int
  | InvalidEntityPlace string string
  | InvalidAttribute string string
  | UnsupportedValueType string string
  | InvalidCardinality string int
  | NothingToRetract int
  | TransactionFailed string
  | UnknownBatchOp string
  | BatchMissingArg string string
  | DataIntegrity string
  | ResultLimitExceeded int string
  | QueryTimeout int
  | StoreExists string
  | StoreNotFound string
  | InvalidStoreName string string
  | CannotDropDefaultStore
  | SerializationFailure string nat
  | Internal string

definition join :: "string \<Rightarrow> string list \<Rightarrow> string" where
  "join sep ss = (case ss of [] \<Rightarrow> [] | s # rest \<Rightarrow> s @ concat (map (\<lambda>t. sep @ t) rest))"

primrec display_error :: "mentat_error \<Rightarrow> string" where
  \<open>display_error (AttributeNotFound attr available suggestion) =
     '':db.error/attribute-not-found Attribute '' @ [CHR 0x27] @ attr @ [CHR 0x27] @ '' not found in schema.'' @
     (if available \<noteq> [] then
        if 20 < length available
        then '' Available attributes (first 20): '' @ join '', '' (take 20 available) @ ''.''
        else '' Available attributes: '' @ join '', '' available @ ''.''
      else '' No schema attributes found. Did you forget to define schema with mentat_transact?'') @
     (case suggestion of Some s \<Rightarrow> '' Did you mean '' @ [CHR 0x27] @ s @ [CHR 0x27] @ ''?'' | None \<Rightarrow> [])\<close>
| \<open>display_error (TypeMismatch attr expected got expected_tag got_tag) =
     '':db.error/wrong-type-for-attribute Type mismatch for attribute '' @ [CHR 0x27] @ attr @
     [CHR 0x27] @ '': schema declares :db/valueType :db.type/'' @ expected @ '' (tag '' @
     show_int expected_tag @ ''), but the asserted value has type '' @ got @ '' (tag '' @
     show_int got_tag @ ''). Ensure the value matches the attribute'' @ [CHR 0x27] @
     ''s declared type.''\<close>
| \<open>display_error (UniqueConstraintViolation attr unique_type existing_eid new_eid) =
     '':db.error/unique-conflict Unique constraint violation for attribute '' @ [CHR 0x27] @
     attr @ [CHR 0x27] @ '' (unique type: :db.unique/'' @ unique_type @
     ''). The asserted value already exists on entity '' @ show_int existing_eid @
     '' but is being asserted for entity '' @ show_int new_eid @
     ''. To reassign the value, first retract it from entity '' @ show_int existing_eid @ ''.''\<close>
| \<open>display_error (InvalidQuery message suggestion) =
     '':db.error/invalid-query '' @ message @ (case suggestion of Some s \<Rightarrow> '' '' @ s | None \<Rightarrow> [])\<close>
| \<open>display_error (InvalidPullPattern message) =
     '':db.error/invalid-pull-pattern '' @ message\<close>
| \<open>display_error (InvalidTransaction message) =
     '':db.error/invalid-transaction '' @ message\<close>
| \<open>display_error (EntityNotFound ident message) =
     '':db.error/ident-not-found Entity ident '' @ [CHR 0x27] @ ident @ [CHR 0x27] @
     '' not found. '' @ message\<close>
| \<open>display_error (LookupRefNotFound attr message) =
     '':db.error/lookup-ref-not-found Lookup ref did not match any existing '' @
     ''entity for attribute '' @ [CHR 0x27] @ attr @ [CHR 0x27] @ ''. '' @ message\<close>
| \<open>display_error (LookupRefRequiresUnique attr) =
     '':db.error/lookup-ref-requires-unique Lookup ref attribute '' @ [CHR 0x27] @ attr @
     [CHR 0x27] @ '' does not have a unique constraint. Only attributes with '' @
     '':db.unique/identity or :db.unique/value can be used in lookup refs. '' @
     ''Add a unique constraint to the attribute definition, e.g.:'' @ [CHR 0x0A] @
     ''  [:db/add "attr" :db/unique :db.unique/identity]''\<close>
| \<open>display_error (AllocationFailed part) =
     '':db.error/allocation-failed Failed to allocate entity ID. Check that the '' @ [CHR 0x27] @
     part @ [CHR 0x27] @ '' partition exists and has available IDs.''\<close>
| \<open>display_error (CardinalityViolation attr entity count) =
     '':db.error/cardinality-violation Attribute '' @ [CHR 0x27] @ attr @ [CHR 0x27] @
     '' has :db/cardinality :db.cardinality/one but this transaction contains '' @
     show_nat count @ '' assertions for entity '' @ show_int entity @
     ''. Cardinality-one attributes can only have a single value per entity. '' @
     ''Either remove duplicate assertions or change the attribute to '' @
     '':db.cardinality/many.''\<close>
| \<open>display_error (CasFailed entity attr expected actual) =
     '':db.fn/cas failed on entity '' @ show_int entity @ '' attribute '' @ attr @
     '': expected '' @ expected @ '', found '' @ actual\<close>
| \<open>display_error (DataCorruption message) =
     '':db.error/data-corruption '' @ message\<close>
| \<open>display_error (UnsupportedType tag) =
     '':db.error/unsupported-type Unsupported value type tag: '' @ show_int tag @
     ''. Known tags: 0=ref, 1=boolean, 2=long, 3=double, 4=instant, '' @
     ''7=string, 8=keyword, 10=uuid, 11=bytes.''\<close>
| \<open>display_error (InvalidEntityPlace got_type got_value) =
     '':db.error/invalid-entity-place Invalid entity place: got '' @ got_type @ '' (value: '' @
     got_value @ ''). Entity position must be an integer (entity ID), string (tempid), '' @
     ''keyword (ident), or 2-element vector (lookup ref like [:attr value]).''\<close>
| \<open>display_error (InvalidAttribute got_type got_value) =
     '':db.error/invalid-attribute Invalid attribute: got '' @ got_type @ '' (value: '' @
     got_value @ ''). Attribute position must be an integer (entid) or keyword (e.g. '' @
     '':person/name).''\<close>
| \<open>display_error (UnsupportedValueType got_type got_value) =
     '':db.error/unsupported-value-type Cannot encode value of type '' @ got_type @
     '' (value: '' @ got_value @
     ''). Supported types: boolean, integer (long), double (float), instant, '' @
     ''uuid, string, keyword. For ref values, use an entity ID, tempid '' @
     ''string, or keyword ident.''\<close>
| \<open>display_error (InvalidCardinality crd attr_entid) =
     '':db.error/invalid-cardinality Unknown cardinality '' @ [CHR 0x27] @ crd @ [CHR 0x27] @
     '' for attribute entid '' @ show_int attr_entid @ ''. Valid cardinalities are '' @
     [CHR 0x27] @ ''one'' @ [CHR 0x27] @ '' and '' @ [CHR 0x27] @ ''many'' @ [CHR 0x27] @
     ''. This may indicate schema corruption.''\<close>
| \<open>display_error (NothingToRetract entity) =
     '':db.error/nothing-to-retract Entity '' @ show_int entity @
     '' has no current facts to retract. The entity may not exist or all its '' @
     ''facts have already been retracted.''\<close>
| \<open>display_error (TransactionFailed message) =
     '':db.error/tx-creation-failed '' @ message\<close>
| \<open>display_error (UnknownBatchOp op) =
     '':db.error/unknown-batch-op Unknown batch operation type: '' @ op @
     ''. Valid operations: :query, :transact, :pull, :entity, :schema''\<close>
| \<open>display_error (BatchMissingArg op message) =
     '':db.error/batch-missing-arg '' @ op @ '' operation: '' @ message\<close>
| \<open>display_error (DataIntegrity message) =
     '':db.error/data-integrity '' @ message\<close>
| \<open>display_error (ResultLimitExceeded limit message) =
     '':db.error/result-limit-exceeded Query result exceeded the maximum of '' @ show_int limit @
     '' rows. '' @ message @ ''. Adjust mentat.max_result_rows or add :limit to your query.''\<close>
| \<open>display_error (QueryTimeout timeout_ms) =
     '':db.error/query-timeout Query exceeded the timeout of '' @ show_int timeout_ms @
     ''ms. Adjust mentat.query_timeout_ms or optimize the query.''\<close>
| \<open>display_error (StoreExists store_name) =
     '':db.error/store-exists Store '' @ [CHR 0x27] @ store_name @ [CHR 0x27] @
     '' already exists.''\<close>
| \<open>display_error (StoreNotFound store_name) =
     '':db.error/store-not-found Store '' @ [CHR 0x27] @ store_name @ [CHR 0x27] @
     '' not found.''\<close>
| \<open>display_error (InvalidStoreName store_name reason) =
     '':db.error/invalid-store-name Invalid store name '' @ [CHR 0x27] @ store_name @
     [CHR 0x27] @ '': '' @ reason\<close>
| \<open>display_error CannotDropDefaultStore =
     '':db.error/cannot-drop-default-store Cannot drop the default store. '' @ ''The default '' @
     [CHR 0x27] @ ''mentat'' @ [CHR 0x27] @ '' store is required for extension operation.''\<close>
| \<open>display_error (SerializationFailure message attempt) =
     '':db.error/serialization-failure Serialization failure on attempt '' @ show_nat attempt @
     '': '' @ message\<close>
| \<open>display_error (Internal message) =
     '':db.error/internal '' @ message\<close>

primrec error_code :: "mentat_error \<Rightarrow> string" where
  \<open>error_code (AttributeNotFound _ _ _) = '':db.error/attribute-not-found''\<close>
| \<open>error_code (TypeMismatch _ _ _ _ _) = '':db.error/wrong-type-for-attribute''\<close>
| \<open>error_code (UniqueConstraintViolation _ _ _ _) = '':db.error/unique-conflict''\<close>
| \<open>error_code (InvalidQuery _ _) = '':db.error/invalid-query''\<close>
| \<open>error_code (InvalidPullPattern _) = '':db.error/invalid-pull-pattern''\<close>
| \<open>error_code (InvalidTransaction _) = '':db.error/invalid-transaction''\<close>
| \<open>error_code (EntityNotFound _ _) = '':db.error/ident-not-found''\<close>
| \<open>error_code (LookupRefNotFound _ _) = '':db.error/lookup-ref-not-found''\<close>
| \<open>error_code (LookupRefRequiresUnique _) = '':db.error/lookup-ref-requires-unique''\<close>
| \<open>error_code (AllocationFailed _) = '':db.error/allocation-failed''\<close>
| \<open>error_code (CardinalityViolation _ _ _) = '':db.error/cardinality-violation''\<close>
| \<open>error_code (CasFailed _ _ _ _) = '':db.fn/cas''\<close>
| \<open>error_code (DataCorruption _) = '':db.error/data-corruption''\<close>
| \<open>error_code (UnsupportedType _) = '':db.error/unsupported-type''\<close>
| \<open>error_code (InvalidEntityPlace _ _) = '':db.error/invalid-entity-place''\<close>
| \<open>error_code (InvalidAttribute _ _) = '':db.error/invalid-attribute''\<close>
| \<open>error_code (UnsupportedValueType _ _) = '':db.error/unsupported-value-type''\<close>
| \<open>error_code (InvalidCardinality _ _) = '':db.error/invalid-cardinality''\<close>
| \<open>error_code (NothingToRetract _) = '':db.error/nothing-to-retract''\<close>
| \<open>error_code (TransactionFailed _) = '':db.error/tx-creation-failed''\<close>
| \<open>error_code (UnknownBatchOp _) = '':db.error/unknown-batch-op''\<close>
| \<open>error_code (BatchMissingArg _ _) = '':db.error/batch-missing-arg''\<close>
| \<open>error_code (DataIntegrity _) = '':db.error/data-integrity''\<close>
| \<open>error_code (ResultLimitExceeded _ _) = '':db.error/result-limit-exceeded''\<close>
| \<open>error_code (QueryTimeout _) = '':db.error/query-timeout''\<close>
| \<open>error_code (StoreExists _) = '':db.error/store-exists''\<close>
| \<open>error_code (StoreNotFound _) = '':db.error/store-not-found''\<close>
| \<open>error_code (InvalidStoreName _ _) = '':db.error/invalid-store-name''\<close>
| \<open>error_code CannotDropDefaultStore = '':db.error/cannot-drop-default-store''\<close>
| \<open>error_code (SerializationFailure _ _) = '':db.error/serialization-failure''\<close>
| \<open>error_code (Internal _) = '':db.error/internal''\<close>

section \<open>Suggestions\<close>

text \<open>\<open>str::chars\<close>: a byte that is not a continuation byte starts a character.\<close>

definition continuation :: "char \<Rightarrow> bool" where
  "continuation c \<longleftrightarrow> 128 \<le> (of_char c :: nat) \<and> (of_char c :: nat) < 192"

function utf8_chars :: "string \<Rightarrow> string list" where
  "utf8_chars [] = []"
| "utf8_chars (c # s) = (c # takeWhile continuation s) # utf8_chars (dropWhile continuation s)"
  by pat_completeness auto
termination
  by (relation "measure length") (auto simp: less_Suc_eq_le length_dropWhile_le)

declare utf8_chars.simps(2) [simp del]

text \<open>One row of the table, written into the buffer \<open>buf\<close>.\<close>

fun lev_inner :: "string \<Rightarrow> string list \<Rightarrow> nat \<Rightarrow> nat list \<Rightarrow> nat list \<Rightarrow> nat list" where
  "lev_inner ca [] j prev buf = buf"
| "lev_inner ca (cb # bs) j prev buf =
     (let cost = (if ca = cb then 0 else 1)
      in lev_inner ca bs (Suc j) prev
           (buf[Suc j := min (min (prev ! j + cost) (prev ! Suc j + 1)) (buf ! j + 1)]))"

fun lev_outer :: "string list \<Rightarrow> string list \<Rightarrow> nat \<Rightarrow> nat list \<Rightarrow> nat list \<Rightarrow> nat list" where
  "lev_outer [] bs i prev buf = prev"
| "lev_outer (ca # as) bs i prev buf =
     (let row = lev_inner ca bs 0 prev (buf[0 := i + 1]) in lev_outer as bs (i + 1) row prev)"

definition levenshtein :: "string \<Rightarrow> string \<Rightarrow> nat" where
  "levenshtein a b =
     (let a_len = length a; b_len = length b
      in if a_len = 0 then b_len else if b_len = 0 then a_len
         else lev_outer (utf8_chars a) (utf8_chars b) 0 [0..<b_len + 1] (replicate (b_len + 1) 0) ! b_len)"

definition closer :: "string \<Rightarrow> nat \<Rightarrow> (nat \<times> string) option \<Rightarrow> string \<Rightarrow> (nat \<times> string) option" where
  "closer target threshold best candidate =
     (let dist = levenshtein target candidate
      in if dist \<le> threshold
         then case best of None \<Rightarrow> Some (dist, candidate)
              | Some (best_dist, _) \<Rightarrow> if dist < best_dist then Some (dist, candidate) else best
         else best)"

definition suggest_closest :: "string \<Rightarrow> string list \<Rightarrow> string option" where
  "suggest_closest target candidates =
     (if candidates = [] then None
      else map_option snd (foldl (closer target (max 2 (length target div 3))) None candidates))"

section \<open>Edit distance\<close>

text \<open>The specification: an edit script keeps, substitutes, deletes or inserts one character
  at a time.\<close>

inductive edits :: "nat \<Rightarrow> 'a list \<Rightarrow> 'a list \<Rightarrow> bool" where
  nil: "edits 0 [] []"
| keep: "edits n xs ys \<Longrightarrow> edits n (x # xs) (x # ys)"
| subst: "edits n xs ys \<Longrightarrow> edits (Suc n) (x # xs) (y # ys)"
| del: "edits n xs ys \<Longrightarrow> edits (Suc n) (x # xs) ys"
| ins: "edits n xs ys \<Longrightarrow> edits (Suc n) xs (y # ys)"

fun edit_distance :: "'a list \<Rightarrow> 'a list \<Rightarrow> nat" where
  "edit_distance [] ys = length ys"
| "edit_distance (x # xs) [] = Suc (length xs)"
| "edit_distance (x # xs) (y # ys) =
     min (min (edit_distance xs ys + (if x = y then 0 else 1)) (edit_distance xs (y # ys) + 1))
         (edit_distance (x # xs) ys + 1)"

lemma edit_distance_Nil [simp]: "edit_distance xs [] = length xs"
  by (cases xs) simp_all

lemma edits_Nil: "edits (length ys) [] ys"
  by (induction ys) (auto intro: edits.intros)

lemma edits_Nil2: "edits (length xs) xs []"
  by (induction xs) (auto intro: edits.intros)

lemma edits_edit_distance: "edits (edit_distance xs ys) xs ys"
proof (induction xs ys rule: edit_distance.induct)
  case (3 x xs y ys)
  then show ?case by (auto simp: min_def intro: edits.intros)
qed (auto simp: edits_Nil intro: edits_Nil2 [of "x # xs" for x xs, simplified])

lemma edit_distance_Cons_le: "edit_distance (x # xs) ys \<le> Suc (edit_distance xs ys)"
  by (cases ys) simp_all

lemma edit_distance_Cons2_le: "edit_distance xs (y # ys) \<le> Suc (edit_distance xs ys)"
  by (cases xs) simp_all

lemma edit_distance_le: "edits n xs ys \<Longrightarrow> edit_distance xs ys \<le> n"
proof (induction rule: edits.induct)
  case (del n xs ys x)
  then show ?case using edit_distance_Cons_le [of x xs ys] by simp
next
  case (ins n xs ys y)
  then show ?case using edit_distance_Cons2_le [of xs y ys] by simp
qed auto

lemma edits_append: "edits n xs ys \<Longrightarrow> edits m us vs \<Longrightarrow> edits (n + m) (xs @ us) (ys @ vs)"
  by (induction rule: edits.induct) (auto intro: edits.intros)

lemma edits_rev: "edits n xs ys \<Longrightarrow> edits n (rev xs) (rev ys)"
proof (induction rule: edits.induct)
  case (keep n xs ys x)
  then show ?case using edits_append [of n _ _ 0 "[x]" "[x]"] by (auto intro: edits.intros)
next
  case (subst n xs ys x y)
  then show ?case using edits_append [of n _ _ "Suc 0" "[x]" "[y]"] by (auto intro: edits.intros)
next
  case (del n xs ys x)
  then show ?case using edits_append [of n _ _ "Suc 0" "[x]" "[]"] by (auto intro: edits.intros)
next
  case (ins n xs ys y)
  then show ?case using edits_append [of n _ _ "Suc 0" "[]" "[y]"] by (auto intro: edits.intros)
qed (simp add: edits.nil)

lemma edit_distance_rev: "edit_distance (rev xs) (rev ys) = edit_distance xs ys"
  by (metis antisym edit_distance_le edits_edit_distance edits_rev rev_rev_ident)

lemma edit_distance_snoc:
  "edit_distance (xs @ [x]) (ys @ [y]) =
     min (min (edit_distance xs ys + (if x = y then 0 else 1)) (edit_distance xs (ys @ [y]) + 1))
         (edit_distance (xs @ [x]) ys + 1)"
proof -
  have "edit_distance (x # rev xs) (y # rev ys) = edit_distance (xs @ [x]) (ys @ [y])"
    "edit_distance (rev xs) (y # rev ys) = edit_distance xs (ys @ [y])"
    "edit_distance (x # rev xs) (rev ys) = edit_distance (xs @ [x]) ys"
    using edit_distance_rev [of "xs @ [x]" "ys @ [y]"] edit_distance_rev [of xs "ys @ [y]"]
      edit_distance_rev [of "xs @ [x]" ys] by simp_all
  then show ?thesis using edit_distance.simps(3) [of x "rev xs" y "rev ys"] edit_distance_rev [of xs ys] by simp
qed

text \<open>The buffer holds the distances of a prefix of the first string to the prefixes of the second.\<close>

lemma lev_inner_row:
  assumes "j + length us = length bs" "us = drop j bs" "length prev = Suc (length bs)" "length buf = Suc (length bs)"
    and "\<forall>k\<le>length bs. prev ! k = edit_distance xs (take k bs)"
    and "\<forall>k\<le>j. buf ! k = edit_distance (xs @ [x]) (take k bs)"
  shows "length (lev_inner x us j prev buf) = Suc (length bs)
    \<and> (\<forall>k\<le>length bs. lev_inner x us j prev buf ! k = edit_distance (xs @ [x]) (take k bs))"
  using assms
proof (induction us arbitrary: j buf)
  case (Cons u us)
  have j: "j < length bs" using Cons.prems(1) by simp
  then have "u = bs ! j \<and> us = drop (Suc j) bs"
    using Cons.prems(2) by (metis Cons_nth_drop_Suc list.inject)
  then have u: "u = bs ! j" and us: "us = drop (Suc j) bs" by blast+
  let ?v = "min (min (prev ! j + (if x = u then 0 else 1)) (prev ! Suc j + 1)) (buf ! j + 1)"
  have "?v = edit_distance (xs @ [x]) (take (Suc j) bs)"
    using Cons.prems(5,6) j u edit_distance_snoc [of xs x "take j bs" u]
    by (simp add: take_Suc_conv_app_nth)
  then have "\<forall>k\<le>Suc j. buf[Suc j := ?v] ! k = edit_distance (xs @ [x]) (take k bs)"
    using Cons.prems(4,6) j by (auto simp: nth_list_update le_Suc_eq)
  then show ?case using Cons.IH [of "Suc j" "buf[Suc j := ?v]"] Cons.prems(1,3-5) us by (simp add: Let_def)
qed simp

lemma lev_outer_row:
  assumes "length prev = Suc (length bs)" "length buf = Suc (length bs)" "i = length xs"
    and "\<forall>k\<le>length bs. prev ! k = edit_distance xs (take k bs)"
  shows "lev_outer as bs i prev buf ! length bs = edit_distance (xs @ as) bs"
  using assms
proof (induction as arbitrary: i prev buf xs)
  case (Cons x as)
  let ?row = "lev_inner x bs 0 prev (buf[0 := i + 1])"
  have "length ?row = Suc (length bs) \<and> (\<forall>k\<le>length bs. ?row ! k = edit_distance (xs @ [x]) (take k bs))"
    using Cons.prems by (intro lev_inner_row) auto
  then show ?case using Cons.IH [of ?row prev "i + 1" "xs @ [x]"] Cons.prems by (simp add: Let_def)
qed simp

definition ascii :: "string \<Rightarrow> bool" where
  "ascii s \<longleftrightarrow> (\<forall>c\<in>set s. (of_char c :: nat) < 128)"

lemma utf8_chars_ascii: "ascii s \<Longrightarrow> utf8_chars s = map (\<lambda>c. [c]) s"
proof (induction s)
  case (Cons c s)
  have "takeWhile continuation s = []" "dropWhile continuation s = s"
    using Cons.prems by (cases s; auto simp: ascii_def continuation_def)+
  then show ?case using Cons by (simp add: utf8_chars.simps(2) ascii_def)
qed simp

lemma levenshtein_distance:
  assumes "ascii a" "ascii b"
  shows "levenshtein a b = edit_distance (utf8_chars a) (utf8_chars b)"
proof -
  have len: "length (utf8_chars a) = length a" "length (utf8_chars b) = length b"
    using assms by (simp_all add: utf8_chars_ascii)
  have "lev_outer (utf8_chars a) (utf8_chars b) 0 [0..<length b + 1] (replicate (length b + 1) 0) ! length b =
      edit_distance (utf8_chars a) (utf8_chars b)"
    using lev_outer_row [of "[0..<length b + 1]" "utf8_chars b" "replicate (length b + 1) 0" 0 "[]" "utf8_chars a"] len
    by (simp del: upt_Suc)
  then show ?thesis using len by (auto simp: levenshtein_def Let_def)
qed

section \<open>Properties\<close>

text \<open>C27.  The two-row computation of the edit distance is correct for ASCII strings: its
  result is the length of a shortest script of single-character substitutions, deletions and
  insertions that turns one string into the other.\<close>

theorem levenshtein_minimal:
  assumes "ascii a" "ascii b"
  shows "edits (levenshtein a b) (utf8_chars a) (utf8_chars b)
    \<and> (\<forall>n. edits n (utf8_chars a) (utf8_chars b) \<longrightarrow> levenshtein a b \<le> n)"
  using edits_edit_distance edit_distance_le by (auto simp: levenshtein_distance [OF assms])

theorem levenshtein_minimal_witness:
  "ascii '':person/namee'' \<and> edits 1 (utf8_chars '':person/namee'') (utf8_chars '':person/name'')"
proof -
  have "ascii '':person/namee''" "ascii '':person/name''" by (simp_all add: ascii_def)
  moreover have "levenshtein '':person/namee'' '':person/name'' = 1" by code_simp
  ultimately show ?thesis using levenshtein_minimal by metis
qed

text \<open>The loop keeps the first closest candidate within the threshold.\<close>

definition best_of :: "string \<Rightarrow> nat \<Rightarrow> string list \<Rightarrow> (nat \<times> string) option \<Rightarrow> bool" where
  "best_of t th cs best = (case best of
      None \<Rightarrow> \<forall>c\<in>set cs. th < levenshtein t c
    | Some (d, s) \<Rightarrow> d = levenshtein t s \<and> d \<le> th \<and>
        (\<exists>ys zs. cs = ys @ s # zs \<and> (\<forall>c\<in>set ys. d < levenshtein t c) \<and> (\<forall>c\<in>set zs. d \<le> levenshtein t c)))"

lemma closer_best:
  assumes "best_of t th cs best"
  shows "best_of t th (cs @ [c]) (closer t th best c)"
proof (cases best)
  case None
  then show ?thesis using assms by (fastforce simp: best_of_def closer_def Let_def)
next
  case (Some p)
  then obtain d s ys zs where p: "p = (d, s)" "d = levenshtein t s" "d \<le> th" "cs = ys @ s # zs"
      "\<forall>c\<in>set ys. d < levenshtein t c" "\<forall>c\<in>set zs. d \<le> levenshtein t c"
    using assms by (auto simp: best_of_def)
  show ?thesis
  proof (cases "levenshtein t c < d")
    case True
    then have "\<forall>c'\<in>set cs. levenshtein t c < levenshtein t c'" using p by auto
    then show ?thesis using True p(1,3) Some by (fastforce simp: best_of_def closer_def Let_def)
  next
    case False
    then have "closer t th best c = Some (d, s)" using Some p(1) by (simp add: closer_def Let_def)
    moreover have "cs @ [c] = ys @ s # (zs @ [c])" "\<forall>c'\<in>set (zs @ [c]). d \<le> levenshtein t c'" using p(4,6) False by auto
    ultimately show ?thesis using p(2,3,5) unfolding best_of_def by fastforce
  qed
qed

lemma foldl_closer: "best_of t th cs (foldl (closer t th) None cs)"
  by (induction cs rule: rev_induct) (simp_all add: closer_best, simp add: best_of_def)

text \<open>C28.  The suggestion for an unknown attribute is the first of the candidates at the least edit
  distance: those before it are farther, those after it are not closer.  There is none exactly
  when every candidate is farther than the threshold of two or a third of the name's length.\<close>

theorem suggest_closest_best:
  "case suggest_closest t cs of
     None \<Rightarrow> \<forall>c\<in>set cs. max 2 (length t div 3) < levenshtein t c
   | Some s \<Rightarrow> levenshtein t s \<le> max 2 (length t div 3)
       \<and> (\<exists>ys zs. cs = ys @ s # zs \<and> (\<forall>c\<in>set ys. levenshtein t s < levenshtein t c)
            \<and> (\<forall>c\<in>set zs. levenshtein t s \<le> levenshtein t c))"
proof (cases "foldl (closer t (max 2 (length t div 3))) None cs")
  case None
  then show ?thesis using foldl_closer [of t "max 2 (length t div 3)" cs] by (auto simp: suggest_closest_def best_of_def)
next
  case (Some p)
  moreover have "cs \<noteq> []" using Some by auto
  ultimately show ?thesis
    using foldl_closer [of t "max 2 (length t div 3)" cs] by (cases p) (simp add: suggest_closest_def best_of_def)
qed

theorem suggest_closest_best_witness:
  "suggest_closest '':person/namee'' ['':person/age'', '':person/name''] = Some '':person/name''
   \<and> levenshtein '':person/namee'' '':person/name'' \<le> 4"
proof -
  have *: "suggest_closest '':person/namee'' ['':person/age'', '':person/name''] = Some '':person/name''" by code_simp
  then show ?thesis using suggest_closest_best [where t = "'':person/namee''" and cs = "['':person/age'', '':person/name'']"] by simp
qed

text \<open>C39.  The text of every error starts with its error code, so a client can classify errors
  by their prefix.  The code of a failed compare-and-swap is the one that is not in the
  \<open>:db.error\<close> namespace.\<close>

theorem display_error_code:
  "(\<exists>rest. display_error e = error_code e @ rest) \<and>
   ((\<exists>rest. error_code e = '':db.error/'' @ rest) \<longleftrightarrow> error_code e \<noteq> '':db.fn/cas'')"
  by (cases e) simp_all

text \<open>The last cell of a row is not written when the second string has fewer characters than bytes, so
  that the two buffers keep what they were created with there.\<close>

lemma lev_inner_beyond: "j + length bs < k \<Longrightarrow> lev_inner ca bs j prev buf ! k = buf ! k"
  by (induction ca bs j prev buf rule: lev_inner.induct) (simp_all add: Let_def)

lemma lev_outer_beyond:
  "length bs < k \<Longrightarrow> lev_outer as bs i prev buf ! k = (if even (length as) then prev ! k else buf ! k)"
  by (induction as bs i prev buf rule: lev_outer.induct) (simp_all add: Let_def lev_inner_beyond)

text \<open>C40.  The edit distance to a string with a character outside ASCII says nothing about the two
  strings: the buffers have a cell for each byte and are filled for each character, and the cell of
  the last byte is read.  The result is 0 when the first string has an odd number of characters,
  however different it is, and the number of bytes of the second otherwise, even for equal strings.\<close>

theorem levenshtein_non_ascii:
  assumes "a \<noteq> []" "length (utf8_chars b) < length b"
  shows "levenshtein a b = (if odd (length (utf8_chars a)) then 0 else length b)"
  using assms by (cases "b = []") (simp_all add: levenshtein_def Let_def lev_outer_beyond nth_append del: upt_Suc)

theorem levenshtein_non_ascii_witness:
  "levenshtein ''e'' [CHR 0xC3, CHR 0xA9] = 0 \<and> levenshtein [CHR ''a'', CHR 0xC3, CHR 0xA9] [CHR ''a'', CHR 0xC3, CHR 0xA9] = 3"
proof -
  have "utf8_chars ''e'' = [''e'']" "utf8_chars [CHR 0xC3, CHR 0xA9] = [[CHR 0xC3, CHR 0xA9]]"
    "utf8_chars [CHR ''a'', CHR 0xC3, CHR 0xA9] = [''a'', [CHR 0xC3, CHR 0xA9]]" by code_simp+
  then show ?thesis
    using levenshtein_non_ascii [of "''e''" "[CHR 0xC3, CHR 0xA9]"]
      levenshtein_non_ascii [of "[CHR ''a'', CHR 0xC3, CHR 0xA9]" "[CHR ''a'', CHR 0xC3, CHR 0xA9]"] by simp
qed

end
