(* ===== verification/Transact.thy ===== *)
theory Transact
  imports Edn_Grammar Projection Upsert Schema_Cache Errors
begin

text \<open>
  The transactor (\<open>pg_mentat/src/functions/transact.rs\<close>) on the default store: schema \<open>mentat\<close>,
  store id 0.  The state \<open>db\<close> is the tables that the transactor reads and writes; what the server
  supplies (sequence values, the clock) is the record \<open>txenv\<close>, a sequence being a stream of values
  with the number of values taken so far in the state.  Attributes and idents are looked up in
  a schema cache that is warm on the transaction's own view of the catalog, which is how a
  coherent cache behaves from \<open>begin_tx_cache_bypass\<close> on (theory \<open>Schema_Cache\<close>).  Advisory locks
  have no effect on a single transaction and are left out.
\<close>

section \<open>State\<close>

record db =
  store :: tables
  cat :: catalog
  transactions :: "(int \<times> int) list"
  fulltext_values :: "string list"
  user_seq :: nat
  tx_seq :: nat

text \<open>Errors of the reader and of the server; their texts are \<open>foreign_text\<close>.\<close>

datatype foreign_error = Parse parse_failure | Sql sql_error | UniqueViolation string

record txenv = pgx +
  user_ids :: "nat \<Rightarrow> int option"
  tx_ids :: "nat \<Rightarrow> int option"
  now :: int
  debug_value :: "edn_value \<Rightarrow> string"
  foreign_text :: "foreign_error \<Rightarrow> string"
  order_idents :: "string list \<Rightarrow> string list"

datatype tx_error =
    Mentat mentat_error
  | Message string
  | Foreign foreign_error

type_synonym tempids = "(string \<times> int) list"

abbreviation store_id :: int where "store_id \<equiv> 0"

section \<open>Names of types\<close>

definition keyword_to_value_type :: "keyword \<Rightarrow> string option" where
  "keyword_to_value_type kw =
     (if kw_name kw \<in> {''ref'', ''boolean'', ''instant'', ''long'', ''double'', ''string'', ''keyword'', ''uuid'', ''bytes''}
      then Some (kw_name kw) else None)"

definition keyword_to_cardinality :: "keyword \<Rightarrow> string option" where
  "keyword_to_cardinality kw = (if kw_name kw \<in> {''one'', ''many''} then Some (kw_name kw) else None)"

definition keyword_to_unique :: "keyword \<Rightarrow> string option" where
  "keyword_to_unique kw = (if kw_name kw \<in> {''value'', ''identity''} then Some (kw_name kw) else None)"

primrec value_type_name :: "edn_value \<Rightarrow> string" where
  "value_type_name VNil = ''nil''"
| "value_type_name (VBoolean _) = ''boolean''"
| "value_type_name (VInteger _) = ''integer''"
| "value_type_name (VBigInteger _) = ''biginteger''"
| "value_type_name (VFloat _) = ''float/double''"
| "value_type_name (VInstant _) = ''instant''"
| "value_type_name (VUuid _) = ''uuid''"
| "value_type_name (VText _) = ''text/string''"
| "value_type_name (VKeyword _) = ''keyword''"
| "value_type_name (VPlainSymbol _) = ''symbol''"
| "value_type_name (VNamespacedSymbol _) = ''namespaced symbol''"
| "value_type_name (VVector _) = ''vector''"
| "value_type_name (VList _) = ''list''"
| "value_type_name (VSet _) = ''set''"
| "value_type_name (VMap _) = ''map''"
| "value_type_name (VBytes _) = ''unknown''"

definition tag_to_value_type_name :: "int \<Rightarrow> string" where
  "tag_to_value_type_name tag =
     (if tag = 0 then ''ref'' else if tag = 1 then ''boolean'' else if tag = 2 then ''long''
      else if tag = 3 then ''double'' else if tag = 4 then ''instant'' else if tag = 7 then ''string''
      else if tag = 8 then ''keyword'' else if tag = 10 then ''uuid'' else if tag = 11 then ''bytes''
      else ''unknown'')"

definition value_type_to_tag :: "string \<Rightarrow> int" where
  "value_type_to_tag vt =
     (if vt = ''ref'' then 0 else if vt = ''boolean'' then 1 else if vt = ''long'' then 2
      else if vt = ''double'' then 3 else if vt = ''instant'' then 4 else if vt = ''string'' then 7
      else if vt = ''keyword'' then 8 else if vt = ''uuid'' then 10 else if vt = ''bytes'' then 11
      else - 1)"

section \<open>Catalog lookups\<close>

definition tx_cache_view :: "db \<Rightarrow> schema_cache" where
  "tx_cache_view d = warm (cat d) new_cache"

definition lookup_attribute_info :: "db \<Rightarrow> int \<Rightarrow> attribute_info option" where
  "lookup_attribute_info d a = fst (get_attribute True (cat d) (tx_cache_view d) a)"

definition lookup_value_type :: "db \<Rightarrow> int \<Rightarrow> string option" where
  "lookup_value_type d a = map_option value_type (lookup_attribute_info d a)"

definition is_fulltext_attribute :: "db \<Rightarrow> int \<Rightarrow> bool" where
  "is_fulltext_attribute d a = (case lookup_attribute_info d a of Some info \<Rightarrow> fulltext info | None \<Rightarrow> False)"

definition cached_ident :: "db \<Rightarrow> string \<Rightarrow> int option" where
  "cached_ident d ident = fst (resolve_ident True (cat d) (tx_cache_view d) ident)"

text \<open>The name of an attribute in error messages.\<close>

definition ident_name :: "db \<Rightarrow> int \<Rightarrow> string" where
  "ident_name d a = (case fst (get_ident True (cat d) (tx_cache_view d) a) of
      Some i \<Rightarrow> i | None \<Rightarrow> ''entid:'' @ show_int a)"

text \<open>\<open>SELECT ident FROM mentat.schema ORDER BY ident LIMIT 50\<close>; the order of the idents depends on
  the collation of the database.\<close>

definition get_available_attributes :: "'x txenv_scheme \<Rightarrow> db \<Rightarrow> string list" where
  "get_available_attributes x d = take 50 (order_idents x (map s_ident (schema_rows (cat d))))"

definition attribute_not_found :: "'x txenv_scheme \<Rightarrow> db \<Rightarrow> string \<Rightarrow> mentat_error" where
  "attribute_not_found x d attr =
     (let available = get_available_attributes x d
      in AttributeNotFound attr available (suggest_closest attr available))"

definition resolve_attribute :: "'x txenv_scheme \<Rightarrow> db \<Rightarrow> edn_value \<Rightarrow> (tx_error, int) result" where
  "resolve_attribute x d v =
     (case v of
        VInteger i \<Rightarrow> Inr i
      | VKeyword kw \<Rightarrow> of_option (Mentat (attribute_not_found x d (kw_display kw))) (cached_ident d (kw_display kw))
      | _ \<Rightarrow> Inl (Mentat (InvalidAttribute (value_type_name v) (display_value x v))))"

definition try_resolve_attribute :: "db \<Rightarrow> edn_value \<Rightarrow> int option" where
  "try_resolve_attribute d v =
     (case v of VInteger i \<Rightarrow> Some i | VKeyword kw \<Rightarrow> cached_ident d (kw_display kw) | _ \<Rightarrow> None)"

section \<open>Values\<close>

definition encode_value :: "'x txenv_scheme \<Rightarrow> edn_value \<Rightarrow> (tx_error, typed_value) result" where
  "encode_value x v =
     (case v of
        VBoolean b \<Rightarrow> Inr (TBoolean b)
      | VInteger i \<Rightarrow> Inr (TLong i)
      | VText s \<Rightarrow> Inr (TText s)
      | VFloat f \<Rightarrow> Inr (TDouble f)
      | VInstant t \<Rightarrow> Inr (TInstant (to_micros t))
      | VUuid u \<Rightarrow> Inr (TUuid u)
      | VBytes b \<Rightarrow> Inr (TBytes b)
      | VKeyword kw \<Rightarrow>
          (let text = kw_display kw
           in Inr (TKeyword (if take 1 text = '':'' then drop 1 text else text)))
      | _ \<Rightarrow> Inl (Mentat (UnsupportedValueType (value_type_name v) (display_value x v))))"

definition check_unique :: "'x txenv_scheme \<Rightarrow> db \<Rightarrow> int \<Rightarrow> typed_value \<Rightarrow> int option" where
  "check_unique x d a v = check_unique_typed_value x store_id a v (store d)"

text \<open>\<open>SELECT nextval('mentat.partition_user_seq')\<close>\<close>

definition next_user_id :: "'x txenv_scheme \<Rightarrow> db \<Rightarrow> (tx_error, int \<times> db) result" where
  "next_user_id x d =
     rbind (of_option (Mentat (AllocationFailed ''db.part/user'')) (user_ids x (user_seq d)))
       (\<lambda>i. Inr (i, d\<lparr>user_seq := Suc (user_seq d)\<rparr>))"

definition resolve_entity_place ::
  "'x txenv_scheme \<Rightarrow> edn_value \<Rightarrow> tempids \<times> db \<Rightarrow> (tx_error, int \<times> tempids \<times> db) result" where
  "resolve_entity_place x v s =
     (let (tm, d) = s in
      case v of
        VInteger i \<Rightarrow> Inr (i, tm, d)
      | VText t \<Rightarrow>
          (case bt_get str_cmp t tm of
             Some e \<Rightarrow> Inr (e, tm, d)
           | None \<Rightarrow> rbind (next_user_id x d) (\<lambda>(e, d'). Inr (e, bt_insert str_cmp t e tm, d')))
      | VKeyword kw \<Rightarrow>
          (let ident = kw_display kw;
               found = (case cached_ident d ident of Some e \<Rightarrow> Some e | None \<Rightarrow> map_of (ident_rows (cat d)) ident)
           in rbind (of_option (Mentat (EntityNotFound ident
                ''Ensure this ident was previously defined via mentat_transact with :db/ident.'')) found)
                (\<lambda>e. Inr (e, tm, d)))
      | VVector [k, val] \<Rightarrow>
          (case k of
             VKeyword _ \<Rightarrow>
               rbind (resolve_attribute x d k) (\<lambda>a.
               rbind (of_option (Mentat (attribute_not_found x d (ident_name d a))) (lookup_attribute_info d a)) (\<lambda>info.
               if unique_constraint info = None then Inl (Mentat (LookupRefRequiresUnique (ident_name d a)))
               else rbind (encode_value x val) (\<lambda>tv.
                 rbind (of_option (Mentat (LookupRefNotFound (ident_name d a)
                     ''Ensure an entity with this attribute value has been transacted.''))
                   (check_unique x d a tv)) (\<lambda>e. Inr (e, tm, d)))))
           | _ \<Rightarrow> Inl (Mentat (InvalidEntityPlace (value_type_name k)
                     (''Lookup ref first element must be a keyword attribute, got '' @ display_value x k))))
      | _ \<Rightarrow> Inl (Mentat (InvalidEntityPlace (value_type_name v) (display_value x v))))"

definition encode_ref_value ::
  "'x txenv_scheme \<Rightarrow> edn_value \<Rightarrow> tempids \<times> db \<Rightarrow> (tx_error, typed_value \<times> tempids \<times> db) result" where
  "encode_ref_value x v s = rbind (resolve_entity_place x v s) (\<lambda>(e, s'). Inr (TRef e, s'))"

text \<open>The choice both passes over assertions make: a reference for reference attributes.\<close>

definition encode_for ::
  "'x txenv_scheme \<Rightarrow> int \<Rightarrow> edn_value \<Rightarrow> tempids \<times> db \<Rightarrow> (tx_error, typed_value \<times> tempids \<times> db) result" where
  "encode_for x a v s =
     (if lookup_value_type (snd s) a = Some ''ref'' then encode_ref_value x v s
      else rbind (encode_value x v) (\<lambda>tv. Inr (tv, s)))"

section \<open>Schema assertions\<close>

record schema_builder =
  b_ident :: "string option"
  b_value_type :: "string option"
  b_cardinality :: "string option"
  b_unique :: "string option"
  b_indexed :: "bool option"
  b_fulltext :: "bool option"
  b_component :: "bool option"
  b_no_history :: "bool option"

definition default_builder :: schema_builder where
  "default_builder = \<lparr>b_ident = None, b_value_type = None, b_cardinality = None, b_unique = None,
     b_indexed = None, b_fulltext = None, b_component = None, b_no_history = None\<rparr>"

type_synonym builders = "(int \<times> schema_builder) list"

definition update_builder :: "int \<Rightarrow> (schema_builder \<Rightarrow> schema_builder) \<Rightarrow> builders \<Rightarrow> builders" where
  "update_builder e f bs = bt_insert ord_cmp e
     (f (case bt_get ord_cmp e bs of Some b \<Rightarrow> b | None \<Rightarrow> default_builder)) bs"

definition collect_schema_assertion :: "int \<Rightarrow> int \<Rightarrow> edn_value \<Rightarrow> builders \<Rightarrow> builders" where
  "collect_schema_assertion e a v bs =
     (if a = 10 then case v of VKeyword kw \<Rightarrow> update_builder e (b_ident_update (\<lambda>_. Some (kw_display kw))) bs | _ \<Rightarrow> bs
      else if a = 11 then case v of VKeyword kw \<Rightarrow>
          (case keyword_to_value_type kw of Some t \<Rightarrow> update_builder e (b_value_type_update (\<lambda>_. Some t)) bs | None \<Rightarrow> bs) | _ \<Rightarrow> bs
      else if a = 12 then case v of VKeyword kw \<Rightarrow>
          (case keyword_to_cardinality kw of Some t \<Rightarrow> update_builder e (b_cardinality_update (\<lambda>_. Some t)) bs | None \<Rightarrow> bs) | _ \<Rightarrow> bs
      else if a = 13 then case v of VKeyword kw \<Rightarrow>
          (case keyword_to_unique kw of Some t \<Rightarrow> update_builder e (b_unique_update (\<lambda>_. Some t)) bs | None \<Rightarrow> bs) | _ \<Rightarrow> bs
      else if a = 14 then case v of VBoolean b \<Rightarrow> update_builder e (b_indexed_update (\<lambda>_. Some b)) bs | _ \<Rightarrow> bs
      else if a = 15 then case v of VBoolean b \<Rightarrow> update_builder e (b_fulltext_update (\<lambda>_. Some b)) bs | _ \<Rightarrow> bs
      else if a = 16 \<or> a = 18 then case v of VBoolean b \<Rightarrow> update_builder e (b_component_update (\<lambda>_. Some b)) bs | _ \<Rightarrow> bs
      else if a = 17 then case v of VBoolean b \<Rightarrow> update_builder e (b_no_history_update (\<lambda>_. Some b)) bs | _ \<Rightarrow> bs
      else bs)"

text \<open>\<open>INSERT INTO mentat.idents .. ON CONFLICT (ident) DO UPDATE\<close>, whose table has a unique
  constraint on \<open>entid\<close>, and \<open>INSERT INTO mentat.schema .. ON CONFLICT (entid) DO UPDATE\<close>, whose
  table has one on \<open>ident\<close>.\<close>

definition upsert_ident :: "string \<Rightarrow> int \<Rightarrow> catalog \<Rightarrow> (tx_error, catalog) result" where
  "upsert_ident ident e c =
     (if \<exists>(i, e') \<in> set (ident_rows c). e' = e \<and> i \<noteq> ident then Inl (Foreign (UniqueViolation ''idents_entid_key''))
      else Inr (c\<lparr>ident_rows := AList.update ident e (ident_rows c)\<rparr>))"

definition upsert_schema :: "schema_row \<Rightarrow> catalog \<Rightarrow> (tx_error, catalog) result" where
  "upsert_schema r c =
     (if \<exists>q \<in> set (schema_rows c). s_ident q = s_ident r \<and> s_entid q \<noteq> s_entid r
      then Inl (Foreign (UniqueViolation ''schema_ident_key''))
      else Inr (c\<lparr>schema_rows := (if s_entid r \<in> s_entid ` set (schema_rows c)
                     then map (\<lambda>q. if s_entid q = s_entid r then r else q) (schema_rows c)
                     else schema_rows c @ [r])\<rparr>))"

definition incomplete_message :: "string \<Rightarrow> string \<Rightarrow> string" where
  "incomplete_message what missing = ''incomplete schema attribute definition '' @ what @ '': missing '' @ missing @
     ''. A schema attribute requires :db/ident, :db/valueType, and :db/cardinality.''"

definition or_false :: "bool option \<Rightarrow> bool" where
  "or_false b = (case b of Some v \<Rightarrow> v | None \<Rightarrow> False)"

definition install_builder :: "int \<times> schema_builder \<Rightarrow> catalog \<Rightarrow> (tx_error, catalog) result" where
  "install_builder eb c =
     (let (e, b) = eb;
          is_attr = (b_value_type b \<noteq> None \<or> b_cardinality b \<noteq> None)
      in case b_ident b of
           None \<Rightarrow> if is_attr then Inl (Mentat (InvalidTransaction
                     (incomplete_message (''(entity '' @ show_int e @ '')'') '':db/ident''))) else Inr c
         | Some ident \<Rightarrow>
             let quoted = ''for '' @ [CHR 0x27] @ ident @ [CHR 0x27] in
             if \<not> is_attr then upsert_ident ident e c
             else (case (b_value_type b, b_cardinality b) of
                 (None, _) \<Rightarrow> Inl (Mentat (InvalidTransaction (incomplete_message quoted '':db/valueType'')))
               | (_, None) \<Rightarrow> Inl (Mentat (InvalidTransaction (incomplete_message quoted '':db/cardinality'')))
               | (Some vt, Some ct) \<Rightarrow>
                   rbind (upsert_ident ident e c) (upsert_schema \<lparr>s_entid = e, s_ident = ident,
                     s_info = \<lparr>value_type = vt, cardinality = ct, unique_constraint = b_unique b,
                       fulltext = or_false (b_fulltext b), indexed = or_false (b_indexed b),
                       component = or_false (b_component b), no_history = or_false (b_no_history b)\<rparr>\<rparr>)))"

definition install_schema_attributes :: "builders \<Rightarrow> db \<Rightarrow> (tx_error, db) result" where
  "install_schema_attributes bs d = rbind (foldR install_builder bs (cat d)) (\<lambda>c. Inr (d\<lparr>cat := c\<rparr>))"

section \<open>First pass\<close>

definition is_db_id :: "keyword \<Rightarrow> bool" where
  "is_db_id kw \<longleftrightarrow> kw_namespace kw = Some ''db'' \<and> kw_name kw = ''id''"

definition db_id_key :: edn_value where
  "db_id_key = (case kw_namespaced ''db'' ''id'' of Inr kw \<Rightarrow> VKeyword kw | Inl _ \<Rightarrow> VNil)"

definition is_db_id_value :: "edn_value \<Rightarrow> bool" where
  "is_db_id_value k = (case k of VKeyword kw \<Rightarrow> is_db_id kw | _ \<Rightarrow> False)"

record pass1_state =
  tempid_map :: tempids
  builders_of :: builders
  map_entity_ids :: "(nat \<times> int) list"
  p_db :: db

definition pass1_vector :: "'x txenv_scheme \<Rightarrow> edn_value list \<Rightarrow> pass1_state \<Rightarrow> (tx_error, pass1_state) result" where
  "pass1_vector x ev s =
     (case ev ! 0 of
        VKeyword kw \<Rightarrow>
          if kw_name kw = ''add'' then
            rbind (resolve_entity_place x (ev ! 1) (tempid_map s, p_db s)) (\<lambda>(e, tm, d).
              let s' = s\<lparr>tempid_map := tm, p_db := d\<rparr> in
              case try_resolve_attribute d (ev ! 2) of
                None \<Rightarrow> Inr s'
              | Some a \<Rightarrow> Inr (s'\<lparr>builders_of := collect_schema_assertion e a (ev ! 3) (builders_of s')\<rparr>))
          else Inr s
      | _ \<Rightarrow> Inr s)"

definition pass1_entry :: "int \<Rightarrow> pass1_state \<Rightarrow> edn_value \<times> edn_value \<Rightarrow> pass1_state" where
  "pass1_entry e s kv =
     (if is_db_id_value (fst kv) then s
      else case try_resolve_attribute (p_db s) (fst kv) of
        None \<Rightarrow> s
      | Some a \<Rightarrow> s\<lparr>builders_of := collect_schema_assertion e a (snd kv) (builders_of s)\<rparr>)"

definition pass1_map :: "'x txenv_scheme \<Rightarrow> nat \<Rightarrow> (edn_value \<times> edn_value) list \<Rightarrow> pass1_state \<Rightarrow> (tx_error, pass1_state) result" where
  "pass1_map x idx m s =
     rbind (case bt_get value_cmp db_id_key m of
              Some idv \<Rightarrow> rbind (resolve_entity_place x idv (tempid_map s, p_db s))
                 (\<lambda>(e, tm, d). Inr (e, s\<lparr>tempid_map := tm, p_db := d\<rparr>))
            | None \<Rightarrow> rbind (next_user_id x (p_db s))
                 (\<lambda>(e, d). Inr (e, s\<lparr>map_entity_ids := AList.update idx e (map_entity_ids s), p_db := d\<rparr>)))
       (\<lambda>(e, s'). Inr (foldl (pass1_entry e) s' m))"

definition pass1_entity :: "'x txenv_scheme \<Rightarrow> nat \<times> edn_value \<Rightarrow> pass1_state \<Rightarrow> (tx_error, pass1_state) result" where
  "pass1_entity x iv s =
     (case snd iv of
        VVector ev \<Rightarrow> if 4 \<le> length ev then pass1_vector x ev s else Inr s
      | VMap m \<Rightarrow> pass1_map x (fst iv) m s
      | _ \<Rightarrow> Inr s)"

definition pass1 :: "'x txenv_scheme \<Rightarrow> edn_value list \<Rightarrow> db \<Rightarrow> (tx_error, pass1_state) result" where
  "pass1 x entities d = foldR (pass1_entity x) (List.enumerate 0 entities)
     \<lparr>tempid_map = [], builders_of = [], map_entity_ids = [], p_db = d\<rparr>"

section \<open>Transaction functions\<close>

datatype builtin_tx_fn = Cas | RetractEntity

definition recognize_tx_fn :: "keyword \<Rightarrow> builtin_tx_fn option" where
  "recognize_tx_fn kw =
     (if kw_name kw = ''cas'' \<and> kw_namespace kw \<in> {Some ''db.fn'', Some ''db''} then Some Cas
      else if kw_name kw = ''retractEntity'' \<and> kw_namespace kw \<in> {Some ''db.fn'', Some ''db'', None} then Some RetractEntity
      else None)"

text \<open>\<open>SELECT .. FROM mentat.datoms WHERE e = $1 AND added = true\<close>; the view shows store 0.\<close>

definition entity_datoms :: "db \<Rightarrow> int \<Rightarrow> log_row list" where
  "entity_datoms d e = filter (\<lambda>r. l_store r = 0 \<and> l_e r = e \<and> l_added r) (datoms (store d))"

definition is_component :: "db \<Rightarrow> int \<Rightarrow> bool" where
  "is_component d a = (case lookup_attribute_info d a of Some info \<Rightarrow> component info | None \<Rightarrow> False)"

definition component_targets :: "db \<Rightarrow> log_row list \<Rightarrow> int list" where
  "component_targets d rows = List.map_filter
     (\<lambda>r. case l_v r of TRef t \<Rightarrow> if is_component d (l_a r) then Some t else None | _ \<Rightarrow> None) rows"

definition retraction_of :: "log_row \<Rightarrow> pending_datom" where
  "retraction_of r = \<lparr>p_e = l_e r, p_a = l_a r, p_v = l_v r, p_added = False\<rparr>"

lemma component_targets_Nil [simp]: "component_targets d [] = []"
  by (simp add: component_targets_def List.map_filter_simps)

lemma entity_datoms_Nil: "e \<notin> l_e ` set (datoms (store d)) \<Longrightarrow> entity_datoms d e = []"
  by (auto simp: entity_datoms_def filter_empty_conv)

text \<open>The recursion with its set of visited entities; the entities still to retract are the
  targets of the calls that have not returned, innermost first.\<close>

function retract_entities :: "db \<Rightarrow> int list \<Rightarrow> int set \<Rightarrow> pending_datom list \<Rightarrow> pending_datom list" where
  "retract_entities d [] visited pending = pending"
| "retract_entities d (e # es) visited pending =
     (if e \<in> visited then retract_entities d es visited pending
      else let rows = entity_datoms d e
           in retract_entities d (component_targets d rows @ es) (insert e visited) (pending @ map retraction_of rows))"
  by pat_completeness auto

termination
proof (relation "inv_image (finite_psubset <*lex*> less_than)
    (\<lambda>(d, es, visited, pending). (l_e ` set (datoms (store d)) - visited, length es))")
  fix d :: db and e :: int and es :: "int list" and visited :: "int set" and pending :: "pending_datom list" and rows
  assume "e \<notin> visited" "rows = entity_datoms d e"
  then show "((d, component_targets d rows @ es, insert e visited, pending @ map retraction_of rows), (d, e # es, visited, pending))
      \<in> inv_image (finite_psubset <*lex*> less_than)
          (\<lambda>(d, es, visited, pending). (l_e ` set (datoms (store d)) - visited, length es))"
    by (cases "e \<in> l_e ` set (datoms (store d))") (auto simp: finite_psubset_def entity_datoms_Nil)
qed auto

definition execute_retract_entity_fn :: "db \<Rightarrow> int \<Rightarrow> pending_datom list \<Rightarrow> pending_datom list" where
  "execute_retract_entity_fn d e pending = retract_entities d [e] {} pending"

primrec format_typed_value :: "'x txenv_scheme \<Rightarrow> typed_value \<Rightarrow> string" where
  "format_typed_value x (TRef i) = show_int i"
| "format_typed_value x (TBoolean b) = (if b then ''true'' else ''false'')"
| "format_typed_value x (TLong n) = show_int n"
| "format_typed_value x (TDouble f) = show_f64 x f"
| "format_typed_value x (TText s) = [CHR 0x22] @ s @ [CHR 0x22]"
| "format_typed_value x (TKeyword s) = '':'' @ s"
| "format_typed_value x (TInstant m) = ''<instant:'' @ show_int m @ ''>''"
| "format_typed_value x (TUuid u) = ''#uuid '' @ [CHR 0x22] @ hyphenated x u @ [CHR 0x22]"
| "format_typed_value x (TBytes b) = ''<bytes:'' @ hex_encode x b @ ''>''"

definition current_values :: "db \<Rightarrow> int \<Rightarrow> int \<Rightarrow> typed_value list" where
  "current_values d e a = map c_v (filter (\<lambda>c. c_store c = 0 \<and> c_e c = e \<and> c_a c = a) (current (store d)))"

definition cas_swap ::
  "'x txenv_scheme \<Rightarrow> int \<Rightarrow> int \<Rightarrow> edn_value \<Rightarrow> edn_value \<Rightarrow> typed_value list \<Rightarrow> tempids \<times> db \<Rightarrow>
     pending_datom list \<Rightarrow> (tx_error, (tempids \<times> db) \<times> pending_datom list) result" where
  "cas_swap x e a old new vals s pending =
     rbind (if old = VNil then Inr (None, s)
            else rbind (encode_for x a old s) (\<lambda>(v, s'). Inr (Some v, s')))
       (\<lambda>(old_encoded, s').
         let matches = (case old_encoded of
                 None \<Rightarrow> vals = []
               | Some ov \<Rightarrow> length vals = 1 \<and> tv_eq (vals ! 0) ov)
         in if \<not> matches
            then Inl (Mentat (CasFailed e (ident_name (snd s) a) (debug_value x old)
                   (if vals = [] then ''nil'' else join '', '' (map (format_typed_value x) vals))))
            else rbind (encode_for x a new s') (\<lambda>(new_val, s'').
                   Inr (s'', pending
                     @ (case old_encoded of Some ov \<Rightarrow> [\<lparr>p_e = e, p_a = a, p_v = ov, p_added = False\<rparr>] | None \<Rightarrow> [])
                     @ [\<lparr>p_e = e, p_a = a, p_v = new_val, p_added = True\<rparr>])))"

definition execute_cas_fn ::
  "'x txenv_scheme \<Rightarrow> int \<Rightarrow> int \<Rightarrow> edn_value \<Rightarrow> edn_value \<Rightarrow> (tempids \<times> db) \<times> pending_datom list \<Rightarrow>
     (tx_error, (tempids \<times> db) \<times> pending_datom list) result" where
  "execute_cas_fn x e a old new sp =
     (let (s, pending) = sp; d = snd s; vals = current_values d e a in
      case lookup_attribute_info d a of
        Some info \<Rightarrow>
          if cardinality info = ''many'' \<and> 1 < length vals
          then Inl (Mentat (CasFailed e (ident_name d a) ''at most one existing value''
                 (''cardinality-many attribute has '' @ show_nat (length vals) @
                  '' values; CAS requires at most one existing value'')))
          else cas_swap x e a old new vals s pending
      | None \<Rightarrow> cas_swap x e a old new vals s pending)"

section \<open>Second pass\<close>

type_synonym pass2_state = "(tempids \<times> db) \<times> pending_datom list"

definition invalid :: "string \<Rightarrow> (tx_error, 'a) result" where
  "invalid msg = Inl (Mentat (InvalidTransaction msg))"

definition apply_tx_fn :: "'x txenv_scheme \<Rightarrow> builtin_tx_fn \<Rightarrow> edn_value list \<Rightarrow> pass2_state \<Rightarrow> (tx_error, pass2_state) result" where
  "apply_tx_fn x f ev sp =
     (case f of
        RetractEntity \<Rightarrow>
          if length ev \<noteq> 2 then invalid ('':db.fn/retractEntity requires exactly 1 argument (entity-id), got ''
               @ show_nat (length ev - 1) @ ''. Format: [:db.fn/retractEntity entity-id]'')
          else rbind (resolve_entity_place x (ev ! 1) (fst sp)) (\<lambda>(e, s).
                 Inr (s, execute_retract_entity_fn (snd s) e (snd sp)))
      | Cas \<Rightarrow>
          if length ev \<noteq> 5 then invalid ('':db.fn/cas requires exactly 4 arguments (entity attr old-value new-value), got ''
               @ show_nat (length ev - 1) @ ''. Format: [:db.fn/cas e a old-val new-val]'')
          else rbind (resolve_entity_place x (ev ! 1) (fst sp)) (\<lambda>(e, s).
               rbind (resolve_attribute x (snd s) (ev ! 2)) (\<lambda>a.
                 execute_cas_fn x e a (ev ! 3) (ev ! 4) (s, snd sp))))"

definition assert_op :: "'x txenv_scheme \<Rightarrow> bool \<Rightarrow> edn_value list \<Rightarrow> pass2_state \<Rightarrow> (tx_error, pass2_state) result" where
  "assert_op x added ev sp =
     rbind (resolve_entity_place x (ev ! 1) (fst sp)) (\<lambda>(e, s).
     rbind (resolve_attribute x (snd s) (ev ! 2)) (\<lambda>a.
     rbind (encode_for x a (ev ! 3) s) (\<lambda>(v, s').
       Inr (s', snd sp @ [\<lparr>p_e = e, p_a = a, p_v = v, p_added = added\<rparr>]))))"

definition pass2_entry :: "'x txenv_scheme \<Rightarrow> int \<Rightarrow> edn_value \<times> edn_value \<Rightarrow> pass2_state \<Rightarrow> (tx_error, pass2_state) result" where
  "pass2_entry x e kv sp =
     (if is_db_id_value (fst kv) then Inr sp
      else rbind (resolve_attribute x (snd (fst sp)) (fst kv)) (\<lambda>a.
           rbind (encode_for x a (snd kv) (fst sp)) (\<lambda>(v, s').
             Inr (s', snd sp @ [\<lparr>p_e = e, p_a = a, p_v = v, p_added = True\<rparr>]))))"

definition pass2_map :: "'x txenv_scheme \<Rightarrow> (nat \<times> int) list \<Rightarrow> nat \<Rightarrow> (edn_value \<times> edn_value) list \<Rightarrow> pass2_state \<Rightarrow>
    (tx_error, pass2_state) result" where
  "pass2_map x map_ids idx m sp =
     rbind (case bt_get value_cmp db_id_key m of
              Some idv \<Rightarrow> resolve_entity_place x idv (fst sp)
            | None \<Rightarrow> (case map_of map_ids idx of
                 Some e \<Rightarrow> Inr (e, fst sp)
               | None \<Rightarrow> rbind (next_user_id x (snd (fst sp))) (\<lambda>(e, d). Inr (e, fst (fst sp), d))))
       (\<lambda>(e, s). foldR (pass2_entry x e) m (s, snd sp))"

definition leading_fn :: "edn_value list \<Rightarrow> builtin_tx_fn option" where
  "leading_fn ev = (case ev of VKeyword kw # _ \<Rightarrow> recognize_tx_fn kw | _ \<Rightarrow> None)"

definition pass2_vector :: "'x txenv_scheme \<Rightarrow> edn_value list \<Rightarrow> pass2_state \<Rightarrow> (tx_error, pass2_state) result" where
  "pass2_vector x ev sp =
     (if 2 \<le> length ev \<and> leading_fn ev \<noteq> None then
        (case leading_fn ev of Some f \<Rightarrow> apply_tx_fn x f ev sp | None \<Rightarrow> Inr sp)
      else if 4 \<le> length ev then
        (case ev ! 0 of
           VKeyword kw \<Rightarrow>
             if kw_name kw = ''add'' then assert_op x True ev sp
             else if kw_name kw = ''retract'' then assert_op x False ev sp
             else invalid (''unknown transaction operation '' @ [CHR 0x27] @ kw_display kw @ [CHR 0x27] @
               ''. Expected one of :db/add, :db/retract, :db/cas, :db.fn/cas, :db/retractEntity, :db.fn/retractEntity.'')
         | _ \<Rightarrow> Inr sp)
      else case ev of
        VKeyword kw # _ \<Rightarrow> invalid (''malformed assertion starting with '' @ [CHR 0x27] @ kw_display kw @ [CHR 0x27] @
            '': got '' @ show_nat (length ev) @ '' element(s). Expected [:db/add e a v] or [:db/retract e a v] (4 elements), '' @
            ''[:db/cas e a old new] (5 elements), or [:db/retractEntity e] (2 elements).'')
      | _ \<Rightarrow> Inr sp)"

definition pass2_entity :: "'x txenv_scheme \<Rightarrow> (nat \<times> int) list \<Rightarrow> nat \<times> edn_value \<Rightarrow> pass2_state \<Rightarrow> (tx_error, pass2_state) result" where
  "pass2_entity x map_ids iv sp =
     (case snd iv of
        VVector ev \<Rightarrow> pass2_vector x ev sp
      | VMap m \<Rightarrow> pass2_map x map_ids (fst iv) m sp
      | _ \<Rightarrow> Inr sp)"

definition pass2 :: "'x txenv_scheme \<Rightarrow> (nat \<times> int) list \<Rightarrow> edn_value list \<Rightarrow> tempids \<times> db \<Rightarrow> (tx_error, pass2_state) result" where
  "pass2 x map_ids entities s = foldR (pass2_entity x map_ids) (List.enumerate 0 entities) (s, [])"

section \<open>Insertion\<close>

definition assertions_of :: "int \<Rightarrow> int \<Rightarrow> pending_datom list \<Rightarrow> nat" where
  "assertions_of e a ds = length (filter (\<lambda>d. p_e d = e \<and> p_a d = a \<and> p_added d) ds)"

definition duplicates_of :: "pending_datom \<Rightarrow> pending_datom list \<Rightarrow> nat" where
  "duplicates_of dt ds = length (filter (\<lambda>d. p_a d = p_a dt \<and> tv_eq (p_v d) (p_v dt) \<and> p_e d \<noteq> p_e dt \<and> p_added d) ds)"

definition validate_datom_constraints ::
  "'x txenv_scheme \<Rightarrow> pending_datom \<Rightarrow> pending_datom list \<Rightarrow> db \<Rightarrow> (tx_error, unit) result" where
  "validate_datom_constraints x dt pending d =
     (case lookup_attribute_info d (p_a dt) of
        None \<Rightarrow> Inl (Mentat (attribute_not_found x d (ident_name d (p_a dt))))
      | Some info \<Rightarrow>
          let expected = value_type_to_tag (value_type info); got = type_tag (p_v dt) in
          if got \<noteq> expected
          then Inl (Mentat (TypeMismatch (ident_name d (p_a dt)) (value_type info) (tag_to_value_type_name got) expected got))
          else if cardinality info = ''one'' \<and> 1 < assertions_of (p_e dt) (p_a dt) pending
          then Inl (Mentat (CardinalityViolation (ident_name d (p_a dt)) (p_e dt) (assertions_of (p_e dt) (p_a dt) pending)))
          else if cardinality info \<noteq> ''one'' \<and> cardinality info \<noteq> ''many''
          then Inl (Mentat (InvalidCardinality (cardinality info) (p_a dt)))
          else (case unique_constraint info of
              None \<Rightarrow> Inr ()
            | Some ut \<Rightarrow>
                if 0 < duplicates_of dt pending
                then Inl (Mentat (UniqueConstraintViolation (ident_name d (p_a dt)) ut (p_e dt) (p_e dt)))
                else (case check_unique x d (p_a dt) (p_v dt) of
                    Some e \<Rightarrow> if e \<noteq> p_e dt
                              then Inl (Mentat (UniqueConstraintViolation (ident_name d (p_a dt)) ut e (p_e dt)))
                              else Inr ()
                  | None \<Rightarrow> Inr ())))"

record insert_state =
  rows_to_insert :: "row list"
  fulltext_queue :: "string list"
  i_db :: db

definition read_result :: "(read_error, 'a) result \<Rightarrow> (tx_error, 'a) result" where
  "read_result r = (case r of Inl (BadValue m) \<Rightarrow> Inl (Message m) | Inr v \<Rightarrow> Inr v)"

definition queue_assertion :: "pending_datom \<Rightarrow> int \<Rightarrow> insert_state \<Rightarrow> insert_state" where
  "queue_assertion dt tx s =
     s\<lparr>rows_to_insert := rows_to_insert s @ [(p_e dt, p_a dt, p_v dt, tx, True)],
       fulltext_queue := fulltext_queue s @
         (case p_v dt of TText t \<Rightarrow> if is_fulltext_attribute (i_db s) (p_a dt) then [t] else [] | _ \<Rightarrow> [])\<rparr>"

definition map_store :: "(tables \<Rightarrow> tables) \<Rightarrow> insert_state \<Rightarrow> insert_state" where
  "map_store f s = s\<lparr>i_db := (i_db s)\<lparr>store := f (store (i_db s))\<rparr>\<rparr>"

text \<open>An assertion of an attribute without history: prune, then queue.\<close>

definition assert_no_history ::
  "'x txenv_scheme \<Rightarrow> int \<Rightarrow> pending_datom \<Rightarrow> attribute_info \<Rightarrow> insert_state \<Rightarrow> (tx_error, insert_state) result" where
  "assert_no_history x tx dt info s =
     (let t = store (i_db s) in
      if cardinality info = ''one'' then
        rbind (read_result (retract_existing_cardinality_one x store_id (p_e dt) (p_a dt) (p_v dt) t)) (\<lambda>r.
          if r = Skip then Inr s
          else Inr (queue_assertion dt tx
            (map_store (\<lambda>t. prune_projection_ea store_id (p_e dt) (p_a dt) (p_v dt)
               (prune_no_history_ea store_id (p_e dt) (p_a dt) (p_v dt) t)) s)))
      else if cardinality info = ''many'' then
        if is_duplicate_cardinality_many x store_id (p_e dt) (p_a dt) (p_v dt) t then Inr s
        else Inr (queue_assertion dt tx (map_store (prune_no_history_eav x store_id (p_e dt) (p_a dt) (p_v dt)) s))
      else Inl (Mentat (InvalidCardinality (cardinality info) (p_a dt))))"

definition assert_with_history ::
  "'x txenv_scheme \<Rightarrow> int \<Rightarrow> pending_datom \<Rightarrow> attribute_info \<Rightarrow> insert_state \<Rightarrow> (tx_error, insert_state) result" where
  "assert_with_history x tx dt info s =
     (let t = store (i_db s) in
      if cardinality info = ''one'' then
        rbind (read_result (retract_existing_cardinality_one x store_id (p_e dt) (p_a dt) (p_v dt) t)) (\<lambda>r.
          case r of
            Skip \<Rightarrow> Inr s
          | Insert \<Rightarrow> Inr (queue_assertion dt tx s)
          | Replace old_v \<Rightarrow> Inr (queue_assertion dt tx
              (s\<lparr>rows_to_insert := rows_to_insert s @ [(p_e dt, p_a dt, old_v, tx, False)]\<rparr>)))
      else if cardinality info = ''many'' then
        if is_duplicate_cardinality_many x store_id (p_e dt) (p_a dt) (p_v dt) t then Inr s
        else Inr (queue_assertion dt tx s)
      else Inl (Mentat (InvalidCardinality (cardinality info) (p_a dt))))"

definition insert_step ::
  "'x txenv_scheme \<Rightarrow> int \<Rightarrow> pending_datom list \<Rightarrow> pending_datom \<Rightarrow> insert_state \<Rightarrow> (tx_error, insert_state) result" where
  "insert_step x tx pending dt s =
     (if p_added dt then
        rbind (validate_datom_constraints x dt pending (i_db s)) (\<lambda>_.
          case lookup_attribute_info (i_db s) (p_a dt) of
            None \<Rightarrow> Inr (queue_assertion dt tx s)
          | Some info \<Rightarrow> if no_history info then assert_no_history x tx dt info s
                         else assert_with_history x tx dt info s)
      else Inr (s\<lparr>rows_to_insert := rows_to_insert s @ [(p_e dt, p_a dt, p_v dt, tx, False)]\<rparr>))"

definition insert_datoms :: "'x txenv_scheme \<Rightarrow> pending_datom list \<Rightarrow> int \<Rightarrow> db \<Rightarrow> (tx_error, nat \<times> db) result" where
  "insert_datoms x pending tx d =
     rbind (foldR (insert_step x tx pending) pending \<lparr>rows_to_insert = [], fulltext_queue = [], i_db = d\<rparr>) (\<lambda>s.
       case write_rows x store_id (rows_to_insert s) (store (i_db s)) of
         Inl err \<Rightarrow> Inl (Foreign (Sql err))
       | Inr t \<Rightarrow> Inr (length pending, (i_db s)\<lparr>store := t, fulltext_values := fulltext_values (i_db s) @ fulltext_queue s\<rparr>))"

section \<open>A transaction\<close>

definition max_tx_below :: "int \<Rightarrow> (int \<times> int) list \<Rightarrow> int" where
  "max_tx_below tx txs = (case filter (\<lambda>t. t < tx) (map fst txs) of [] \<Rightarrow> 0 | t # ts \<Rightarrow> foldl max t ts)"

definition allocate_tx_id :: "'x txenv_scheme \<Rightarrow> db \<Rightarrow> (tx_error, (int \<times> int \<times> int) \<times> db) result" where
  "allocate_tx_id x d =
     rbind (of_option (Mentat (AllocationFailed ''db.part/tx'')) (tx_ids x (tx_seq d))) (\<lambda>tx.
       if tx \<in> fst ` set (transactions d)
       then Inl (Mentat (TransactionFailed (''Failed to create transaction record. '' @
              ''The mentat.transactions table may be missing or the insert failed.'')))
       else Inr ((max_tx_below tx (transactions d), tx, now x),
              d\<lparr>tx_seq := Suc (tx_seq d), transactions := transactions d @ [(tx, now x)]\<rparr>))"

text \<open>The \<open>:db/txInstant\<close> datom: into the log through the view, whose trigger does nothing on a
  conflict, and into the projection.\<close>

definition insert_log_ignore :: "log_row \<Rightarrow> log_row list \<Rightarrow> log_row list" where
  "insert_log_ignore r ds = (if log_key r \<in> log_key ` set ds then ds else ds @ [r])"

definition insert_tx_instant :: "'x txenv_scheme \<Rightarrow> int \<Rightarrow> int \<Rightarrow> tables \<Rightarrow> tables" where
  "insert_tx_instant x tx micros t =
     (let v = column x (TInstant micros)
      in t\<lparr>datoms := insert_log_ignore \<lparr>l_store = 0, l_e = tx, l_a = 50, l_v = v, l_tx = tx, l_added = True\<rparr> (datoms t),
           current := upsert_cur \<lparr>c_store = store_id, c_e = tx, c_a = 50, c_v = v, c_tx = tx\<rparr> (current t)\<rparr>)"

text \<open>The JSON text of the report.\<close>

fun json_escape :: "string \<Rightarrow> string" where
  "json_escape [] = []"
| "json_escape (c # s) =
     (if c = CHR 0x5C then [CHR 0x5C, CHR 0x5C]
      else if c = CHR 0x22 then [CHR 0x5C, CHR 0x22]
      else if c = CHR 0x0A then [CHR 0x5C, CHR ''n'']
      else if c = CHR 0x0D then [CHR 0x5C, CHR ''r'']
      else if c = CHR 0x09 then [CHR 0x5C, CHR ''t'']
      else [c]) @ json_escape s"

definition jquote :: "string \<Rightarrow> string" where
  "jquote s = [CHR 0x22] @ s @ [CHR 0x22]"

definition hex_digit :: "nat \<Rightarrow> char" where
  "hex_digit n = ''0123456789abcdef'' ! n"

definition lower_hex :: "string \<Rightarrow> string" where
  "lower_hex bs = concat (map (\<lambda>b. [hex_digit (of_char b div 16), hex_digit (of_char b mod 16)]) bs)"

definition jtagged :: "string \<Rightarrow> string \<Rightarrow> string" where
  "jtagged t v = ''{'' @ jquote ''_t'' @ '':'' @ jquote t @ '','' @ jquote ''v'' @ '':'' @ v @ ''}''"

primrec format_typed_value_for_json :: "'x txenv_scheme \<Rightarrow> typed_value \<Rightarrow> string" where
  "format_typed_value_for_json x (TRef i) = show_int i"
| "format_typed_value_for_json x (TBoolean b) = (if b then ''true'' else ''false'')"
| "format_typed_value_for_json x (TLong n) = show_int n"
| "format_typed_value_for_json x (TDouble f) = jtagged ''double'' (show_f64 x f)"
| "format_typed_value_for_json x (TInstant m) = jtagged ''inst'' (show_int m)"
| "format_typed_value_for_json x (TText s) = jquote (json_escape s)"
| "format_typed_value_for_json x (TKeyword s) = jquote ('':'' @ s)"
| "format_typed_value_for_json x (TUuid u) = jtagged ''uuid'' (jquote (hyphenated x u))"
| "format_typed_value_for_json x (TBytes b) = jquote (lower_hex b)"

definition tx_data_entry :: "'x txenv_scheme \<Rightarrow> int \<Rightarrow> int \<Rightarrow> typed_value \<Rightarrow> int \<Rightarrow> bool \<Rightarrow> string" where
  "tx_data_entry x e a v tx added =
     ''['' @ show_int e @ '','' @ show_int a @ '','' @ format_typed_value_for_json x v @ '','' @ show_int tx @ '',''
       @ (if added then ''true'' else ''false'') @ '']''"

definition tx_report :: "'x txenv_scheme \<Rightarrow> int \<Rightarrow> int \<Rightarrow> int \<Rightarrow> pending_datom list \<Rightarrow> tempids \<Rightarrow> bool \<Rightarrow> string" where
  "tx_report x basis tx micros pending tm schema_changed =
     (let entries = tx_data_entry x tx 50 (TInstant micros) tx True
                    # map (\<lambda>d. tx_data_entry x (p_e d) (p_a d) (p_v d) tx (p_added d)) pending
      in ''{'' @ jquote ''db-before'' @ '':{'' @ jquote ''basis-t'' @ '':'' @ show_int basis @ ''},''
         @ jquote ''db-after'' @ '':{'' @ jquote ''basis-t'' @ '':'' @ show_int tx @ ''},''
         @ jquote ''tx-data'' @ '':['' @ join '','' entries @ ''],''
         @ jquote ''tempids'' @ '':{'' @ join '','' (map (\<lambda>(k, v). jquote k @ '':'' @ show_int v) tm) @ ''},''
         @ jquote ''schema_changed'' @ '':'' @ (if schema_changed then ''true'' else ''false'') @ ''}'')"

definition is_identity_attribute :: "db \<Rightarrow> int \<Rightarrow> bool" where
  "is_identity_attribute d a \<longleftrightarrow>
     (case lookup_attribute_info d a of Some info \<Rightarrow> unique_constraint info = Some ''identity'' | None \<Rightarrow> False)"

definition conflicting_upsert :: "upsert_error \<Rightarrow> tx_error" where
  "conflicting_upsert err = (case err of ConflictingUpsert e prev existing \<Rightarrow>
     Mentat (InvalidTransaction (''Conflicting upsert: tempid for entity '' @ show_int e @ '' resolves to both ''
       @ show_int prev @ '' and '' @ show_int existing @ '' via different :db.unique/identity attributes'')))"

text \<open>From the entities to the datoms: pass 1, schema installation, pass 2, upsert resolution.\<close>

definition resolve_entities ::
  "'x txenv_scheme \<Rightarrow> edn_value list \<Rightarrow> db \<Rightarrow> (tx_error, (pending_datom list \<times> tempids \<times> bool) \<times> db) result" where
  "resolve_entities x entities d =
     rbind (pass1 x entities d) (\<lambda>p1.
     rbind (install_schema_attributes (builders_of p1) (p_db p1)) (\<lambda>d1.
     rbind (pass2 x (map_entity_ids p1) entities (tempid_map p1, d1)) (\<lambda>((tm, d2), pending).
     rbind (case resolve_upserts (is_identity_attribute d2) (check_unique x d2) pending tm of
              Inl err \<Rightarrow> Inl (conflicting_upsert err) | Inr r \<Rightarrow> Inr r) (\<lambda>(pending', tm').
       Inr ((pending', tm', builders_of p1 \<noteq> []), d2)))))"

definition process_entities ::
  "'x txenv_scheme \<Rightarrow> edn_value list \<Rightarrow> int \<Rightarrow> db \<Rightarrow> (tx_error, (pending_datom list \<times> tempids \<times> bool) \<times> db) result" where
  "process_entities x entities tx d =
     rbind (resolve_entities x entities d) (\<lambda>(r, d').
     rbind (insert_datoms x (fst r) tx d') (\<lambda>(n, d''). Inr (r, d'')))"

definition execute_transaction_inner :: "'x txenv_scheme \<Rightarrow> string \<Rightarrow> db \<Rightarrow> (tx_error, string \<times> db) result" where
  "execute_transaction_inner x edn_tx d =
     (case parse_value x edn_tx of
        Inl e \<Rightarrow> Inl (Foreign (Parse e))
      | Inr (VVector entities) \<Rightarrow>
          rbind (allocate_tx_id x d) (\<lambda>((basis, tx, micros), d0).
            let d1 = d0\<lparr>store := insert_tx_instant x tx micros (store d0)\<rparr> in
            rbind (process_entities x entities tx d1) (\<lambda>((pending, tm, changed), d2).
              Inr (tx_report x basis tx micros pending tm changed, d2)))
      | Inr v \<Rightarrow> invalid (''Transaction must be a vector of entities, got '' @ value_type_name v @
          ''. Expected EDN like: [[:db/add '' @ jquote ''tempid'' @ '' :attr '' @ jquote ''value'' @ '']]''))"

section \<open>Retries\<close>

fun contains :: "string \<Rightarrow> string \<Rightarrow> bool" where
  "contains [] pat \<longleftrightarrow> pat = []"
| "contains (c # s) pat \<longleftrightarrow> take (length pat) (c # s) = pat \<or> contains s pat"

definition error_text :: "'x txenv_scheme \<Rightarrow> tx_error \<Rightarrow> string" where
  "error_text x err = (case err of Mentat e \<Rightarrow> display_error e | Message m \<Rightarrow> m | Foreign f \<Rightarrow> foreign_text x f)"

definition is_serialization_failure :: "'x txenv_scheme \<Rightarrow> tx_error \<Rightarrow> bool" where
  "is_serialization_failure x err \<longleftrightarrow>
     (let msg = error_text x err
      in contains msg ''40001'' \<or> contains msg ''serialization_failure''
         \<or> contains msg ''could not serialize access'' \<or> contains msg ''40P01'' \<or> contains msg ''deadlock detected'')"

definition MAX_SERIALIZATION_RETRIES :: nat where "MAX_SERIALIZATION_RETRIES = 5"

definition BASE_RETRY_DELAY_MS :: nat where "BASE_RETRY_DELAY_MS = 10"

definition transaction_touched_schema :: "string \<Rightarrow> bool" where
  "transaction_touched_schema result_json \<longleftrightarrow> contains result_json (jquote ''schema_changed'' @ '':true'')"

text \<open>After an attempt that succeeded, the generation counter tells the other backends about new
  attributes (the backend's own cache: \<open>tx_cache\<close> of \<open>Schema_Cache\<close>).\<close>

definition publish_schema :: "string \<times> db \<Rightarrow> string \<times> db" where
  "publish_schema r = (if transaction_touched_schema (fst r)
     then (fst r, (snd r)\<lparr>cat := bump_store_generation (cat (snd r))\<rparr>) else r)"

text \<open>The loop, given what the attempts return (\<open>run k\<close> for the \<open>k\<close>-th).  The result comes with
  the delays slept, in milliseconds.\<close>

function retry_loop ::
  "'x txenv_scheme \<Rightarrow> (nat \<Rightarrow> (tx_error, string \<times> db) result) \<Rightarrow> nat \<Rightarrow> nat list \<Rightarrow> (tx_error, string \<times> db) result \<times> nat list" where
  "retry_loop x run prev delays =
     (let attempt = prev + 1 in
      case run attempt of
        Inr r \<Rightarrow> (Inr (publish_schema r), delays)
      | Inl err \<Rightarrow>
          if is_serialization_failure x err \<and> attempt < MAX_SERIALIZATION_RETRIES
          then retry_loop x run attempt (delays @ [BASE_RETRY_DELAY_MS * 2 ^ (attempt - 1)])
          else if is_serialization_failure x err
          then (Inl (Mentat (SerializationFailure (''Transaction failed after '' @ show_nat attempt @
                 '' attempts due to concurrent modifications. The transaction was retried with exponential '' @
                 ''backoff but could not be serialized. Original error: '' @ error_text x err) attempt)), delays)
          else (Inl err, delays))"
  by pat_completeness auto
termination
  by (relation "measure (\<lambda>(x, run, prev, delays). MAX_SERIALIZATION_RETRIES - prev)")
    (auto simp: MAX_SERIALIZATION_RETRIES_def)

declare retry_loop.simps [simp del]

text \<open>The tables that the \<open>k\<close>-th attempt sees are \<open>d k\<close>: what other transactions commit between two
  attempts is theirs to choose.\<close>

definition execute_transaction_body ::
  "'x txenv_scheme \<Rightarrow> string \<Rightarrow> (nat \<Rightarrow> db) \<Rightarrow> (tx_error, string \<times> db) result \<times> nat list" where
  "execute_transaction_body x edn_tx d = retry_loop x (\<lambda>k. execute_transaction_inner x edn_tx (d k)) 0 []"

definition mentat_transact :: "'x txenv_scheme \<Rightarrow> string \<Rightarrow> (nat \<Rightarrow> db) \<Rightarrow> (tx_error, string \<times> db) result" where
  "mentat_transact x edn_tx d = fst (execute_transaction_body x edn_tx d)"

section \<open>Speculative transactions\<close>

text \<open>The PL/pgSQL helper \<open>_speculative_exec\<close> raises the report as an exception, for which the server rolls
  the tables back, and hands out the rest of a message that is \<open>LIKE 'SPECULATIVE_OK:%'\<close>.  In the
  pattern the underscore stands for any character.  What is modelled is the result; nothing but
  values of the sequences is used up.\<close>

definition speculative_marker :: string where "speculative_marker = ''SPECULATIVE_OK:''"

definition like_marker :: "string \<Rightarrow> bool" where
  "like_marker sqlerrm \<longleftrightarrow>
     (let cs = utf8_chars sqlerrm in
      15 \<le> length cs \<and> list_all2 (\<lambda>p c. p = CHR ''_'' \<or> c = [p]) speculative_marker (take 15 cs))"

definition speculative_exec :: "'x txenv_scheme \<Rightarrow> string \<Rightarrow> (nat \<Rightarrow> db) \<Rightarrow> (tx_error, string) result" where
  "speculative_exec x p_edn d =
     (let (sqlerrm, raised) = (case mentat_transact x p_edn d of
          Inr (report, d') \<Rightarrow> (speculative_marker @ report, Message (speculative_marker @ report))
        | Inl err \<Rightarrow> (error_text x err, err))
      in if like_marker sqlerrm then Inr (concat (drop 15 (utf8_chars sqlerrm))) else Inl raised)"

definition mentat_with :: "'x txenv_scheme \<Rightarrow> string \<Rightarrow> (nat \<Rightarrow> db) \<Rightarrow> (tx_error, string) result" where
  "mentat_with x edn_tx d = speculative_exec x edn_tx d"

section \<open>An example\<close>

text \<open>A server and tables on which the definitions can be evaluated: a name, tags, a unique
  e-mail address and components, and two entities, one a component of the other.\<close>

definition sample_env :: txenv where
  "sample_env = \<lparr>rfc3339 = \<lambda>_. [], hyphenated = id, hex_encode = id, show_f64 = \<lambda>_. [],
     timestamp_opt = \<lambda>s n. Some (DateTime s n), parse_f64 = \<lambda>_. NaN,
     parse_rfc3339 = \<lambda>_. None, parse_uuid = Some, hex_decode = Some,
     f64_exp = \<lambda>q. (case quotient_of q of (n, d) \<Rightarrow> show_int n @ ''/'' @ show_int d),
     f64_text = \<lambda>_. ''NaN'', read_f64 = \<lambda>_. Some NaN, to_timestamp = id,
     pick_log = \<lambda>_. 0, pick_cur = \<lambda>_. 0,
     user_ids = \<lambda>i. Some (1000 + int i), tx_ids = \<lambda>i. Some (500 + int i), now = 0,
     debug_value = \<lambda>_. [], foreign_text = \<lambda>_. [], order_idents = id\<rparr>"

definition sample_attr :: "int \<Rightarrow> string \<Rightarrow> string \<Rightarrow> string \<Rightarrow> string option \<Rightarrow> bool \<Rightarrow> schema_row" where
  "sample_attr e ident vt ct u c = \<lparr>s_entid = e, s_ident = ident, s_info = \<lparr>value_type = vt, cardinality = ct,
     unique_constraint = u, fulltext = False, indexed = False, component = c, no_history = False\<rparr>\<rparr>"

definition sample_db :: db where
  "sample_db =
     \<lparr>store = \<lparr>datoms = [\<lparr>l_store = 0, l_e = 100, l_a = 65, l_v = TText ''a'', l_tx = 1, l_added = True\<rparr>,
                 \<lparr>l_store = 0, l_e = 100, l_a = 68, l_v = TRef 101, l_tx = 1, l_added = True\<rparr>,
                 \<lparr>l_store = 0, l_e = 101, l_a = 66, l_v = TText ''t'', l_tx = 1, l_added = True\<rparr>],
               current = [\<lparr>c_store = 0, c_e = 100, c_a = 65, c_v = TText ''a'', c_tx = 1\<rparr>,
                 \<lparr>c_store = 0, c_e = 100, c_a = 68, c_v = TRef 101, c_tx = 1\<rparr>,
                 \<lparr>c_store = 0, c_e = 101, c_a = 66, c_v = TText ''t'', c_tx = 1\<rparr>]\<rparr>,
      cat = \<lparr>schema_rows = [sample_attr 50 '':db/txInstant'' ''instant'' ''one'' None False,
                 sample_attr 65 '':p/name'' ''string'' ''one'' None False,
                 sample_attr 66 '':p/tag'' ''string'' ''many'' None False,
                 sample_attr 67 '':p/email'' ''string'' ''one'' (Some ''identity'') False,
                 sample_attr 68 '':p/part'' ''ref'' ''many'' None True],
             ident_rows = [], gen_row = Some 0\<rparr>,
      transactions = [(1, 0)], fulltext_values = [], user_seq = 0, tx_seq = 0\<rparr>"

end
