(* ===== verification/Tx_Functions.thy ===== *)
theory Tx_Functions
  imports Transact
begin

text \<open>
  Properties of the parts of a transaction that stand on their own: the transaction functions
  \<open>:db.fn/retractEntity\<close> and the retry loop.
\<close>

section \<open>Retracting an entity\<close>

definition component_edge :: "db \<Rightarrow> int \<Rightarrow> int \<Rightarrow> bool" where
  "component_edge d e t \<longleftrightarrow> t \<in> set (component_targets d (entity_datoms d e))"

definition retractions :: "db \<Rightarrow> int list \<Rightarrow> pending_datom list" where
  "retractions d es = concat (map (\<lambda>e. map retraction_of (entity_datoms d e)) es)"

lemma retract_entities_walk:
  "\<exists>vs. retract_entities d es visited pending = pending @ retractions d vs
     \<and> distinct vs \<and> set vs \<inter> visited = {} \<and> set es \<subseteq> set vs \<union> visited
     \<and> (\<forall>v\<in>set vs. \<forall>t. component_edge d v t \<longrightarrow> t \<in> set vs \<union> visited)
     \<and> (\<forall>v\<in>set vs. \<exists>e\<in>set es. (component_edge d)\<^sup>*\<^sup>* e v)
     \<and> (\<forall>e rest. es = e # rest \<and> e \<notin> visited \<longrightarrow> take 1 vs = [e])"
proof (induction d es visited pending rule: retract_entities.induct)
  case (1 d visited pending)
  then show ?case by (intro exI [of _ "[]"]) (simp add: retractions_def)
next
  case (2 d e es visited pending)
  show ?case
  proof (cases "e \<in> visited")
    case True
    then obtain vs where "retract_entities d es visited pending = pending @ retractions d vs"
      "distinct vs" "set vs \<inter> visited = {}" "set es \<subseteq> set vs \<union> visited"
      "\<forall>v\<in>set vs. \<forall>t. component_edge d v t \<longrightarrow> t \<in> set vs \<union> visited"
      "\<forall>v\<in>set vs. \<exists>e\<in>set es. (component_edge d)\<^sup>*\<^sup>* e v"
      using 2(1) by blast
    then show ?thesis using True by (intro exI [of _ vs]) auto
  next
    case False
    let ?rows = "entity_datoms d e" and ?ts = "component_targets d (entity_datoms d e)"
    obtain vs where vs: "retract_entities d (?ts @ es) (insert e visited) (pending @ map retraction_of ?rows)
        = (pending @ map retraction_of ?rows) @ retractions d vs"
      "distinct vs" "set vs \<inter> insert e visited = {}" "set (?ts @ es) \<subseteq> set vs \<union> insert e visited"
      "\<forall>v\<in>set vs. \<forall>t. component_edge d v t \<longrightarrow> t \<in> set vs \<union> insert e visited"
      "\<forall>v\<in>set vs. \<exists>q\<in>set (?ts @ es). (component_edge d)\<^sup>*\<^sup>* q v"
      using 2(2) [OF False refl] by blast
    have edge: "component_edge d e t \<longleftrightarrow> t \<in> set ?ts" for t by (simp add: component_edge_def)
    have "\<exists>q\<in>set (e # es). (component_edge d)\<^sup>*\<^sup>* q v" if v: "v \<in> set vs" for v
    proof -
      obtain q where q: "q \<in> set ?ts \<or> q \<in> set es" "(component_edge d)\<^sup>*\<^sup>* q v" using vs(6) v by fastforce
      then show ?thesis
      proof (elim disjE)
        assume "q \<in> set ?ts"
        then have "(component_edge d)\<^sup>*\<^sup>* e v" using q(2) edge by (blast intro: converse_rtranclp_into_rtranclp)
        then show ?thesis by simp
      qed auto
    qed
    moreover have "retract_entities d (e # es) visited pending = pending @ retractions d (e # vs)"
      using False vs(1) by (simp add: retractions_def Let_def)
    ultimately show ?thesis using vs(2-5) edge False by (intro exI [of _ "e # vs"]) auto
  qed
qed

text \<open>C18.  Retracting an entity retracts, in order, every asserted datom of the entity and of the
  entities reachable from it through component references, each entity once and the entity
  itself first; in particular the recursion ends on cyclic component references.\<close>

theorem execute_retract_entity_fn_closure:
  "\<exists>vs. execute_retract_entity_fn d e pending = pending @ retractions d (e # vs)
     \<and> distinct (e # vs) \<and> set (e # vs) = {t. (component_edge d)\<^sup>*\<^sup>* e t}"
proof -
  obtain us where us: "execute_retract_entity_fn d e pending = pending @ retractions d us" "distinct us"
      "\<forall>v\<in>set us. \<forall>t. component_edge d v t \<longrightarrow> t \<in> set us" "\<forall>v\<in>set us. (component_edge d)\<^sup>*\<^sup>* e v" "take 1 us = [e]"
    using retract_entities_walk [of d "[e]" "{}" pending] by (auto simp: execute_retract_entity_fn_def)
  obtain vs where vs: "us = e # vs" using us(5) by (cases us) auto
  have "t \<in> set us" if "(component_edge d)\<^sup>*\<^sup>* e t" for t
    using that by (induction rule: rtranclp_induct) (use us(3) vs in auto)
  then show ?thesis using us(1,2,4) unfolding vs by blast
qed

section \<open>Retries\<close>

fun serialization_failed :: "'x txenv_scheme \<Rightarrow> (tx_error, 'r) result \<Rightarrow> bool" where
  "serialization_failed x (Inl err) \<longleftrightarrow> is_serialization_failure x err"
| "serialization_failed x (Inr r) \<longleftrightarrow> False"

definition last_attempt :: "'x txenv_scheme \<Rightarrow> (nat \<Rightarrow> (tx_error, string \<times> db) result) \<Rightarrow> nat \<Rightarrow> (tx_error, string \<times> db) result \<Rightarrow> bool" where
  "last_attempt x run k r \<longleftrightarrow>
     (case run k of
        Inr s \<Rightarrow> r = Inr (publish_schema s)
      | Inl err \<Rightarrow> if is_serialization_failure x err
           then k = 5 \<and> (\<exists>msg. r = Inl (Mentat (SerializationFailure msg 5))) else r = Inl err)"

lemma retry_loop_attempts:
  assumes "prev < 5" "delays = map (\<lambda>i. 10 * 2 ^ i) [0..<prev]"
    and "list_all (\<lambda>j. serialization_failed x (run j)) [1..<prev + 1]"
  shows "\<exists>k\<in>{1..5}. last_attempt x run k (fst (retry_loop x run prev delays))
    \<and> list_all (\<lambda>j. serialization_failed x (run j)) [1..<k]
    \<and> snd (retry_loop x run prev delays) = map (\<lambda>i. 10 * 2 ^ i) [0..<k - 1]"
  using assms
proof (induction x run prev delays rule: retry_loop.induct)
  case (1 x run prev delays)
  show ?case
  proof (cases "run (prev + 1)")
    case (Inr r)
    then show ?thesis using "1.prems"
      by (intro bexI [of _ "prev + 1"]) (simp_all add: retry_loop.simps [of x run prev] last_attempt_def)
  next
    case (Inl err)
    show ?thesis
    proof (cases "is_serialization_failure x err \<and> prev + 1 < MAX_SERIALIZATION_RETRIES")
      case True
      have "list_all (\<lambda>j. serialization_failed x (run j)) [1..<prev + 1 + 1]"
        using "1.prems"(3) True Inl by simp
      then show ?thesis using "1.IH" [OF refl Inl True] True Inl "1.prems"
        by (simp add: retry_loop.simps [of x run prev] BASE_RETRY_DELAY_MS_def MAX_SERIALIZATION_RETRIES_def)
    next
      case False
      then have "prev = 4" if "is_serialization_failure x err"
        using "1.prems"(1) that by (simp add: MAX_SERIALIZATION_RETRIES_def)
      then show ?thesis using "1.prems" Inl False
        by (intro bexI [of _ "prev + 1"])
          (auto simp: retry_loop.simps [of x run prev] last_attempt_def MAX_SERIALIZATION_RETRIES_def)
    qed
  qed
qed

text \<open>C19.  A transaction is attempted at most five times.  The attempts before the last fail with
  serialization failures and are followed by delays of 10, 20, 40 and 80 milliseconds; the
  result is that of the last attempt, except that the fifth serialization failure in a row is
  reported as such with the number of attempts.\<close>

theorem execute_transaction_body_attempts:
  "\<exists>k. k \<in> {1..5} \<and> last_attempt x (\<lambda>k. execute_transaction_inner x edn_tx (d k)) k (fst (execute_transaction_body x edn_tx d))
     \<and> list_all (\<lambda>j. serialization_failed x (execute_transaction_inner x edn_tx (d j))) [1..<k]
     \<and> snd (execute_transaction_body x edn_tx d) = take (k - 1) [10, 20, 40, 80]"
proof -
  have "map (\<lambda>i. 10 * 2 ^ i) [0..<k - 1] = take (k - 1) [10, 20, 40, 80 :: nat]" if "k \<in> {1..5}" for k :: nat
  proof -
    have "k = 1 \<or> k = 2 \<or> k = 3 \<or> k = 4 \<or> k = 5" using that by auto
    then show ?thesis by (elim disjE) (simp_all add: upt_conv_Cons)
  qed
  then show ?thesis
    using retry_loop_attempts [of 0 "[]" x "\<lambda>k. execute_transaction_inner x edn_tx (d k)"]
    by (auto simp: execute_transaction_body_def)
qed

end
