(* ===== verification/Tempids.thy ===== *)
theory Tempids
  imports Transact "HOL-Library.Multiset"
begin

text \<open>
  Entity ids during the two passes of a transaction.  Everything that resolves a place in
  an entity, an attribute or a value may take ids from the user sequence and record them for
  tempid strings; \<open>grows\<close> says that it does nothing else to the tables, keeps the ids of the
  tempids that it knows and never gives one id to two tempids or map entities.
\<close>

section \<open>Allocated ids\<close>

definition seq_inj :: "(nat \<Rightarrow> int option) \<Rightarrow> bool" where
  "seq_inj ids \<longleftrightarrow> (\<forall>i j e. ids i = Some e \<and> ids j = Some e \<longrightarrow> i = j)"

definition alloc_ok :: "'x txenv_scheme \<Rightarrow> int list \<Rightarrow> tempids \<times> db \<Rightarrow> bool" where
  "alloc_ok x ex s \<longleftrightarrow> ascending str_cmp (map fst (fst s)) \<and> distinct (map snd (fst s) @ ex)
     \<and> (\<forall>e\<in>set (map snd (fst s) @ ex). \<exists>i<user_seq (snd s). user_ids x i = Some e)"

definition extends :: "tempids \<Rightarrow> tempids \<Rightarrow> bool" where
  "extends tm tm' \<longleftrightarrow> (\<forall>k e. bt_get str_cmp k tm = Some e \<longrightarrow> bt_get str_cmp k tm' = Some e)"

definition grows :: "'x txenv_scheme \<Rightarrow> tempids \<times> db \<Rightarrow> tempids \<times> db \<Rightarrow> bool" where
  "grows x s s' \<longleftrightarrow> (\<exists>n \<ge> user_seq (snd s). snd s' = (snd s)\<lparr>user_seq := n\<rparr>)
     \<and> (\<forall>ex. seq_inj (user_ids x) \<and> alloc_ok x ex s \<longrightarrow> alloc_ok x ex s' \<and> extends (fst s) (fst s'))"

lemma grows_refl [simp]: "grows x s s"
proof -
  have "\<exists>n \<ge> user_seq (snd s). snd s = (snd s)\<lparr>user_seq := n\<rparr>" by (rule exI [of _ "user_seq (snd s)"]) simp
  then show ?thesis by (simp add: grows_def extends_def)
qed

lemma grows_trans [trans]:
  assumes "grows x s t" "grows x t u"
  shows "grows x s u"
proof -
  obtain n m where "n \<ge> user_seq (snd s)" "snd t = (snd s)\<lparr>user_seq := n\<rparr>"
      "m \<ge> user_seq (snd t)" "snd u = (snd t)\<lparr>user_seq := m\<rparr>"
    using assms unfolding grows_def by blast
  then have "\<exists>n \<ge> user_seq (snd s). snd u = (snd s)\<lparr>user_seq := n\<rparr>" by (intro exI [of _ m]) simp
  then show ?thesis using assms unfolding grows_def extends_def by blast
qed

lemma growsD:
  "grows x s s' \<Longrightarrow> seq_inj (user_ids x) \<Longrightarrow> alloc_ok x ex s \<Longrightarrow> alloc_ok x ex s' \<and> extends (fst s) (fst s')"
  unfolding grows_def by blast

lemma grows_db:
  assumes "grows x s s'"
  shows "store (snd s') = store (snd s)" "cat (snd s') = cat (snd s)" "transactions (snd s') = transactions (snd s)"
    "tx_seq (snd s') = tx_seq (snd s)"
  using assms unfolding grows_def by fastforce+

lemma alloc_ok_mono: "alloc_ok x ex (tm, d) \<Longrightarrow> user_seq d \<le> user_seq d' \<Longrightarrow> alloc_ok x ex (tm, d')"
  unfolding alloc_ok_def fst_conv snd_conv by (meson less_le_trans)

lemma alloc_ok_fresh:
  assumes "seq_inj (user_ids x)" "alloc_ok x ex s" "user_ids x (user_seq (snd s)) = Some e"
  shows "e \<notin> set (map snd (fst s) @ ex)"
proof
  assume "e \<in> set (map snd (fst s) @ ex)"
  then obtain i where "i < user_seq (snd s)" "user_ids x i = Some e" using assms(2) unfolding alloc_ok_def by blast
  then show False using assms(1,3) unfolding seq_inj_def by blast
qed

lemma next_user_id_Inr:
  "next_user_id x d = Inr (e, d') \<longleftrightarrow> user_ids x (user_seq d) = Some e \<and> d' = d\<lparr>user_seq := Suc (user_seq d)\<rparr>"
  by (auto simp: next_user_id_def rbind_eq_Inr of_option_eq)

lemma insert_new:
  assumes "bt_get str_cmp k tm = None" "ascending str_cmp (map fst tm)"
  shows "mset (map snd (bt_insert str_cmp k e tm)) = add_mset e (mset (map snd tm))"
  using assms by (induction tm) (auto split: ordering.splits)

lemma grows_tempid:
  assumes "bt_get str_cmp k tm = None" "next_user_id x d = Inr (e, d')"
  shows "grows x (tm, d) (bt_insert str_cmp k e tm, d')"
proof -
  have e: "user_ids x (user_seq d) = Some e" and d': "d' = d\<lparr>user_seq := Suc (user_seq d)\<rparr>"
    using assms(2) by (simp_all add: next_user_id_Inr)
  have "alloc_ok x ex (bt_insert str_cmp k e tm, d')" "extends tm (bt_insert str_cmp k e tm)"
    if "seq_inj (user_ids x)" "alloc_ok x ex (tm, d)" for ex
  proof -
    have asc: "ascending str_cmp (map fst tm)" using that(2) by (simp add: alloc_ok_def)
    have "mset (map snd (bt_insert str_cmp k e tm) @ ex) = mset (e # map snd tm @ ex)"
      using insert_new [OF assms(1) asc] by simp
    then have "distinct (map snd (bt_insert str_cmp k e tm) @ ex) \<longleftrightarrow> distinct (e # map snd tm @ ex)"
      and set: "set (map snd (bt_insert str_cmp k e tm) @ ex) = set (e # map snd tm @ ex)"
      by (metis mset_eq_imp_distinct_iff, metis mset_eq_setD)
    moreover have "e \<notin> set (map snd tm @ ex)" using alloc_ok_fresh [OF that] e by simp
    ultimately have "distinct (map snd (bt_insert str_cmp k e tm) @ ex)"
      using that(2) by (simp add: alloc_ok_def)
    moreover have "\<forall>q\<in>set (map snd (bt_insert str_cmp k e tm) @ ex). \<exists>i<user_seq d'. user_ids x i = Some q"
    proof
      fix q assume "q \<in> set (map snd (bt_insert str_cmp k e tm) @ ex)"
      then have "q = e \<or> q \<in> set (map snd tm @ ex)" unfolding set by simp
      moreover have "\<exists>i<user_seq d. user_ids x i = Some q" if "q \<in> set (map snd tm @ ex)"
        using \<open>alloc_ok x ex (tm, d)\<close> that unfolding alloc_ok_def fst_conv snd_conv by blast
      ultimately show "\<exists>i<user_seq d'. user_ids x i = Some q" using e unfolding d' by (auto intro: less_SucI)
    qed
    ultimately show "alloc_ok x ex (bt_insert str_cmp k e tm, d')"
      using str_ord.ascending_bt_insert [OF asc] unfolding alloc_ok_def fst_conv snd_conv by blast
    show "extends tm (bt_insert str_cmp k e tm)"
      using asc assms(1) by (auto simp: extends_def str_ord.bt_get_insert)
  qed
  then show ?thesis unfolding grows_def d' by (auto intro: exI [of _ "Suc (user_seq d)"])
qed

lemma grows_next_user_id:
  assumes "next_user_id x d = Inr (e, d')"
  shows "grows x (tm, d) (tm, d')"
proof -
  have d': "d' = d\<lparr>user_seq := Suc (user_seq d)\<rparr>" using assms by (simp add: next_user_id_Inr)
  have "alloc_ok x ex (tm, d) \<Longrightarrow> alloc_ok x ex (tm, d')" for ex
    using alloc_ok_mono [of x ex tm d d'] by (simp add: d')
  moreover have "\<exists>n \<ge> user_seq d. d' = d\<lparr>user_seq := n\<rparr>" by (rule exI [of _ "Suc (user_seq d)"]) (simp add: d')
  ultimately show ?thesis by (simp add: grows_def extends_def)
qed

section \<open>Resolving\<close>

lemma resolve_entity_place_grows:
  assumes "resolve_entity_place x v s = Inr (e, s')"
  shows "grows x s s'"
proof -
  obtain tm d where s: "s = (tm, d)" by (cases s)
  show ?thesis using assms unfolding resolve_entity_place_def s
    by (auto simp: result_simps Let_def intro!: grows_tempid
        split: edn_value.splits option.splits list.splits prod.splits if_splits)
qed

lemma encode_for_grows: "encode_for x a v s = Inr (w, s') \<Longrightarrow> grows x s s'"
  by (auto simp: encode_for_def encode_ref_value_def result_simps split: if_splits prod.splits
      dest: resolve_entity_place_grows)

section \<open>Second pass\<close>

lemma cas_swap_grows:
  assumes "cas_swap x e a old new vals s pending = Inr (s', pending')"
  shows "grows x s s'"
proof -
  obtain ov u where "(if old = VNil then Inr (None, s) else rbind (encode_for x a old s) (\<lambda>(v, s'). Inr (Some v, s'))) = Inr (ov, u)"
      and u': "\<exists>nv. encode_for x a new u = Inr (nv, s')"
    using assms by (auto simp: cas_swap_def Let_def result_simps split: if_splits prod.splits)
  then have "grows x s u" by (auto simp: result_simps split: if_splits prod.splits dest: encode_for_grows)
  also have "grows x u s'" using u' encode_for_grows by blast
  finally show ?thesis .
qed

lemma execute_cas_fn_grows: "execute_cas_fn x e a old new sp = Inr sp' \<Longrightarrow> grows x (fst sp) (fst sp')"
  by (cases sp') (auto simp: execute_cas_fn_def Let_def split: prod.splits option.splits if_splits dest: cas_swap_grows)

lemma apply_tx_fn_grows: "apply_tx_fn x f ev sp = Inr sp' \<Longrightarrow> grows x (fst sp) (fst sp')"
  by (auto simp: apply_tx_fn_def invalid_def result_simps split: builtin_tx_fn.splits if_splits prod.splits
      dest!: resolve_entity_place_grows execute_cas_fn_grows dest: grows_trans)

lemma assert_op_grows: "assert_op x added ev sp = Inr sp' \<Longrightarrow> grows x (fst sp) (fst sp')"
  by (auto simp: assert_op_def result_simps split: prod.splits
      dest!: resolve_entity_place_grows encode_for_grows intro: grows_trans)

lemma pass2_entry_grows: "pass2_entry x e kv sp = Inr sp' \<Longrightarrow> grows x (fst sp) (fst sp')"
  by (auto simp: pass2_entry_def result_simps split: prod.splits if_splits dest!: encode_for_grows)

lemma foldR_grows:
  assumes "foldR f xs sp = Inr sp'" "\<And>y sp sp'. f y sp = Inr sp' \<Longrightarrow> grows x (fst sp) (fst sp')"
  shows "grows x (fst sp) (fst sp')"
  by (rule foldR_invariant [OF assms(1), where P = "\<lambda>u. grows x (fst sp) (fst u)"])
    (auto dest: assms(2) intro: grows_trans)

lemma pass2_map_grows:
  assumes "pass2_map x ids idx m sp = Inr sp'"
  shows "grows x (fst sp) (fst sp')"
proof -
  obtain e s where s: "(case bt_get value_cmp db_id_key m of
              Some idv \<Rightarrow> resolve_entity_place x idv (fst sp)
            | None \<Rightarrow> (case map_of ids idx of
                 Some e \<Rightarrow> Inr (e, fst sp)
               | None \<Rightarrow> rbind (next_user_id x (snd (fst sp))) (\<lambda>(e, d). Inr (e, fst (fst sp), d)))) = Inr (e, s)"
      and f: "foldR (pass2_entry x e) m (s, snd sp) = Inr sp'"
    using assms by (auto simp: pass2_map_def result_simps)
  have "grows x (fst sp) s"
    using s grows_next_user_id [of x "snd (fst sp)" _ _ "fst (fst sp)"]
    by (auto simp: result_simps split: option.splits dest: resolve_entity_place_grows)
  also have "grows x s (fst sp')" using foldR_grows [OF f pass2_entry_grows] by simp
  finally show ?thesis .
qed

lemma pass2_entity_grows: "pass2_entity x ids iv sp = Inr sp' \<Longrightarrow> grows x (fst sp) (fst sp')"
  by (auto simp: pass2_entity_def pass2_vector_def invalid_def split: edn_value.splits option.splits if_splits list.splits
      dest: apply_tx_fn_grows assert_op_grows pass2_map_grows)

lemma pass2_grows: "pass2 x ids entities s = Inr (s', pending) \<Longrightarrow> grows x s s'"
  unfolding pass2_def using foldR_grows [OF _ pass2_entity_grows] by fastforce

section \<open>First pass\<close>

definition pass1_ok :: "'x txenv_scheme \<Rightarrow> pass1_state \<Rightarrow> bool" where
  "pass1_ok x s \<longleftrightarrow> alloc_ok x (map snd (map_entity_ids s)) (tempid_map s, p_db s)"

lemma pass1_entry_simps [simp]:
  "map_entity_ids (foldl (pass1_entry e) s m) = map_entity_ids s"
  "tempid_map (foldl (pass1_entry e) s m) = tempid_map s" "p_db (foldl (pass1_entry e) s m) = p_db s"
  by (induction m arbitrary: s) (auto simp: pass1_entry_def split: option.splits)

lemma pass1_vector_ok:
  assumes "seq_inj (user_ids x)" "pass1_ok x s" "pass1_vector x ev s = Inr s'"
  shows "pass1_ok x s' \<and> map_entity_ids s' = map_entity_ids s"
proof (cases "\<exists>kw. ev ! 0 = VKeyword kw \<and> kw_name kw = ''add''")
  case True
  then obtain e tm d where r: "resolve_entity_place x (ev ! 1) (tempid_map s, p_db s) = Inr (e, tm, d)"
      and s': "tempid_map s' = tm" "p_db s' = d" "map_entity_ids s' = map_entity_ids s"
    using assms(3) by (auto simp: pass1_vector_def result_simps Let_def split: option.splits)
  then show ?thesis using resolve_entity_place_grows [OF r] assms(1,2) by (simp add: grows_def pass1_ok_def)
next
  case False
  then show ?thesis using assms(2,3) by (auto simp: pass1_vector_def split: edn_value.splits)
qed

lemma update_values:
  "snd ` set (AList.update k e m) \<subseteq> insert e (snd ` set m)"
  "e \<notin> snd ` set m \<Longrightarrow> distinct (map snd m) \<Longrightarrow> distinct (map snd (AList.update k e m))"
proof -
  show sub: "snd ` set (AList.update k e m) \<subseteq> insert e (snd ` set m)" for m by (induction m) auto
  show "e \<notin> snd ` set m \<Longrightarrow> distinct (map snd m) \<Longrightarrow> distinct (map snd (AList.update k e m))"
  proof (induction m)
    case (Cons p m)
    then show ?case using sub [of m] by (cases p) auto
  qed simp
qed

lemma alloc_ok_entity:
  assumes "alloc_ok x (map snd m) (tm, d)" "e \<notin> set (map snd tm @ map snd m)" "\<exists>i<user_seq d. user_ids x i = Some e"
  shows "alloc_ok x (map snd (AList.update k e m)) (tm, d)"
proof -
  have old: "distinct (map snd tm)" "distinct (map snd m)" "snd ` set tm \<inter> snd ` set m = {}" "e \<notin> snd ` set tm" "e \<notin> snd ` set m"
    using assms(1,2) by (simp_all add: alloc_ok_def)
  have sub: "snd ` set (AList.update k e m) \<subseteq> insert e (snd ` set m)" by (rule update_values)
  then have "snd ` set tm \<inter> snd ` set (AList.update k e m) = {}" using old(3,4) by blast
  then have "distinct (map snd tm @ map snd (AList.update k e m))" using update_values(2) [OF old(5,2)] old(1) by simp
  moreover have "\<forall>q\<in>set (map snd tm @ map snd (AList.update k e m)). \<exists>i<user_seq d. user_ids x i = Some q"
  proof
    fix q assume "q \<in> set (map snd tm @ map snd (AList.update k e m))"
    then have "q = e \<or> q \<in> set (map snd tm @ map snd m)" using sub unfolding set_append set_map by blast
    then show "\<exists>i<user_seq d. user_ids x i = Some q" using assms(1,3) unfolding alloc_ok_def fst_conv snd_conv by blast
  qed
  ultimately show ?thesis using assms(1) by (simp add: alloc_ok_def)
qed

lemma pass1_map_ok:
  assumes "seq_inj (user_ids x)" "pass1_ok x s" "pass1_map x idx m s = Inr s'"
  shows "pass1_ok x s'"
proof (cases "bt_get value_cmp db_id_key m")
  case (Some idv)
  then obtain e tm d where r: "resolve_entity_place x idv (tempid_map s, p_db s) = Inr (e, tm, d)"
      and s': "tempid_map s' = tm" "p_db s' = d" "map_entity_ids s' = map_entity_ids s"
    using assms(3) by (auto simp: pass1_map_def result_simps)
  then show ?thesis using resolve_entity_place_grows [OF r] assms(1,2) by (simp add: grows_def pass1_ok_def)
next
  case None
  then obtain e d where r: "next_user_id x (p_db s) = Inr (e, d)"
      and s': "tempid_map s' = tempid_map s" "p_db s' = d" "map_entity_ids s' = AList.update idx e (map_entity_ids s)"
    using assms(3) by (auto simp: pass1_map_def result_simps)
  have ok: "alloc_ok x (map snd (map_entity_ids s)) (tempid_map s, d)"
    using grows_next_user_id [OF r, of "tempid_map s"] assms(1,2) by (simp add: grows_def pass1_ok_def)
  have "e \<notin> set (map snd (tempid_map s) @ map snd (map_entity_ids s))"
    using alloc_ok_fresh [OF assms(1) assms(2) [unfolded pass1_ok_def], of e] r by (simp add: next_user_id_Inr)
  moreover have "\<exists>i<user_seq d. user_ids x i = Some e" using r by (auto simp: next_user_id_Inr)
  ultimately show ?thesis using alloc_ok_entity [OF ok] by (simp add: s' pass1_ok_def)
qed

lemma pass1_result:
  assumes "seq_inj (user_ids x)" "pass1 x entities d = Inr p1"
  shows "pass1_ok x p1"
  using assms(2) unfolding pass1_def
proof (rule foldR_invariant)
  show "pass1_ok x \<lparr>tempid_map = [], builders_of = [], map_entity_ids = [], p_db = d\<rparr>"
    by (simp add: pass1_ok_def alloc_ok_def)
qed (auto simp: pass1_entity_def split: edn_value.splits if_splits dest: pass1_vector_ok [OF assms(1)] pass1_map_ok [OF assms(1)])

section \<open>Properties\<close>

text \<open>C6.  The second pass keeps the entity that the first pass gave to every tempid string, and over
  both passes no two tempid strings and map entities are given the same entity, provided that the
  sequence never returns a value twice.\<close>

theorem tempids_stable:
  assumes "seq_inj (user_ids x)"
    and "pass1 x entities d = Inr p1"
    and "install_schema_attributes (builders_of p1) (p_db p1) = Inr d1"
    and "pass2 x (map_entity_ids p1) entities (tempid_map p1, d1) = Inr ((tm, d2), pending)"
  shows "extends (tempid_map p1) tm \<and> distinct (map snd tm @ map snd (map_entity_ids p1))"
proof -
  have "user_seq d1 = user_seq (p_db p1)" using assms(3) by (auto simp: install_schema_attributes_def result_simps)
  then have "alloc_ok x (map snd (map_entity_ids p1)) (tempid_map p1, d1)"
    using pass1_result [OF assms(1,2)] by (simp add: pass1_ok_def alloc_ok_def)
  from growsD [OF pass2_grows [OF assms(4)] assms(1) this] show ?thesis by (simp add: alloc_ok_def)
qed

definition sample_entities :: "edn_value list" where
  "sample_entities =
     [VVector [VKeyword (projr (kw_namespaced ''db'' ''add'')), VText ''x'', VKeyword (projr (kw_namespaced ''p'' ''part'')), VText ''y''],
      VVector [VKeyword (projr (kw_namespaced ''db'' ''add'')), VText ''x'', VKeyword (projr (kw_namespaced ''p'' ''name'')), VText ''n'']]"

theorem tempids_stable_witness:
  "\<exists>tm d pending. pass2 sample_env [] sample_entities ([(''x'', 1000)], sample_db\<lparr>user_seq := 1\<rparr>) = Inr ((tm, d), pending)
     \<and> extends [(''x'', 1000)] tm \<and> distinct (map snd tm) \<and> length tm = 2"
proof -
  let ?p1 = "projr (pass1 sample_env sample_entities sample_db)"
  let ?d1 = "projr (install_schema_attributes (builders_of ?p1) (p_db ?p1))"
  let ?r = "projr (pass2 sample_env (map_entity_ids ?p1) sample_entities (tempid_map ?p1, ?d1))"
  have "\<not> isl (pass1 sample_env sample_entities sample_db)" by code_simp
  then have p1: "pass1 sample_env sample_entities sample_db = Inr ?p1" by simp
  have "\<not> isl (install_schema_attributes (builders_of ?p1) (p_db ?p1))" by code_simp
  then have d1: "install_schema_attributes (builders_of ?p1) (p_db ?p1) = Inr ?d1" by simp
  have "\<not> isl (pass2 sample_env (map_entity_ids ?p1) sample_entities (tempid_map ?p1, ?d1))" by code_simp
  then have r: "pass2 sample_env (map_entity_ids ?p1) sample_entities (tempid_map ?p1, ?d1) = Inr ((fst (fst ?r), snd (fst ?r)), snd ?r)"
    by simp
  have "seq_inj (user_ids sample_env)" by (simp add: seq_inj_def sample_env_def)
  from tempids_stable [OF this p1 d1 r] have "extends (tempid_map ?p1) (fst (fst ?r)) \<and> distinct (map snd (fst (fst ?r)))" by simp
  moreover have "tempid_map ?p1 = [(''x'', 1000)] \<and> map_entity_ids ?p1 = [] \<and> ?d1 = sample_db\<lparr>user_seq := 1\<rparr>" by code_simp
  moreover have "length (fst (fst ?r)) = 2" by code_simp
  ultimately show ?thesis using r
    by (intro exI [of _ "fst (fst ?r)"] exI [of _ "snd (fst ?r)"] exI [of _ "snd ?r"]) simp
qed

end
