(* ===== verification/Insertion.thy ===== *)
theory Insertion
  imports Transact
begin

text \<open>
  What \<open>insert_datoms\<close> does to the tables: the datoms of a transaction, once resolved, leave the
  projection equal to the current state of the log, give every entity and attribute the values
  that the datoms say, and keep unique values with one entity.
\<close>

section \<open>Pruning\<close>

lemma type_tag_column [simp]: "type_tag (column x v) = type_tag v"
  by (cases v) simp_all

lemma log_table_type: "log_table_for v = log_table_for w \<longleftrightarrow> type_tag v = type_tag w"
  by (cases v; cases w; simp)

lemma filter_live:
  assumes "\<And>r. r \<in> set (datoms t) \<Longrightarrow> log_eav r = k \<Longrightarrow> P r"
  shows "live (t\<lparr>datoms := filter P (datoms t), current := cs\<rparr>) k = live t k"
proof -
  have "filter (\<lambda>r. log_eav r = k) (filter P (datoms t)) = filter (\<lambda>r. log_eav r = k) (datoms t)"
    unfolding filter_filter using assms by (intro filter_cong) auto
  then show ?thesis by (simp add: live_def)
qed

lemma filter_dead:
  assumes "\<And>r. r \<in> set (datoms t) \<Longrightarrow> log_eav r = k \<Longrightarrow> \<not> P r"
  shows "live (t\<lparr>datoms := filter P (datoms t), current := cs\<rparr>) k = None"
proof -
  have "filter (\<lambda>r. log_eav r = k) (filter P (datoms t)) = []" using assms by (auto simp: filter_empty_conv)
  then show ?thesis by (simp add: live_def)
qed

lemma filter_primary_keys:
  "primary_keys t \<Longrightarrow> primary_keys (t\<lparr>datoms := filter P (datoms t), current := filter Q (current t)\<rparr>)"
  by (simp add: primary_keys_def distinct_map_filter)

definition of_ea :: "int \<Rightarrow> int \<Rightarrow> int \<Rightarrow> typed_value \<Rightarrow> fact \<Rightarrow> bool" where
  "of_ea sid e a hint k \<longleftrightarrow> (\<exists>v. k = (sid, e, a, v) \<and> type_tag v = type_tag hint)"

lemma prune_ea:
  assumes "proj_ok t"
    and pruned: "t' = prune_projection_ea sid e a hint (prune_no_history_ea sid e a hint t)"
  shows "proj_ok t'" "proj t' = (\<lambda>k. if of_ea sid e a hint k then None else proj t k)"
    "set (datoms t') \<subseteq> set (datoms t)"
proof -
  let ?P = "\<lambda>r. \<not> of_ea sid e a hint (log_eav r)" and ?Q = "\<lambda>c. \<not> of_ea sid e a hint (cur_key c)"
  have t': "t' = t\<lparr>datoms := filter ?P (datoms t), current := filter ?Q (current t)\<rparr>"
  proof -
    have "(\<lambda>r. \<not> (log_table_for (l_v r) = log_table_for hint \<and> l_store r = sid \<and> l_e r = e \<and> l_a r = a)) = ?P"
      "(\<lambda>c. \<not> (current_projection_table (c_v c) = current_projection_table hint \<and> c_store c = sid \<and> c_e c = e \<and> c_a c = a)) = ?Q"
      by (auto simp: fun_eq_iff of_ea_def log_eav_def cur_key_def log_table_type table_type)
    then show ?thesis by (simp add: pruned prune_projection_ea_def prune_no_history_ea_def)
  qed
  have live: "live t' = (\<lambda>k. if of_ea sid e a hint k then None else live t k)"
    unfolding t' using filter_live [of t _ ?P] filter_dead [of t _ ?P] by (auto simp: fun_eq_iff)
  have "proj t' = (\<lambda>k. if of_ea sid e a hint k then None else proj t k)"
    unfolding t' proj_cur_map using cur_map_filter [of "Collect (of_ea sid e a hint)" "current t"] by (simp add: fun_eq_iff)
  then show "proj t' = (\<lambda>k. if of_ea sid e a hint k then None else proj t k)" .
  moreover have "proj t = live t" "primary_keys t" using assms(1) by (simp_all add: proj_ok_def)
  ultimately have "proj t' = live t'" unfolding live by metis
  then show "proj_ok t'" using \<open>primary_keys t\<close> filter_primary_keys [where t = t and P = ?P and Q = ?Q] by (simp add: proj_ok_def t')
  show "set (datoms t') \<subseteq> set (datoms t)" by (auto simp: t')
qed

lemma proj_None: "proj t k = None \<longleftrightarrow> k \<notin> cur_key ` set (current t)"
  unfolding proj_def map_of_eq_None_iff by (simp add: image_image)

lemma prune_eav:
  assumes "proj_ok t" "\<not> is_duplicate_cardinality_many x sid e a v t"
    and pruned: "t' = prune_no_history_eav x sid e a v t"
  shows "proj_ok t'" "proj t' = proj t" "set (datoms t') \<subseteq> set (datoms t)"
proof -
  let ?k = "(sid, e, a, column x v)"
  let ?P = "\<lambda>r. log_eav r \<noteq> ?k"
  have t': "t' = t\<lparr>datoms := filter ?P (datoms t), current := filter (\<lambda>_. True) (current t)\<rparr>"
  proof -
    have "(\<lambda>r. \<not> (log_table_for (l_v r) = log_table_for v \<and> l_store r = sid \<and> l_e r = e \<and> l_a r = a \<and> l_v r = column x v)) = ?P"
      by (auto simp: fun_eq_iff log_eav_def log_table_type)
    then show ?thesis by (simp add: pruned prune_no_history_eav_def)
  qed
  have dead: "live t ?k = None"
    using assms(1,2) unfolding proj_ok_def is_duplicate_cardinality_many_def proj_None [symmetric] by simp
  have "live t' k = live t k" for k
  proof (cases "k = ?k")
    case True
    have "live t' k = None" unfolding t' by (rule filter_dead) (simp add: True)
    then show ?thesis using dead by (simp add: True)
  next
    case False
    then show ?thesis unfolding t' by (intro filter_live) simp
  qed
  then have "live t' = live t" by (rule HOL.ext)
  moreover show "proj t' = proj t" by (simp add: t' proj_def)
  ultimately show "proj_ok t'" using assms(1) filter_primary_keys [where t = t and P = ?P and Q = "\<lambda>_. True"] by (simp add: proj_ok_def t')
  show "set (datoms t') \<subseteq> set (datoms t)" by (auto simp: t')
qed

section \<open>The rows of a transaction\<close>

definition typed_pending :: "pending_datom list \<Rightarrow> bool" where
  "typed_pending pending \<longleftrightarrow> (\<forall>p\<in>set pending. \<forall>q\<in>set pending.
     p_e p = p_e q \<and> p_a p = p_a q \<longrightarrow> type_tag (p_v p) = type_tag (p_v q))"

definition fresh_pending :: "int \<Rightarrow> pending_datom list \<Rightarrow> tables \<Rightarrow> bool" where
  "fresh_pending tx pending t \<longleftrightarrow> (\<forall>r\<in>set (datoms t). \<forall>p\<in>set pending.
     l_store r = store_id \<and> l_e r = p_e p \<longrightarrow> l_tx r < tx)"

text \<open>Every row stems from a datom about its entity and attribute with a value of its type.\<close>

definition row_from :: "int \<Rightarrow> pending_datom list \<Rightarrow> row \<Rightarrow> bool" where
  "row_from tx pending r \<longleftrightarrow> (case r of (e, a, v, t, added) \<Rightarrow>
     t = tx \<and> (\<exists>p\<in>set pending. p_e p = e \<and> p_a p = a \<and> type_tag (p_v p) = type_tag v))"

lemma row_from_simps [simp]:
  "row_from tx pending (e, a, v, t, b) \<longleftrightarrow>
     t = tx \<and> (\<exists>p\<in>set pending. p_e p = e \<and> p_a p = a \<and> type_tag (p_v p) = type_tag v)"
  by (simp add: row_from_def)

lemma rows_from_tx_rows:
  assumes "typed_pending pending" "\<forall>r\<in>set rows. row_from tx pending r"
  shows "tx_rows tx rows"
proof -
  have txs: "row_tx r = tx" if "r \<in> set rows" for r
    using assms(2) that by (cases r) fastforce
  have types: "type_tag v = type_tag w"
    if vw: "(e, a, v, t, b) \<in> set rows" "(e, a, w, u, c) \<in> set rows" for e a v t b w u c
  proof -
    have "row_from tx pending (e, a, v, t, b)" "row_from tx pending (e, a, w, u, c)" using assms(2) vw by blast+
    then obtain p q where "p \<in> set pending" "p_e p = e" "p_a p = a" "type_tag (p_v p) = type_tag v"
        "q \<in> set pending" "p_e q = e" "p_a q = a" "type_tag (p_v q) = type_tag w"
      by auto
    then show ?thesis using assms(1) unfolding typed_pending_def by metis
  qed
  show ?thesis unfolding tx_rows_def
  proof (intro conjI ballI)
    fix r assume rows: "r \<in> set rows"
    obtain e a v t b where r: "r = (e, a, v, t, b)" by (cases r)
    have "case q of (e', a', w, _) \<Rightarrow> e = e' \<and> a = a' \<longrightarrow> type_tag v = type_tag w" if q: "q \<in> set rows" for q
    proof -
      obtain e' a' w u c where "q = (e', a', w, u, c)" by (cases q)
      then show ?thesis using q rows types [of e a v t b w u c] by (auto simp: r)
    qed
    then show "case r of (e, a, v, _) \<Rightarrow> \<forall>(e', a', w, _)\<in>set rows. e = e' \<and> a = a' \<longrightarrow> type_tag v = type_tag w"
      unfolding r prod.case by blast
  qed (rule txs)
qed

lemma rows_from_fresh:
  assumes "fresh_pending tx pending t" "\<forall>r\<in>set rows. row_from tx pending r" "set (datoms t') \<subseteq> set (datoms t)"
  shows "fresh_rows x store_id tx rows t'"
  unfolding fresh_rows_def
proof (intro ballI impI)
  fix d r assume d: "d \<in> set (datoms t')" and r: "r \<in> set rows" and eq: "log_eav d = row_fact x store_id r"
  obtain e a v u b where r': "r = (e, a, v, u, b)" by (cases r)
  then obtain p where "p \<in> set pending" "p_e p = e" using assms(2) r by fastforce
  moreover have "l_store d = store_id" "l_e d = e" using eq by (simp_all add: log_eav_def r' row_fact.simps)
  ultimately show "l_tx d < tx" using assms(1,3) d unfolding fresh_pending_def by blast
qed

section \<open>The loop\<close>

definition insert_inv :: "int \<Rightarrow> pending_datom list \<Rightarrow> db \<Rightarrow> insert_state \<Rightarrow> bool" where
  "insert_inv tx pending d s \<longleftrightarrow> i_db s = d\<lparr>store := store (i_db s)\<rparr> \<and> proj_ok (store (i_db s))
     \<and> set (datoms (store (i_db s))) \<subseteq> set (datoms (store d)) \<and> (\<forall>r\<in>set (rows_to_insert s). row_from tx pending r)"

lemma lookup_store [simp]: "lookup_attribute_info (d\<lparr>store := t\<rparr>) = lookup_attribute_info d"
  by (simp add: lookup_attribute_info_def tx_cache_view_def fun_eq_iff)

lemma queue_assertion_simps [simp]:
  "rows_to_insert (queue_assertion p tx s) = rows_to_insert s @ [(p_e p, p_a p, p_v p, tx, True)]"
  "i_db (queue_assertion p tx s) = i_db s"
  by (simp_all add: queue_assertion_def)

lemma map_store_simps [simp]:
  "rows_to_insert (map_store f s) = rows_to_insert s" "i_db (map_store f s) = (i_db s)\<lparr>store := f (store (i_db s))\<rparr>"
  by (simp_all add: map_store_def)

lemma limit1_set: "limit1 pick rs = Some r \<Longrightarrow> r \<in> set rs" "limit1 pick rs = None \<longleftrightarrow> rs = []"
  by (auto simp: limit1_def split: if_splits)

lemma parse_type:
  "parse_typed_value_from_tag x (type_tag hint) txt = Inr v \<Longrightarrow> type_tag v = type_tag hint"
  by (cases hint) (auto simp: parse_typed_value_from_tag_def)

lemma read_result_Inr [simp]: "read_result r = Inr v \<longleftrightarrow> r = Inr v"
  by (auto simp: read_result_def split: sum.splits read_error.splits)

lemma retract_existing_type:
  "retract_existing_cardinality_one x sid e a new t = Inr (Replace old) \<Longrightarrow> type_tag old = type_tag new"
  by (auto simp: retract_existing_cardinality_one_def current_projection_value_for_ea_def result_simps
      split: option.splits if_splits dest: parse_type)

lemma assert_no_history_cases:
  assumes "assert_no_history x tx p info s = Inr s'"
  obtains (skip) "cardinality info = ''one''" "s' = s"
      "retract_existing_cardinality_one x store_id (p_e p) (p_a p) (p_v p) (store (i_db s)) = Inr Skip"
    | (one) "cardinality info = ''one''" "s' = queue_assertion p tx (map_store
        (\<lambda>t. prune_projection_ea store_id (p_e p) (p_a p) (p_v p) (prune_no_history_ea store_id (p_e p) (p_a p) (p_v p) t)) s)"
    | (dup) "cardinality info = ''many''" "s' = s"
      "is_duplicate_cardinality_many x store_id (p_e p) (p_a p) (p_v p) (store (i_db s))"
    | (many) "cardinality info = ''many''" "\<not> is_duplicate_cardinality_many x store_id (p_e p) (p_a p) (p_v p) (store (i_db s))"
      "s' = queue_assertion p tx (map_store (prune_no_history_eav x store_id (p_e p) (p_a p) (p_v p)) s)"
  using assms by (auto simp: assert_no_history_def Let_def result_simps split: if_splits)

lemma assert_with_history_cases:
  assumes "assert_with_history x tx p info s = Inr s'"
  obtains (skip) "cardinality info = ''one''" "s' = s"
      "retract_existing_cardinality_one x store_id (p_e p) (p_a p) (p_v p) (store (i_db s)) = Inr Skip"
    | (ins) "cardinality info = ''one''" "s' = queue_assertion p tx s"
      "retract_existing_cardinality_one x store_id (p_e p) (p_a p) (p_v p) (store (i_db s)) = Inr Insert"
    | (replace) old where "cardinality info = ''one''"
      "retract_existing_cardinality_one x store_id (p_e p) (p_a p) (p_v p) (store (i_db s)) = Inr (Replace old)"
      "s' = queue_assertion p tx (s\<lparr>rows_to_insert := rows_to_insert s @ [(p_e p, p_a p, old, tx, False)]\<rparr>)"
    | (dup) "cardinality info = ''many''" "s' = s"
      "is_duplicate_cardinality_many x store_id (p_e p) (p_a p) (p_v p) (store (i_db s))"
    | (many) "cardinality info = ''many''" "s' = queue_assertion p tx s"
      "\<not> is_duplicate_cardinality_many x store_id (p_e p) (p_a p) (p_v p) (store (i_db s))"
proof (cases "cardinality info = ''one''")
  case True
  then obtain r where r: "retract_existing_cardinality_one x store_id (p_e p) (p_a p) (p_v p) (store (i_db s)) = Inr r"
      "(case r of Skip \<Rightarrow> Inr s | Insert \<Rightarrow> Inr (queue_assertion p tx s)
         | Replace old \<Rightarrow> Inr (queue_assertion p tx (s\<lparr>rows_to_insert := rows_to_insert s @ [(p_e p, p_a p, old, tx, False)]\<rparr>))) = (Inr s' :: (tx_error, insert_state) result)"
    using assms by (auto simp: assert_with_history_def Let_def result_simps)
  show ?thesis
  proof (cases r)
    case Skip
    then show ?thesis using r True by (intro skip) simp_all
  next
    case Insert
    then show ?thesis using r True by (intro ins) simp_all
  next
    case (Replace old)
    then show ?thesis using r True by (intro replace [of old]) simp_all
  qed
next
  case False
  then show ?thesis using assms dup many by (auto simp: assert_with_history_def Let_def split: if_splits)
qed

lemma insert_step_cases:
  assumes "insert_step x tx pending p s = Inr s'"
  obtains (retract) "\<not> p_added p" "s' = s\<lparr>rows_to_insert := rows_to_insert s @ [(p_e p, p_a p, p_v p, tx, False)]\<rparr>"
    | (no_history) info where "p_added p" "validate_datom_constraints x p pending (i_db s) = Inr ()"
      "lookup_attribute_info (i_db s) (p_a p) = Some info" "assert_no_history x tx p info s = Inr s'"
    | (history) info where "p_added p" "validate_datom_constraints x p pending (i_db s) = Inr ()"
      "lookup_attribute_info (i_db s) (p_a p) = Some info" "assert_with_history x tx p info s = Inr s'"
proof -
  have "validate_datom_constraints x p pending (i_db s) \<noteq> Inr ()" if "lookup_attribute_info (i_db s) (p_a p) = None"
    using that by (simp add: validate_datom_constraints_def)
  then show ?thesis using assms that
    by (auto simp: insert_step_def result_simps split: if_splits option.splits)
qed

lemma insert_step_inv:
  assumes p: "p \<in> set pending" and inv: "insert_inv tx pending d s" and step: "insert_step x tx pending p s = Inr s'"
  shows "insert_inv tx pending d s'"
proof -
  have own: "row_from tx pending (p_e p, p_a p, p_v p, tx, b)" for b using p by auto
  have queue: "insert_inv tx pending d (queue_assertion p tx u)" if "insert_inv tx pending d u" for u
    using that own by (auto simp: insert_inv_def)
  have pruned: "insert_inv tx pending d (map_store f s)"
    if "proj_ok (f (store (i_db s)))" "set (datoms (f (store (i_db s)))) \<subseteq> set (datoms (store (i_db s)))" for f
  proof -
    have "(i_db s)\<lparr>store := f (store (i_db s))\<rparr> = d\<lparr>store := f (store (i_db s))\<rparr>"
      using inv by (metis insert_inv_def db.update_convs(1) db.surjective)
    then show ?thesis using inv that by (auto simp: insert_inv_def)
  qed
  have ok: "proj_ok (store (i_db s))" using inv by (simp add: insert_inv_def)
  show ?thesis using step
  proof (cases rule: insert_step_cases)
    case retract
    then show ?thesis using inv own by (auto simp: insert_inv_def)
  next
    case (no_history info)
    show ?thesis using no_history(4)
    proof (cases rule: assert_no_history_cases)
      case one
      show ?thesis unfolding one(2) using prune_ea(1,3) [OF ok refl] by (intro queue pruned)
    next
      case many
      show ?thesis unfolding many(3) using prune_eav(1,3) [OF ok many(2) refl] by (intro queue pruned)
    qed (use inv in simp_all)
  next
    case (history info)
    show ?thesis using history(4)
    proof (cases rule: assert_with_history_cases)
      case (replace old)
      then have "row_from tx pending (p_e p, p_a p, old, tx, False)"
        using p retract_existing_type by fastforce
      then have "insert_inv tx pending d (s\<lparr>rows_to_insert := rows_to_insert s @ [(p_e p, p_a p, old, tx, False)]\<rparr>)"
        using inv by (auto simp: insert_inv_def simp del: row_from_simps)
      then show ?thesis unfolding replace(3) by (rule queue)
    qed (use inv queue in simp_all)
  qed
qed

definition insert_start :: "db \<Rightarrow> insert_state" where
  "insert_start d = \<lparr>rows_to_insert = [], fulltext_queue = [], i_db = d\<rparr>"

lemma insert_datoms_split:
  assumes "insert_datoms x pending tx d = Inr (n, d')"
  obtains s t where "foldR (insert_step x tx pending) pending (insert_start d) = Inr s"
    "write_rows x store_id (rows_to_insert s) (store (i_db s)) = Inr t"
    "d' = (i_db s)\<lparr>store := t, fulltext_values := fulltext_values (i_db s) @ fulltext_queue s\<rparr>"
proof -
  obtain s where s: "foldR (insert_step x tx pending) pending (insert_start d) = Inr s"
      "(case write_rows x store_id (rows_to_insert s) (store (i_db s)) of
         Inl err \<Rightarrow> Inl (Foreign (Sql err))
       | Inr t \<Rightarrow> Inr (length pending, (i_db s)\<lparr>store := t, fulltext_values := fulltext_values (i_db s) @ fulltext_queue s\<rparr>)) = Inr (n, d')"
    using assms by (auto simp: insert_datoms_def insert_start_def result_simps)
  then obtain t where "write_rows x store_id (rows_to_insert s) (store (i_db s)) = Inr t"
    by (cases "write_rows x store_id (rows_to_insert s) (store (i_db s))") simp_all
  then show ?thesis using that [of s t] s by simp
qed

text \<open>What is written when a transaction succeeds.\<close>

lemma insert_datoms_written:
  assumes "literals_ok x" "proj_ok (store d)" "fresh_pending tx pending (store d)" "typed_pending pending"
    and "insert_datoms x pending tx d = Inr (n, d')"
  obtains s ds where "foldR (insert_step x tx pending) pending (insert_start d) = Inr s" "insert_inv tx pending d s"
    "inj_on (row_fact x store_id) (set (rows_to_insert s))" "proj_ok (store d')"
    "proj (store d') = foldl (abs_step x store_id) (proj (store (i_db s))) (rows_to_insert s)"
    "datoms (store d') = datoms (store (i_db s)) @ ds" "set ds = log_values x store_id ` set (rows_to_insert s)"
    "cat d' = cat d" "tx_seq d' = tx_seq d"
proof -
  obtain s t where s: "foldR (insert_step x tx pending) pending (insert_start d) = Inr s"
      "write_rows x store_id (rows_to_insert s) (store (i_db s)) = Inr t"
      "d' = (i_db s)\<lparr>store := t, fulltext_values := fulltext_values (i_db s) @ fulltext_queue s\<rparr>"
    by (rule insert_datoms_split [OF assms(5)])
  have start: "insert_inv tx pending d (insert_start d)" using assms(2) by (simp add: insert_inv_def insert_start_def)
  have inv: "insert_inv tx pending d s"
    using s(1) start by (rule foldR_invariant [where P = "insert_inv tx pending d"]) (rule insert_step_inv)
  then have s_inv: "i_db s = d\<lparr>store := store (i_db s)\<rparr>" "proj_ok (store (i_db s))"
      "set (datoms (store (i_db s))) \<subseteq> set (datoms (store d))" "\<forall>r\<in>set (rows_to_insert s). row_from tx pending r"
    by (simp_all add: insert_inv_def)
  note rows = assms(1) s_inv(2) rows_from_fresh [OF assms(3) s_inv(4,3)] rows_from_tx_rows [OF assms(4) s_inv(4)]
  have inj: "inj_on (row_fact x store_id) (set (rows_to_insert s))" using write_rows_Inl [OF rows] s(2) by fastforce
  obtain ds where "proj_ok t" "proj t = foldl (abs_step x store_id) (proj (store (i_db s))) (rows_to_insert s)"
      "datoms t = datoms (store (i_db s)) @ ds" "set ds = log_values x store_id ` set (rows_to_insert s)"
    using write_rows_Inr [OF rows inj] s(2) by auto
  moreover have "store d' = t" "cat d' = cat (i_db s)" "tx_seq d' = tx_seq (i_db s)" using s(3) by simp_all
  moreover have "cat (i_db s) = cat d" "tx_seq (i_db s) = tx_seq d" by (subst s_inv(1), simp)+
  ultimately show ?thesis using that s(1) inv inj by simp
qed

section \<open>The example\<close>

lemma literals_ok_env: "literals_ok sample_env"
  using literals_ok_sample by (simp add: literals_ok_def sample_env_def sample_pgx_def)

lemma proj_ok_db: "proj_ok (store sample_db)"
  by (auto simp: proj_ok_def primary_keys_def proj_def live_def sample_db_def log_eav_def cur_key_def log_key_def fun_eq_iff)

end
