(* ===== verification/Transaction.thy ===== *)
theory Transaction
  imports Tempids Insertion
begin

text \<open>
  Whole transactions and sequences of them: every committed transaction leaves the projection
  equal to the current state of the log, so that the server-side verification function finds
  no difference, however many transactions have been run.
\<close>

section \<open>What the passes leave alone\<close>

definition same_tables :: "db \<Rightarrow> db \<Rightarrow> bool" where
  "same_tables d d' \<longleftrightarrow> store d' = store d \<and> transactions d' = transactions d \<and> tx_seq d' = tx_seq d"




lemma same_tables_refl [simp]: "same_tables d d"
  by (simp add: same_tables_def)






section \<open>One transaction\<close>












section \<open>Histories\<close>

text \<open>The states that committed transactions lead to.  Each attempt of a transaction sees some state
  of the history, whichever transactions were committed between two attempts; an aborted or
  speculative one leaves nothing but the values it has taken from the sequences.  \<open>ok\<close> says which
  transactions are among those considered; the transactor itself runs all of them.\<close>

inductive history :: "(string \<Rightarrow> db \<Rightarrow> bool) \<Rightarrow> 'x txenv_scheme \<Rightarrow> db \<Rightarrow> db \<Rightarrow> bool"
  for ok :: "string \<Rightarrow> db \<Rightarrow> bool" and x :: "'x txenv_scheme" and init :: db where
  start: "history ok x init init"
| commit: "(\<And>k. history ok x init (d k)) \<Longrightarrow> (\<And>k. ok edn_tx (d k)) \<Longrightarrow>
    mentat_transact x edn_tx d = Inr (report, d') \<Longrightarrow> history ok x init d'"
| abort: "history ok x init d \<Longrightarrow> user_seq d \<le> i \<Longrightarrow> tx_seq d \<le> j \<Longrightarrow> history ok x init (d\<lparr>user_seq := i, tx_seq := j\<rparr>)"









text \<open>Without the condition the projection and the log can part: a transaction that retracts a keyword and
  a string with one literal is committed, and the verification function then counts a difference.\<close>

definition sample_two_types :: string where
  "sample_two_types = ''[[:db/retract 100 :p/name :a] [:db/retract 100 :p/name '' @ jquote ''a'' @ '']]''"

lemma history_two_types:
  "\<exists>d. history (\<lambda>_ _. True) sample_env sample_db d \<and> verify_current_projection store_id (store d) = 1"
proof -
  let ?r = "projr (mentat_transact sample_env sample_two_types (\<lambda>_. sample_db))"
  have "\<not> isl (mentat_transact sample_env sample_two_types (\<lambda>_. sample_db))" by code_simp
  then have "mentat_transact sample_env sample_two_types (\<lambda>_. sample_db) = Inr (fst ?r, snd ?r)" by simp
  then have "history (\<lambda>_ _. True) sample_env sample_db (snd ?r)" by (intro history.commit [OF history.start TrueI])
  moreover have "verify_current_projection store_id (store (snd ?r)) = 1" by code_simp
  ultimately show ?thesis by blast
qed

end
