(* ===== verification/Insertion_Values.thy ===== *)
theory Insertion_Values
  imports Insertion
begin

text \<open>
  The values that an entity has for an attribute after \<open>insert_datoms\<close>: the asserted value for an
  attribute of cardinality one, and the old values without the retracted and with the asserted
  ones otherwise.
\<close>

section \<open>Specification\<close>

definition values_at :: "tables \<Rightarrow> int \<Rightarrow> int \<Rightarrow> typed_value set" where
  "values_at t e a = {v. proj t (store_id, e, a, v) \<noteq> None}"

definition asserted :: "'x txenv_scheme \<Rightarrow> pending_datom list \<Rightarrow> int \<Rightarrow> int \<Rightarrow> typed_value set" where
  "asserted x ps e a = set (map (\<lambda>p. column x (p_v p)) (filter (\<lambda>p. p_added p \<and> p_e p = e \<and> p_a p = a) ps))"

definition retracted :: "'x txenv_scheme \<Rightarrow> pending_datom list \<Rightarrow> int \<Rightarrow> int \<Rightarrow> typed_value set" where
  "retracted x ps e a = set (map (\<lambda>p. column x (p_v p)) (filter (\<lambda>p. \<not> p_added p \<and> p_e p = e \<and> p_a p = a) ps))"

definition one_attr :: "db \<Rightarrow> int \<Rightarrow> bool" where
  "one_attr d a \<longleftrightarrow> (\<exists>info. lookup_attribute_info d a = Some info \<and> cardinality info = ''one'')"

definition new_values :: "'x txenv_scheme \<Rightarrow> db \<Rightarrow> pending_datom list \<Rightarrow> int \<Rightarrow> int \<Rightarrow> typed_value set" where
  "new_values x d ps e a =
     (if one_attr d a \<and> asserted x ps e a \<noteq> {} then asserted x ps e a
      else values_at (store d) e a - retracted x ps e a \<union> asserted x ps e a)"

text \<open>A stored value that the transactor reads back as it is: not an instant with a fraction of a
  second, which the projection is read without.\<close>

definition reads_back :: "'x txenv_scheme \<Rightarrow> typed_value \<Rightarrow> bool" where
  "reads_back x v \<longleftrightarrow> parse_typed_value_from_tag x (type_tag v) (value_text x v) = Inr v \<and> column x v = v"

definition readable :: "'x txenv_scheme \<Rightarrow> db \<Rightarrow> pending_datom list \<Rightarrow> bool" where
  "readable x d ps \<longleftrightarrow> (\<forall>p\<in>set ps. p_added p \<and> one_attr d (p_a p) \<longrightarrow>
     (\<exists>w. values_at (store d) (p_e p) (p_a p) \<subseteq> {w})
     \<and> (\<forall>w\<in>values_at (store d) (p_e p) (p_a p). type_tag w = type_tag (p_v p) \<and> reads_back x w))"

definition no_conflict :: "'x txenv_scheme \<Rightarrow> pending_datom list \<Rightarrow> bool" where
  "no_conflict x ps \<longleftrightarrow> (\<forall>e a. asserted x ps e a \<inter> retracted x ps e a = {})"

section \<open>The decision for cardinality one\<close>

lemma values_at_current: "v \<in> values_at t e a \<longleftrightarrow> (store_id, e, a, v) \<in> cur_key ` set (current t)"
  by (simp add: values_at_def proj_None)

lemma tv_eqD: "tv_eq v w \<Longrightarrow> v = w"
  by (cases v; cases w) (auto simp: tv_eq_def split: if_splits)

lemma current_rows_values:
  assumes "\<forall>w\<in>values_at t e a. type_tag w = type_tag hint"
  shows "c_v ` set (current_rows_ea store_id e a hint t) = values_at t e a"
proof (rule set_eqI)
  fix w
  have "w \<in> values_at t e a \<longleftrightarrow> (\<exists>c\<in>set (current t). c_store c = store_id \<and> c_e c = e \<and> c_a c = a \<and> c_v c = w)"
    unfolding values_at_current by (auto simp: cur_key_def image_iff)
  then show "w \<in> c_v ` set (current_rows_ea store_id e a hint t) \<longleftrightarrow> w \<in> values_at t e a"
    using assms by (auto simp: current_rows_ea_def table_type)
qed

lemma retract_existing_values:
  assumes r: "retract_existing_cardinality_one x store_id e a new t = Inr r"
    and one: "\<exists>w. values_at t e a \<subseteq> {w}"
    and ok: "\<forall>w\<in>values_at t e a. type_tag w = type_tag new \<and> reads_back x w"
  shows "case r of Skip \<Rightarrow> values_at t e a = {column x new} | Insert \<Rightarrow> values_at t e a = {}
    | Replace old \<Rightarrow> values_at t e a = {old} \<and> column x old = old"
proof -
  let ?rs = "current_rows_ea store_id e a new t"
  have vals: "c_v ` set ?rs = values_at t e a" using current_rows_values ok by blast
  show ?thesis
  proof (cases "limit1 (pick_cur x) ?rs")
    case None
    then have "r = Insert" using r
      by (simp add: retract_existing_cardinality_one_def current_projection_value_for_ea_def)
    moreover have "values_at t e a = {}" unfolding vals [symmetric] using None limit1_set(2) [of "pick_cur x" ?rs] by simp
    ultimately show ?thesis by simp
  next
    case (Some c)
    have c: "c_v c \<in> values_at t e a" unfolding vals [symmetric] using limit1_set(1) [OF Some] by (rule imageI)
    then have rb: "type_tag (c_v c) = type_tag new" "reads_back x (c_v c)" using ok by blast+
    have sing: "values_at t e a = {c_v c}" using one c by blast
    have "current_projection_value_for_ea x store_id e a new t = Inr (Some (c_v c))"
      using Some rb by (simp add: current_projection_value_for_ea_def reads_back_def)
    then have "r = (if tv_eq (c_v c) new then Skip else Replace (c_v c))" using r
      by (simp add: retract_existing_cardinality_one_def split: if_splits)
    then show ?thesis using rb(2) sing by (cases "tv_eq (c_v c) new") (auto simp: reads_back_def dest: tv_eqD)
  qed
qed

section \<open>The loop\<close>

definition touched :: "'x txenv_scheme \<Rightarrow> insert_state \<Rightarrow> bool \<Rightarrow> int \<Rightarrow> int \<Rightarrow> typed_value set" where
  "touched x s b e a = {v. \<exists>r\<in>set (rows_to_insert s). row_fact x store_id r = (store_id, e, a, v) \<and> row_added r = b}"

definition outcome :: "'x txenv_scheme \<Rightarrow> insert_state \<Rightarrow> int \<Rightarrow> int \<Rightarrow> typed_value set" where
  "outcome x s e a = touched x s True e a \<union> (values_at (store (i_db s)) e a - touched x s False e a)"

text \<open>At one entity and attribute: what is queued (\<open>T\<close>, \<open>F\<close>), what the tables hold (\<open>V\<close>), what
  the datoms so far say (\<open>A\<close>, \<open>R\<close>) and what the tables held at first (\<open>V0\<close>).\<close>

definition values_rel ::
  "bool \<Rightarrow> typed_value set \<Rightarrow> typed_value set \<Rightarrow> typed_value set \<Rightarrow> typed_value set \<Rightarrow> typed_value set \<Rightarrow> typed_value set \<Rightarrow> bool" where
  "values_rel one A R V0 T F V \<longleftrightarrow> T \<subseteq> A \<and> F \<subseteq> R \<union> (if one \<and> A \<noteq> {} then V0 else {})
     \<and> (\<not> (one \<and> A \<noteq> {}) \<longrightarrow> V = V0) \<and> T \<union> (V - F) = (if one \<and> A \<noteq> {} then A else V0 - R \<union> A)"

lemma values_rel_steps:
  assumes "values_rel one A R V0 T F V"
  shows "w \<notin> A \<Longrightarrow> values_rel one A (insert w R) V0 T (insert w F) V"
    and "\<not> one \<Longrightarrow> w \<in> V \<Longrightarrow> w \<notin> R \<Longrightarrow> values_rel one (insert w A) R V0 T F V"
    and "\<not> one \<Longrightarrow> w \<notin> R \<Longrightarrow> values_rel one (insert w A) R V0 (insert w T) F V"
    and "A = {} \<Longrightarrow> V = {w} \<Longrightarrow> w \<notin> R \<Longrightarrow> one \<Longrightarrow> values_rel one (insert w A) R V0 T F V"
    and "A = {} \<Longrightarrow> V = {} \<Longrightarrow> one \<Longrightarrow> values_rel one (insert w A) R V0 (insert w T) F V"
    and "A = {} \<Longrightarrow> V = {u} \<Longrightarrow> one \<Longrightarrow> values_rel one (insert w A) R V0 (insert w T) (insert u F) V"
    and "A = {} \<Longrightarrow> one \<Longrightarrow> values_rel one (insert w A) R V0 (insert w T) F {}"
  using assms unfolding values_rel_def by (auto split: if_splits)

definition values_inv :: "'x txenv_scheme \<Rightarrow> db \<Rightarrow> pending_datom list \<Rightarrow> insert_state \<Rightarrow> int \<Rightarrow> int \<Rightarrow> bool" where
  "values_inv x d ps s e a \<longleftrightarrow> values_rel (one_attr d a) (asserted x ps e a) (retracted x ps e a) (values_at (store d) e a)
     (touched x s True e a) (touched x s False e a) (values_at (store (i_db s)) e a)"

lemma touched_snoc:
  "touched x (s\<lparr>rows_to_insert := rows_to_insert s @ [(e, a, v, tx, b)]\<rparr>) c e' a' =
     (if e' = e \<and> a' = a \<and> b = c then insert (column x v) (touched x s c e' a') else touched x s c e' a')"
  by (auto simp: touched_def row_fact.simps)

lemma touched_queue:
  "touched x (queue_assertion p tx s) c e' a' =
     (if e' = p_e p \<and> a' = p_a p \<and> c then insert (column x (p_v p)) (touched x s c e' a') else touched x s c e' a')"
  by (auto simp: touched_def row_fact.simps)

lemma touched_map_store [simp]: "touched x (map_store f s) c e a = touched x s c e a"
  by (simp add: touched_def)

lemma asserted_snoc:
  "asserted x (ps @ [p]) e a =
     (if p_added p \<and> e = p_e p \<and> a = p_a p then insert (column x (p_v p)) (asserted x ps e a) else asserted x ps e a)"
  "retracted x (ps @ [p]) e a =
     (if \<not> p_added p \<and> e = p_e p \<and> a = p_a p then insert (column x (p_v p)) (retracted x ps e a) else retracted x ps e a)"
  by (auto simp: asserted_def retracted_def)

lemma single_assertion:
  assumes "validate_datom_constraints x p (ps @ p # rest) d = Inr ()" "p_added p"
    "lookup_attribute_info d (p_a p) = Some info" "cardinality info = ''one''"
  shows "asserted x' ps (p_e p) (p_a p) = {}"
proof -
  have "\<not> 1 < assertions_of (p_e p) (p_a p) (ps @ p # rest)"
    using assms by (auto simp: validate_datom_constraints_def Let_def split: if_splits)
  then have "filter (\<lambda>q. p_e q = p_e p \<and> p_a q = p_a p \<and> p_added q) ps = []"
    using assms(2) by (simp add: assertions_of_def)
  then show ?thesis by (auto simp: asserted_def filter_empty_conv)
qed

lemma values_at_prune:
  assumes "proj_ok t" "\<forall>w\<in>values_at t e a. type_tag w = type_tag hint"
  shows "values_at (prune_projection_ea store_id e a hint (prune_no_history_ea store_id e a hint t)) e' a' =
    (if e' = e \<and> a' = a then {} else values_at t e' a')"
  using assms(2) unfolding values_at_def prune_ea(2) [OF assms(1) refl] by (auto simp: of_ea_def)

lemma values_at_prune_eav:
  assumes "proj_ok t" "\<not> is_duplicate_cardinality_many x store_id e a v t"
  shows "values_at (prune_no_history_eav x store_id e a v t) e' a' = values_at t e' a'"
  unfolding values_at_def prune_eav(2) [OF assms refl] by simp

lemma duplicate_values: "is_duplicate_cardinality_many x store_id e a v t \<longleftrightarrow> column x v \<in> values_at t e a"
  by (simp add: is_duplicate_cardinality_many_def values_at_current)

lemmas values_step = values_inv_def asserted_snoc touched_snoc touched_queue

lemma no_conflict_apart:
  assumes "no_conflict x (ps @ p # rest)"
  shows "if p_added p then column x (p_v p) \<notin> retracted x ps (p_e p) (p_a p) else column x (p_v p) \<notin> asserted x ps (p_e p) (p_a p)"
proof -
  let ?w = "column x (p_v p)" and ?pending = "ps @ p # rest"
  have "(if p_added p then ?w \<in> asserted x ?pending (p_e p) (p_a p) else ?w \<in> retracted x ?pending (p_e p) (p_a p))"
    by (auto simp: asserted_def retracted_def)
  moreover have "asserted x ps e a \<subseteq> asserted x ?pending e a" "retracted x ps e a \<subseteq> retracted x ?pending e a" for e a
    by (auto simp: asserted_def retracted_def)
  ultimately show ?thesis using assms unfolding no_conflict_def by (cases "p_added p"; simp; blast)
qed

text \<open>What is known of an assertion that has been validated.\<close>

definition valid_at :: "'x txenv_scheme \<Rightarrow> db \<Rightarrow> pending_datom list \<Rightarrow> insert_state \<Rightarrow> pending_datom \<Rightarrow> attribute_info \<Rightarrow> bool" where
  "valid_at x d ps s p info \<longleftrightarrow> p_added p \<and> column x (p_v p) \<notin> retracted x ps (p_e p) (p_a p)
     \<and> (cardinality info = ''many'' \<longrightarrow> \<not> one_attr d (p_a p))
     \<and> (cardinality info = ''one'' \<longrightarrow> one_attr d (p_a p) \<and> asserted x ps (p_e p) (p_a p) = {}
         \<and> (\<exists>w. values_at (store (i_db s)) (p_e p) (p_a p) \<subseteq> {w})
         \<and> (\<forall>w\<in>values_at (store (i_db s)) (p_e p) (p_a p). type_tag w = type_tag (p_v p) \<and> reads_back x w))"

lemma validated:
  assumes pending: "readable x d (ps @ p # rest)" "no_conflict x (ps @ p # rest)"
    and inv: "insert_inv tx (ps @ p # rest) d s" "values_inv x d ps s (p_e p) (p_a p)"
    and valid: "p_added p" "validate_datom_constraints x p (ps @ p # rest) (i_db s) = Inr ()"
      "lookup_attribute_info (i_db s) (p_a p) = Some info"
  shows "valid_at x d ps s p info"
proof -
  have look: "lookup_attribute_info (i_db s) = lookup_attribute_info d" using inv(1) lookup_store by (metis insert_inv_def)
  have "asserted x ps (p_e p) (p_a p) = {} \<and> (\<exists>w. values_at (store (i_db s)) (p_e p) (p_a p) \<subseteq> {w})
      \<and> (\<forall>w\<in>values_at (store (i_db s)) (p_e p) (p_a p). type_tag w = type_tag (p_v p) \<and> reads_back x w)"
    if one: "cardinality info = ''one''"
  proof -
    have A: "asserted x ps (p_e p) (p_a p) = {}" using single_assertion [OF valid(2,1,3) one] .
    then have V: "values_at (store (i_db s)) (p_e p) (p_a p) = values_at (store d) (p_e p) (p_a p)"
      using inv(2) by (simp add: values_inv_def values_rel_def)
    have "one_attr d (p_a p)" using valid(3) one by (simp add: one_attr_def look)
    then show ?thesis using A pending(1) valid(1) unfolding V readable_def by auto
  qed
  then show ?thesis using no_conflict_apart [OF pending(2)] valid by (auto simp: valid_at_def one_attr_def look)
qed

lemma assert_no_history_values:
  assumes at: "valid_at x d ps s p info" and ok: "proj_ok (store (i_db s))" and inv: "\<And>e a. values_inv x d ps s e a"
    and step: "assert_no_history x tx p info s = Inr s'"
  shows "values_inv x d (ps @ [p]) s' e a"
  using step
proof (cases rule: assert_no_history_cases)
  note here = inv [of "p_e p" "p_a p", unfolded values_inv_def] and there = inv [of e a, unfolded values_inv_def]
  {
    case skip
    then show ?thesis using values_rel_steps(4) [OF here] there at retract_existing_values [OF skip(3)]
      by (auto simp: values_step valid_at_def)
  next
    case one
    then show ?thesis using values_rel_steps(7) [OF here] there at values_at_prune [OF ok, of "p_e p" "p_a p" "p_v p"]
      by (auto simp: values_step valid_at_def)
  next
    case dup
    then show ?thesis using values_rel_steps(2) [OF here] there at by (auto simp: values_step valid_at_def duplicate_values)
  next
    case many
    then show ?thesis using values_rel_steps(3) [OF here] there at values_at_prune_eav [OF ok many(2)]
      by (auto simp: values_step valid_at_def)
  }
qed

lemma assert_with_history_values:
  assumes at: "valid_at x d ps s p info" and inv: "\<And>e a. values_inv x d ps s e a"
    and step: "assert_with_history x tx p info s = Inr s'"
  shows "values_inv x d (ps @ [p]) s' e a"
  using step
proof (cases rule: assert_with_history_cases)
  note here = inv [of "p_e p" "p_a p", unfolded values_inv_def] and there = inv [of e a, unfolded values_inv_def]
  {
    case skip
    then show ?thesis using values_rel_steps(4) [OF here] there at retract_existing_values [OF skip(3)]
      by (auto simp: values_step valid_at_def)
  next
    case ins
    then show ?thesis using values_rel_steps(5) [OF here] there at retract_existing_values [OF ins(3)]
      by (auto simp: values_step valid_at_def)
  next
    case (replace old)
    then show ?thesis using values_rel_steps(6) [OF here] there at retract_existing_values [OF replace(2)]
      by (auto simp: values_step valid_at_def)
  next
    case dup
    then show ?thesis using values_rel_steps(2) [OF here] there at by (auto simp: values_step valid_at_def duplicate_values)
  next
    case many
    then show ?thesis using values_rel_steps(3) [OF here] there at by (auto simp: values_step valid_at_def)
  }
qed

lemma insert_step_values:
  assumes pending: "readable x d (ps @ p # rest)" "no_conflict x (ps @ p # rest)"
    and inv: "insert_inv tx (ps @ p # rest) d s" "\<And>e a. values_inv x d ps s e a"
    and step: "insert_step x tx (ps @ p # rest) p s = Inr s'"
  shows "values_inv x d (ps @ [p]) s' e a"
  using step
proof (cases rule: insert_step_cases)
  case retract
  then show ?thesis
    using values_rel_steps(1) [OF inv(2) [of "p_e p" "p_a p", unfolded values_inv_def]] inv(2) [of e a, unfolded values_inv_def]
      no_conflict_apart [OF pending(2)]
    by (auto simp: values_step)
next
  case (no_history info)
  have "proj_ok (store (i_db s))" using inv(1) by (simp add: insert_inv_def)
  then show ?thesis using assert_no_history_values [OF validated [OF pending inv no_history(1-3)] _ inv(2) no_history(4)] by blast
next
  case (history info)
  then show ?thesis using assert_with_history_values [OF validated [OF pending inv history(1-3)] inv(2) history(4)] by blast
qed

lemma insert_steps_values:
  assumes pending: "readable x d pending" "no_conflict x pending" "pending = ps @ rest"
    and inv: "insert_inv tx pending d s" "\<And>e a. values_inv x d ps s e a"
    and steps: "foldR (insert_step x tx pending) rest s = Inr s'"
  shows "values_inv x d pending s' e a"
  using pending(3) inv steps
proof (induction rest arbitrary: ps s)
  case (Cons p rest)
  then obtain u where u: "insert_step x tx pending p s = Inr u" "foldR (insert_step x tx pending) rest u = Inr s'"
    by (auto simp: result_simps)
  have "insert_inv tx pending d u" using Cons.prems(1) by (intro insert_step_inv [OF _ Cons.prems(2) u(1)]) simp
  moreover have "values_inv x d (ps @ [p]) u e a" for e a
    using insert_step_values [of x d ps p rest tx s u e a] pending(1,2) Cons.prems(1-3) u(1) by simp
  ultimately show ?case using Cons.IH [of "ps @ [p]" u] Cons.prems(1) u(2) by simp
qed simp

section \<open>Properties\<close>

text \<open>C2.  Inserting the datoms of a transaction gives every entity the values that they say.  For an
  attribute of cardinality one with an assertion, the entity has the asserted value and no other;
  otherwise it has its old values without the retracted and with the asserted ones.  So no entity
  gets two values of an attribute of cardinality one.  This is provided that no value is both
  asserted and retracted, that the datoms of one entity and attribute have values of one type, and
  that an asserted attribute of cardinality one has at most one old value, which has the type of the
  new one and is read back as it was stored (no instant with a fraction of a second).\<close>

theorem insert_datoms_values:
  assumes "literals_ok x" "proj_ok (store d)" "fresh_pending tx pending (store d)" "typed_pending pending"
    and "readable x d pending" "no_conflict x pending"
    and "insert_datoms x pending tx d = Inr (n, d')"
  shows "values_at (store d') e a = new_values x d pending e a"
proof -
  obtain s where s: "foldR (insert_step x tx pending) pending (insert_start d) = Inr s"
      "inj_on (row_fact x store_id) (set (rows_to_insert s))"
      "proj (store d') = foldl (abs_step x store_id) (proj (store (i_db s))) (rows_to_insert s)"
    by (rule insert_datoms_written [OF assms(1-4,7)])
  have start: "insert_inv tx pending d (insert_start d)" using assms(2) by (simp add: insert_inv_def insert_start_def)
  have "values_inv x d [] (insert_start d) e a" for e a
    by (simp add: values_inv_def values_rel_def insert_start_def asserted_def retracted_def touched_def)
  then have "values_inv x d pending s e a" using insert_steps_values [OF assms(5,6) _ start _ s(1), of "[]"] by simp
  then have "outcome x s e a = new_values x d pending e a" by (simp add: values_inv_def values_rel_def new_values_def outcome_def)
  moreover have "v \<in> values_at (store d') e a \<longleftrightarrow> v \<in> outcome x s e a" for v
  proof (cases "(store_id, e, a, v) \<in> row_fact x store_id ` set (rows_to_insert s)")
    case True
    then obtain r where r: "r \<in> set (rows_to_insert s)" "row_fact x store_id r = (store_id, e, a, v)" by fastforce
    then have "r' = r" if "r' \<in> set (rows_to_insert s)" "row_fact x store_id r' = (store_id, e, a, v)" for r'
      using inj_onD [OF s(2)] that by metis
    then have "v \<in> touched x s b e a \<longleftrightarrow> row_added r = b" for b using r unfolding touched_def by blast
    moreover have "v \<in> values_at (store d') e a \<longleftrightarrow> row_added r"
      using foldl_abs_step_row [OF s(2) r(1)] unfolding values_at_def s(3) r(2) by simp
    ultimately show ?thesis by (auto simp: outcome_def)
  next
    case False
    then have "v \<notin> touched x s b e a" for b unfolding touched_def by force
    then show ?thesis using foldl_abs_step_other [OF False] by (simp add: outcome_def values_at_def s(3))
  qed
  ultimately show ?thesis by blast
qed

definition sample_pending :: "pending_datom list" where
  "sample_pending = [\<lparr>p_e = 100, p_a = 65, p_v = TText ''b'', p_added = True\<rparr>,
     \<lparr>p_e = 101, p_a = 66, p_v = TText ''t'', p_added = False\<rparr>,
     \<lparr>p_e = 101, p_a = 66, p_v = TText ''u'', p_added = True\<rparr>]"

lemma sample_values:
  "values_at (store sample_db) 100 65 = {TText ''a''}" "values_at (store sample_db) 101 66 = {TText ''t''}"
  by (auto simp: values_at_def proj_def sample_db_def cur_key_def)

lemma sample_one: "one_attr sample_db 65" "\<not> one_attr sample_db 66"
proof -
  have "map_option cardinality (lookup_attribute_info sample_db 65) = Some ''one''"
    "map_option cardinality (lookup_attribute_info sample_db 66) = Some ''many''" by code_simp+
  then show "one_attr sample_db 65" "\<not> one_attr sample_db 66" by (auto simp: one_attr_def)
qed

theorem insert_datoms_values_witness:
  "\<exists>n d'. insert_datoms sample_env sample_pending 600 sample_db = Inr (n, d')
     \<and> values_at (store d') 100 65 = {TText ''b''} \<and> values_at (store d') 101 66 = {TText ''u''}"
proof -
  let ?r = "projr (insert_datoms sample_env sample_pending 600 sample_db)"
  have "\<not> isl (insert_datoms sample_env sample_pending 600 sample_db)" by code_simp
  then have r: "insert_datoms sample_env sample_pending 600 sample_db = Inr (fst ?r, snd ?r)" by simp
  have fresh: "fresh_pending 600 sample_pending (store sample_db)" and typed: "typed_pending sample_pending"
    by (auto simp: fresh_pending_def typed_pending_def sample_pending_def sample_db_def)
  have vals: "asserted sample_env sample_pending 100 65 = {TText ''b''}" "asserted sample_env sample_pending 101 66 = {TText ''u''}"
      "retracted sample_env sample_pending 101 66 = {TText ''t''}"
    by (auto simp: asserted_def retracted_def sample_pending_def)
  have "retracted sample_env sample_pending e a = (if e = 101 \<and> a = 66 then {TText ''t''} else {})" for e a
    by (auto simp: retracted_def sample_pending_def)
  then have conflict: "no_conflict sample_env sample_pending" using vals by (simp add: no_conflict_def)
  have "reads_back sample_env (TText ''a'')" by (simp add: reads_back_def parse_typed_value_from_tag_def)
  then have "readable sample_env sample_db sample_pending"
    using sample_values sample_one by (auto simp: readable_def sample_pending_def)
  note result = insert_datoms_values [OF literals_ok_env proj_ok_db fresh typed this conflict r]
  have "values_at (store (snd ?r)) 100 65 = {TText ''b''}" "values_at (store (snd ?r)) 101 66 = {TText ''u''}"
    unfolding result new_values_def using vals sample_values sample_one by auto
  then show ?thesis using r by blast
qed

text \<open>An old instant with a fraction of a second is not read back: its retraction is for the rounded instant,
  and the entity then has two values of an attribute of cardinality one.\<close>

definition sample_born :: db where
  "sample_born = sample_db\<lparr>cat := (cat sample_db)\<lparr>schema_rows := schema_rows (cat sample_db) @ [sample_attr 69 '':p/born'' ''instant'' ''one'' None False]\<rparr>,
     store := \<lparr>datoms = datoms (store sample_db) @ [\<lparr>l_store = 0, l_e = 100, l_a = 69, l_v = TInstant 1, l_tx = 1, l_added = True\<rparr>],
       current = current (store sample_db) @ [\<lparr>c_store = 0, c_e = 100, c_a = 69, c_v = TInstant 1, c_tx = 1\<rparr>]\<rparr>\<rparr>"

lemma insert_datoms_fraction:
  "map_sum id (\<lambda>(n, d'). map c_v (filter (\<lambda>c. c_e c = 100 \<and> c_a c = 69) (current (store d'))))
     (insert_datoms sample_env [\<lparr>p_e = 100, p_a = 69, p_v = TInstant 3, p_added = True\<rparr>] 600 sample_born)
   = Inr [TInstant 1, TInstant 3]"
  by code_simp

section \<open>Reading back\<close>

text \<open>Integers are in the range of their column; the text forms that the server and the crates write
  for other values are read as these values, as documented.\<close>

fun text_ok :: "'x txenv_scheme \<Rightarrow> typed_value \<Rightarrow> bool" where
  "text_ok x (TRef i) \<longleftrightarrow> i64_ok i"
| "text_ok x (TLong i) \<longleftrightarrow> i64_ok i"
| "text_ok x (TInstant m) \<longleftrightarrow> i64_ok (epoch_seconds m * 1000000)"
| "text_ok x (TDouble f) \<longleftrightarrow> read_f64 x (f64_text x f) = Some f"
| "text_ok x (TUuid u) \<longleftrightarrow> parse_uuid x (hyphenated x u) = Some u"
| "text_ok x (TBytes b) \<longleftrightarrow> hex_decode x (hex_encode x b) = Some b"
| "text_ok x _ \<longleftrightarrow> True"

lemma epoch_seconds_exact: "epoch_seconds m * 1000000 = m \<longleftrightarrow> 1000000 dvd m"
proof
  assume "1000000 dvd m"
  then obtain k where k: "m = 1000000 * k" by blast
  have "(2 * (1000000 * j) + 1000000) div 2000000 = j" for j :: int
    using div_mult_self1 [of 2000000 1000000 j] by (simp add: algebra_simps)
  from this [of k] this [of "- k"] show "epoch_seconds m * 1000000 = m" by (auto simp: epoch_seconds_def k)
qed (metis dvd_triv_right)

text \<open>C20.  A value in the projection is read back as it was stored, except for instants, of which
  the fraction of a second is lost.\<close>

theorem stored_value_reads_back:
  assumes "text_ok x v"
  shows "parse_typed_value_from_tag x (type_tag v) (value_text x v) = Inr v
    \<longleftrightarrow> (case v of TInstant m \<Rightarrow> 1000000 dvd m | _ \<Rightarrow> True)"
proof (cases v)
  case (TInstant m)
  then show ?thesis using assms str_parse_show_int [of "epoch_seconds m * 1000000"]
    by (simp add: parse_typed_value_from_tag_def epoch_seconds_exact)
qed (use assms in \<open>auto simp: parse_typed_value_from_tag_def parse_bool_def\<close>)

theorem stored_value_reads_back_witness:
  "parse_typed_value_from_tag sample_env 4 (value_text sample_env (TInstant 1500000)) \<noteq> Inr (TInstant 1500000)
   \<and> parse_typed_value_from_tag sample_env 10 (value_text sample_env (TUuid ''u'')) = Inr (TUuid ''u'')"
proof -
  have "text_ok sample_env (TInstant 1500000)" "text_ok sample_env (TUuid ''u'')"
    by (simp_all add: i64_ok_def epoch_seconds_def sample_env_def)
  from this [THEN stored_value_reads_back] show ?thesis by simp
qed

end
