(* ===== verification/Insertion_Unique.thy ===== *)
theory Insertion_Unique
  imports Insertion
begin

text \<open>
  Unique attributes: over the whole log, a value of a unique attribute has been asserted of one
  entity only.  Insertion keeps this, because it checks every assertion against the log and
  against the other assertions of the transaction.
\<close>

section \<open>Holders of a value\<close>

definition unique_attr :: "db \<Rightarrow> int \<Rightarrow> bool" where
  "unique_attr d a \<longleftrightarrow> (\<exists>info. lookup_attribute_info d a = Some info \<and> unique_constraint info \<noteq> None)"

definition holders :: "tables \<Rightarrow> int \<Rightarrow> typed_value \<Rightarrow> int set" where
  "holders t a v = {e. \<exists>r\<in>set (datoms t). log_eav r = (store_id, e, a, v) \<and> l_added r}"

definition unique_ok :: "db \<Rightarrow> bool" where
  "unique_ok d \<longleftrightarrow> (\<forall>a v. unique_attr d a \<longrightarrow> (\<exists>e. holders (store d) a v \<subseteq> {e}))"

text \<open>Asserted values that are equal once stored are equal for the transactor: no floating-point NaN
  and no two instants that the server rounds to one time stamp.\<close>

definition comparable :: "'x txenv_scheme \<Rightarrow> pending_datom list \<Rightarrow> bool" where
  "comparable x ps \<longleftrightarrow> (\<forall>p\<in>set ps. \<forall>q\<in>set ps. p_a p = p_a q \<and> column x (p_v p) = column x (p_v q) \<longrightarrow> tv_eq (p_v p) (p_v q))"

definition queued :: "'x txenv_scheme \<Rightarrow> insert_state \<Rightarrow> int \<Rightarrow> typed_value \<Rightarrow> int set" where
  "queued x s a v = {e. \<exists>r\<in>set (rows_to_insert s). row_fact x store_id r = (store_id, e, a, v) \<and> row_added r}"

lemma holders_check_unique:
  assumes "check_unique x d a v = None \<or> check_unique x d a v = Some e" "\<exists>e'. holders (store d) a (column x v) \<subseteq> {e'}"
  shows "holders (store d) a (column x v) \<subseteq> {e}"
proof -
  let ?rs = "filter (\<lambda>d. l_store d = store_id \<and> l_a d = a \<and> l_v d = column x v \<and> l_added d) (datoms (store d))"
  have h: "holders (store d) a (column x v) = l_e ` set ?rs"
    by (auto simp: holders_def log_eav_def)
  show ?thesis
  proof (cases "limit1 (pick_log x) ?rs")
    case None
    then have "?rs = []" using limit1_set(2) by blast
    then show ?thesis unfolding h by simp
  next
    case (Some r)
    then have "check_unique x d a v = Some (l_e r)" by (simp add: check_unique_def check_unique_typed_value_def)
    then have "e = l_e r" using assms(1) by simp
    then have "e \<in> holders (store d) a (column x v)" unfolding h using limit1_set(1) [OF Some] by (simp only: imageI)
    then show ?thesis using assms(2) by blast
  qed
qed

section \<open>The loop\<close>

definition unique_inv :: "'x txenv_scheme \<Rightarrow> db \<Rightarrow> pending_datom list \<Rightarrow> insert_state \<Rightarrow> bool" where
  "unique_inv x d ps s \<longleftrightarrow> (\<forall>a v. unique_attr d a \<longrightarrow> (\<exists>e. holders (store (i_db s)) a v \<union> queued x s a v \<subseteq> {e}))
     \<and> (\<forall>a v e. e \<in> queued x s a v \<longrightarrow> (\<exists>p\<in>set ps. p_added p \<and> p_e p = e \<and> p_a p = a \<and> column x (p_v p) = v))"

lemma unique_inv_shrink:
  assumes "unique_inv x d ps s" "set (datoms (store (i_db s'))) \<subseteq> set (datoms (store (i_db s)))"
    and "\<And>a v. queued x s' a v \<subseteq> queued x s a v"
  shows "unique_inv x d ps s'"
proof -
  have "holders (store (i_db s')) a v \<subseteq> holders (store (i_db s)) a v" for a v
    using assms(2) unfolding holders_def by blast
  then have "holders (store (i_db s')) a v \<union> queued x s' a v \<subseteq> holders (store (i_db s)) a v \<union> queued x s a v" for a v
    using assms(3) by blast
  then show ?thesis using assms(1,3) unfolding unique_inv_def by (meson subset_iff subset_trans)
qed

lemma queued_queue:
  "queued x (queue_assertion p tx s) a v = (if a = p_a p \<and> v = column x (p_v p) then insert (p_e p) (queued x s a v) else queued x s a v)"
  by (auto simp: queued_def row_fact.simps)

lemma queued_retract [simp]:
  "queued x (s\<lparr>rows_to_insert := rows_to_insert s @ [(e, a, v, tx, False)]\<rparr>) = queued x s"
  by (auto simp: queued_def fun_eq_iff)

lemma queued_map_store [simp]: "queued x (map_store f s) = queued x s"
  by (simp add: queued_def fun_eq_iff)

lemma unique_inv_queue:
  assumes inv: "unique_inv x d pending s" and p: "p \<in> set pending" "p_added p" and look: "lookup_attribute_info (i_db s) = lookup_attribute_info d"
    and "comparable x pending" and valid: "validate_datom_constraints x p pending (i_db s) = Inr ()"
    and sub: "set (datoms (store (i_db u))) \<subseteq> set (datoms (store (i_db s)))" "queued x u = queued x s"
  shows "unique_inv x d pending (queue_assertion p tx u)"
proof -
  let ?w = "column x (p_v p)" and ?s' = "queue_assertion p tx u"
  have inv': "unique_inv x d pending u" using unique_inv_shrink [OF inv sub(1)] sub(2) by simp
  have "holders (store (i_db ?s')) (p_a p) ?w \<union> queued x ?s' (p_a p) ?w \<subseteq> {p_e p}" if un: "unique_attr d (p_a p)"
  proof -
    obtain info ut where info: "lookup_attribute_info (i_db s) (p_a p) = Some info" "unique_constraint info = Some ut"
      using un by (auto simp: unique_attr_def look)
    then have v: "duplicates_of p pending = 0" "check_unique x (i_db s) (p_a p) (p_v p) = None \<or> check_unique x (i_db s) (p_a p) (p_v p) = Some (p_e p)"
      using valid by (auto simp: validate_datom_constraints_def Let_def split: if_splits option.splits)
    have "holders (store (i_db s)) (p_a p) ?w \<subseteq> {p_e p}"
      using holders_check_unique [OF v(2)] inv un unfolding unique_inv_def by blast
    moreover have "e = p_e p" if e: "e \<in> queued x u (p_a p) ?w" for e
    proof -
      obtain q where q: "q \<in> set pending" "p_added q" "p_e q = e" "p_a q = p_a p" "column x (p_v q) = ?w"
        using inv' e unfolding unique_inv_def by blast
      then have "tv_eq (p_v q) (p_v p)" using assms(5) p(1) unfolding comparable_def by blast
      then show ?thesis using v(1) q by (auto simp: duplicates_of_def filter_empty_conv)
    qed
    moreover have "holders (store (i_db ?s')) (p_a p) ?w \<subseteq> holders (store (i_db s)) (p_a p) ?w"
      using sub(1) by (auto simp: holders_def)
    ultimately show ?thesis by (auto simp: queued_queue)
  qed
  then show ?thesis using inv' p unfolding unique_inv_def by (auto simp: queued_queue split: if_splits)
qed

lemma insert_step_unique:
  assumes p: "p \<in> set pending" and "comparable x pending" and ok: "insert_inv tx pending d s"
    and inv: "unique_inv x d pending s" and step: "insert_step x tx pending p s = Inr s'"
  shows "unique_inv x d pending s'"
proof -
  have look: "lookup_attribute_info (i_db s) = lookup_attribute_info d" using ok lookup_store by (metis insert_inv_def)
  have pok: "proj_ok (store (i_db s))" using ok by (simp add: insert_inv_def)
  note queue = unique_inv_queue [OF inv p _ look assms(2)]
  show ?thesis using step
  proof (cases rule: insert_step_cases)
    case retract
    then show ?thesis using unique_inv_shrink [OF inv, of s'] by simp
  next
    case (no_history info)
    show ?thesis using no_history(4)
    proof (cases rule: assert_no_history_cases)
      case one
      show ?thesis unfolding one(2) by (rule queue [OF no_history(1,2)]) (use prune_ea(3) [OF pok refl] in simp_all)
    next
      case many
      show ?thesis unfolding many(3) by (rule queue [OF no_history(1,2)]) (use prune_eav(3) [OF pok many(2) refl] in simp_all)
    qed (use inv in simp_all)
  next
    case (history info)
    show ?thesis using history(4)
    proof (cases rule: assert_with_history_cases)
      case (replace old)
      show ?thesis unfolding replace(3) by (rule queue [OF history(1,2)]) simp_all
    qed (use inv queue [OF history(1,2), of s] in simp_all)
  qed
qed

section \<open>Properties\<close>

text \<open>C3.  Insertion keeps unique values unique: if every value of every unique attribute has ever been
  asserted in the log of at most one entity, this is so after the datoms of a transaction have been
  inserted.  This is provided that the datoms of one entity and attribute have values of one type,
  and that asserted values of one attribute which are stored as one value are equal for the transactor
  (no NaN, and no two instants that the server rounds to one time stamp).\<close>

theorem insert_datoms_unique:
  assumes "literals_ok x" "proj_ok (store d)" "fresh_pending tx pending (store d)" "typed_pending pending"
    and "comparable x pending" "unique_ok d" "insert_datoms x pending tx d = Inr (n, d')"
  shows "unique_ok d'"
proof -
  obtain s ds where s: "foldR (insert_step x tx pending) pending (insert_start d) = Inr s" "insert_inv tx pending d s"
      "datoms (store d') = datoms (store (i_db s)) @ ds" "set ds = log_values x store_id ` set (rows_to_insert s)" "cat d' = cat d"
    by (rule insert_datoms_written [OF assms(1-4,7)])
  have start: "insert_inv tx pending d (insert_start d) \<and> unique_inv x d pending (insert_start d)"
    using assms(2,6) by (simp add: insert_inv_def insert_start_def unique_inv_def unique_ok_def queued_def)
  have "insert_inv tx pending d s \<and> unique_inv x d pending s"
    using s(1) start
    by (rule foldR_invariant [where P = "\<lambda>s. insert_inv tx pending d s \<and> unique_inv x d pending s"])
      (blast intro: insert_step_inv insert_step_unique [OF _ assms(5)])
  then have inv: "\<forall>a v. unique_attr d a \<longrightarrow> (\<exists>e. holders (store (i_db s)) a v \<union> queued x s a v \<subseteq> {e})"
    by (simp add: unique_inv_def)
  have "holders (store d') a v \<subseteq> holders (store (i_db s)) a v \<union> queued x s a v" for a v
  proof
    fix e assume "e \<in> holders (store d') a v"
    then obtain r where r: "r \<in> set (datoms (store (i_db s))) \<or> r \<in> log_values x store_id ` set (rows_to_insert s)"
        "log_eav r = (store_id, e, a, v)" "l_added r"
      unfolding holders_def s(3) set_append s(4) by blast
    have "e \<in> holders (store (i_db s)) a v" if "r \<in> set (datoms (store (i_db s)))"
      using that r(2,3) unfolding holders_def by blast
    moreover have "e \<in> queued x s a v" if lr: "r \<in> log_values x store_id ` set (rows_to_insert s)"
    proof -
      obtain q where "q \<in> set (rows_to_insert s)" "r = log_values x store_id q" using lr by (rule imageE)
      then show ?thesis using r(2,3) log_values_simps [of x store_id q] unfolding queued_def by auto
    qed
    ultimately show "e \<in> holders (store (i_db s)) a v \<union> queued x s a v" using r(1) by blast
  qed
  moreover have "unique_attr d' a = unique_attr d a" for a
    by (simp add: unique_attr_def lookup_attribute_info_def tx_cache_view_def s(5))
  ultimately show ?thesis using inv unfolding unique_ok_def by (meson subset_trans)
qed

definition sample_mails :: "pending_datom list" where
  "sample_mails = [\<lparr>p_e = 100, p_a = 67, p_v = TText ''a@x'', p_added = True\<rparr>, \<lparr>p_e = 101, p_a = 67, p_v = TText ''b@x'', p_added = True\<rparr>]"

theorem insert_datoms_unique_witness:
  "\<exists>n d'. insert_datoms sample_env sample_mails 600 sample_db = Inr (n, d') \<and> unique_ok d'
     \<and> holders (store d') 67 (TText ''a@x'') = {100}"
proof -
  let ?r = "projr (insert_datoms sample_env sample_mails 600 sample_db)"
  have "\<not> isl (insert_datoms sample_env sample_mails 600 sample_db)" by code_simp
  then have r: "insert_datoms sample_env sample_mails 600 sample_db = Inr (fst ?r, snd ?r)" by simp
  have fresh: "fresh_pending 600 sample_mails (store sample_db)" and typed: "typed_pending sample_mails"
      and comp: "comparable sample_env sample_mails"
    by (auto simp: fresh_pending_def typed_pending_def comparable_def tv_eq_def sample_mails_def sample_db_def)
  have "holders (store sample_db) a v \<subseteq> (if a = 65 \<or> a = 68 then {100} else {101})" for a v
    by (auto simp: holders_def log_eav_def sample_db_def)
  then have "\<exists>e. holders (store sample_db) a v \<subseteq> {e}" for a v by (cases "a = 65 \<or> a = 68") fastforce+
  then have "unique_ok sample_db" by (simp add: unique_ok_def)
  from insert_datoms_unique [OF literals_ok_env proj_ok_db fresh typed comp this r] have "unique_ok (snd ?r)" .
  moreover have "holders t 67 v = l_e ` set (filter (\<lambda>r. l_store r = 0 \<and> l_a r = 67 \<and> l_v r = v \<and> l_added r) (datoms t))" for t v
    by (auto simp: holders_def log_eav_def)
  moreover have "map l_e (filter (\<lambda>r. l_store r = 0 \<and> l_a r = 67 \<and> l_v r = TText ''a@x'' \<and> l_added r) (datoms (store (snd ?r)))) = [100]"
    by code_simp
  ultimately have "unique_ok (snd ?r) \<and> holders (store (snd ?r)) 67 (TText ''a@x'') = {100}"
    by (simp only: set_map [symmetric] list.set simp_thms)
  then show ?thesis using r by blast
qed

text \<open>A NaN is different from itself for the check within a transaction, so two entities can be given one.\<close>

definition sample_rate :: db where
  "sample_rate = sample_db\<lparr>cat := (cat sample_db)\<lparr>schema_rows := schema_rows (cat sample_db) @ [sample_attr 69 '':p/rate'' ''double'' ''one'' (Some ''value'') False]\<rparr>\<rparr>"

lemma insert_datoms_nan:
  "map_sum id (\<lambda>(n, d'). map c_e (filter (\<lambda>c. c_a c = 69 \<and> c_v c = TDouble NaN) (current (store d'))))
     (insert_datoms sample_env [\<lparr>p_e = 100, p_a = 69, p_v = TDouble NaN, p_added = True\<rparr>, \<lparr>p_e = 101, p_a = 69, p_v = TDouble NaN, p_added = True\<rparr>] 600 sample_rate)
   = Inr [100, 101]"
  by code_simp

end
