(* ===== verification/Query_Cache.thy ===== *)
theory Query_Cache
  imports Prelude "HOL-Library.Word" "HOL-Library.Product_Lexorder" "HOL-Library.List_Lexorder"
begin

text \<open>
  The query cache of the daemon (\<open>mentatd/src/cache.rs\<close>): results of queries in a least-recently-used
  cache, with the entities that each result depends on and the reverse index from entities to
  cache keys that targeted invalidation goes through.

  The LRU cache itself is the crate \<open>lru\<close>; its operations are the record \<open>lru_ops\<close>, and
  \<open>lru_laws\<close> states what its documentation promises, in terms of the entries from the most to the
  least recently used.  The order in which a \<open>HashSet\<close> is iterated is not specified and is part
  of the record.  The clock is an argument, in units of the time to live.  The locks are never
  poisoned (nothing panics while holding one).  An operation that takes several locks one after
  the other is the composition of its sections, each a definition of its own.
\<close>

section \<open>The LRU cache\<close>

type_synonym cache_key = "string \<times> string"

record cache_entry =
  result_text :: string
  inserted_at :: nat

record 'c lru_ops =
  lru_valid :: "'c \<Rightarrow> bool"
  lru_iter :: "'c \<Rightarrow> (cache_key \<times> cache_entry) list"
  lru_new :: "nat \<Rightarrow> 'c"
  lru_cap :: "'c \<Rightarrow> nat"
  lru_len :: "'c \<Rightarrow> nat"
  lru_get :: "cache_key \<Rightarrow> 'c \<Rightarrow> cache_entry option \<times> 'c"
  lru_peek :: "cache_key \<Rightarrow> 'c \<Rightarrow> cache_entry option"
  lru_peek_lru :: "'c \<Rightarrow> (cache_key \<times> cache_entry) option"
  lru_put :: "cache_key \<Rightarrow> cache_entry \<Rightarrow> 'c \<Rightarrow> 'c"
  lru_pop :: "cache_key \<Rightarrow> 'c \<Rightarrow> 'c"
  lru_clear :: "'c \<Rightarrow> 'c"
  key_order :: "cache_key set \<Rightarrow> cache_key list"
  id_order :: "int set \<Rightarrow> int list"

definition without :: "'k \<Rightarrow> ('k \<times> 'v) list \<Rightarrow> ('k \<times> 'v) list" where
  "without k xs = filter (\<lambda>p. fst p \<noteq> k) xs"

definition to_front :: "'k \<Rightarrow> ('k \<times> 'v) list \<Rightarrow> ('k \<times> 'v) list" where
  "to_front k xs = (case map_of xs k of None \<Rightarrow> xs | Some v \<Rightarrow> (k, v) # without k xs)"

definition lru_laws :: "'c lru_ops \<Rightarrow> bool" where
  "lru_laws L \<longleftrightarrow>
     (\<forall>n>0. lru_valid L (lru_new L n) \<and> lru_iter L (lru_new L n) = [] \<and> lru_cap L (lru_new L n) = n)
     \<and> (\<forall>c. lru_valid L c \<longrightarrow>
          distinct (map fst (lru_iter L c)) \<and> length (lru_iter L c) \<le> lru_cap L c \<and> 0 < lru_cap L c
          \<and> lru_len L c = length (lru_iter L c)
          \<and> lru_peek_lru L c = (if lru_iter L c = [] then None else Some (last (lru_iter L c)))
          \<and> (lru_valid L (lru_clear L c) \<and> lru_iter L (lru_clear L c) = [] \<and> lru_cap L (lru_clear L c) = lru_cap L c))
     \<and> (\<forall>c k. lru_valid L c \<longrightarrow>
          lru_peek L k c = map_of (lru_iter L c) k
          \<and> (\<exists>c'. lru_get L k c = (map_of (lru_iter L c) k, c') \<and> lru_valid L c'
               \<and> lru_iter L c' = to_front k (lru_iter L c) \<and> lru_cap L c' = lru_cap L c)
          \<and> (lru_valid L (lru_pop L k c) \<and> lru_iter L (lru_pop L k c) = without k (lru_iter L c)
               \<and> lru_cap L (lru_pop L k c) = lru_cap L c))
     \<and> (\<forall>c k v. lru_valid L c \<longrightarrow>
          lru_valid L (lru_put L k v c) \<and> lru_cap L (lru_put L k v c) = lru_cap L c
          \<and> lru_iter L (lru_put L k v c) = take (lru_cap L c) ((k, v) # without k (lru_iter L c)))
     \<and> (\<forall>K. finite K \<longrightarrow> set (key_order L K) = K) \<and> (\<forall>I. finite I \<longrightarrow> set (id_order L I) = I)"

section \<open>The query cache\<close>

definition UNTRACKED_SENTINEL :: int where "UNTRACKED_SENTINEL = - (2 ^ 63)"

record 'c query_cache =
  lru :: 'c
  dependencies :: "cache_key \<rightharpoonup> int set"
  entity_to_keys :: "int \<rightharpoonup> cache_key set"
  ttl :: nat
  enabled :: bool
  hits :: "64 word"
  misses :: "64 word"
  targeted_invalidations :: "64 word"
  full_invalidations :: "64 word"

definition new_cache :: "'c lru_ops \<Rightarrow> nat \<Rightarrow> nat \<Rightarrow> 'c query_cache" where
  "new_cache L capacity life =
     \<lparr>lru = lru_new L (max capacity 1), dependencies = Map.empty, entity_to_keys = Map.empty, ttl = life,
      enabled = (capacity > 0), hits = 0, misses = 0, targeted_invalidations = 0, full_invalidations = 0\<rparr>"

subsection \<open>The reverse index\<close>

text \<open>Removing a key from the bucket of an entity, and the bucket when it becomes empty.\<close>

definition drop_key :: "cache_key \<Rightarrow> int \<Rightarrow> (int \<rightharpoonup> cache_key set) \<Rightarrow> (int \<rightharpoonup> cache_key set)" where
  "drop_key key e idx = (case idx e of
       None \<Rightarrow> idx
     | Some s \<Rightarrow> let s' = s - {key} in if s' = {} then idx(e := None) else idx(e \<mapsto> s'))"

definition remove_key_from_reverse_index ::
  "'c lru_ops \<Rightarrow> cache_key \<Rightarrow> int set \<Rightarrow> 'c query_cache \<Rightarrow> 'c query_cache" where
  "remove_key_from_reverse_index L key dep_set s =
     s\<lparr>entity_to_keys :=
        (if dep_set = {} then drop_key key UNTRACKED_SENTINEL (entity_to_keys s)
         else foldl (\<lambda>idx e. drop_key key e idx) (entity_to_keys s) (id_order L dep_set))\<rparr>"

definition remove_reverse_index_for_key :: "'c lru_ops \<Rightarrow> cache_key \<Rightarrow> 'c query_cache \<Rightarrow> 'c query_cache" where
  "remove_reverse_index_for_key L key s =
     (case dependencies s key of None \<Rightarrow> s | Some dep_set \<Rightarrow> remove_key_from_reverse_index L key dep_set s)"

definition remove_deps_for_key :: "'c lru_ops \<Rightarrow> cache_key \<Rightarrow> 'c query_cache \<Rightarrow> 'c query_cache" where
  "remove_deps_for_key L key s =
     (let s' = s\<lparr>dependencies := (dependencies s)(key := None)\<rparr> in
      case dependencies s key of None \<Rightarrow> s' | Some dep_set \<Rightarrow> remove_key_from_reverse_index L key dep_set s')"

definition put_key :: "cache_key \<Rightarrow> int \<Rightarrow> (int \<rightharpoonup> cache_key set) \<Rightarrow> (int \<rightharpoonup> cache_key set)" where
  "put_key key e idx = idx(e \<mapsto> insert key (case idx e of None \<Rightarrow> {} | Some s \<Rightarrow> s))"

definition add_deps_for_key :: "'c lru_ops \<Rightarrow> cache_key \<Rightarrow> int set \<Rightarrow> 'c query_cache \<Rightarrow> 'c query_cache" where
  "add_deps_for_key L key depends_on s =
     s\<lparr>dependencies := (dependencies s)(key \<mapsto> depends_on),
       entity_to_keys :=
         (if depends_on = {} then put_key key UNTRACKED_SENTINEL (entity_to_keys s)
          else foldl (\<lambda>idx e. put_key key e idx) (entity_to_keys s) (id_order L depends_on))\<rparr>"

subsection \<open>Operations\<close>

definition get_cached :: "'c lru_ops \<Rightarrow> nat \<Rightarrow> string \<Rightarrow> string \<Rightarrow> 'c query_cache \<Rightarrow> string option \<times> 'c query_cache" where
  "get_cached L now query args_json s =
     (if \<not> enabled s then (None, s)
      else let key = (query, args_json) in
        case lru_get L key (lru s) of
          (None, c) \<Rightarrow> (None, s\<lparr>lru := c, misses := misses s + 1\<rparr>)
        | (Some entry, c) \<Rightarrow>
            if now - inserted_at entry > ttl s
            then (None, (remove_deps_for_key L key (s\<lparr>lru := lru_pop L key c\<rparr>))\<lparr>misses := misses s + 1\<rparr>)
            else (Some (result_text entry), s\<lparr>lru := c, hits := hits s + 1\<rparr>))"

text \<open>The section of an insertion under the lock of the LRU cache; it also gives the key that the
  insertion evicts.\<close>

definition insert_put ::
  "'c lru_ops \<Rightarrow> nat \<Rightarrow> cache_key \<Rightarrow> string \<Rightarrow> 'c query_cache \<Rightarrow> cache_key option \<times> 'c query_cache" where
  "insert_put L now key res s =
     ((if lru_len L (lru s) = lru_cap L (lru s) \<and> lru_peek L key (lru s) = None
       then map_option fst (lru_peek_lru L (lru s)) else None),
      s\<lparr>lru := lru_put L key \<lparr>result_text = res, inserted_at = now\<rparr> (lru s)\<rparr>)"

definition insert_index ::
  "'c lru_ops \<Rightarrow> cache_key \<Rightarrow> int set \<Rightarrow> cache_key option \<Rightarrow> 'c query_cache \<Rightarrow> 'c query_cache" where
  "insert_index L key depends_on evicted s =
     add_deps_for_key L key depends_on (case evicted of None \<Rightarrow> s | Some k \<Rightarrow> remove_deps_for_key L k s)"

definition insert_with_deps ::
  "'c lru_ops \<Rightarrow> nat \<Rightarrow> string \<Rightarrow> string \<Rightarrow> string \<Rightarrow> int set \<Rightarrow> 'c query_cache \<Rightarrow> 'c query_cache" where
  "insert_with_deps L now query args_json res depends_on s =
     (if \<not> enabled s then s
      else let key = (query, args_json); s1 = remove_reverse_index_for_key L key s;
               (evicted, s2) = insert_put L now key res s1
           in insert_index L key depends_on evicted s2)"

definition insert_untracked :: "'c lru_ops \<Rightarrow> nat \<Rightarrow> string \<Rightarrow> string \<Rightarrow> string \<Rightarrow> 'c query_cache \<Rightarrow> 'c query_cache" where
  "insert_untracked L now query args_json res s = insert_with_deps L now query args_json res {} s"

text \<open>Invalidation: the keys to remove are read from the reverse index; then the entries go, then the
  dependencies and their index.\<close>

definition bucket :: "int \<Rightarrow> (int \<rightharpoonup> cache_key set) \<Rightarrow> cache_key set" where
  "bucket e idx = (case idx e of None \<Rightarrow> {} | Some s \<Rightarrow> s)"

definition collect_keys :: "int list \<Rightarrow> 'c query_cache \<Rightarrow> cache_key set" where
  "collect_keys entity_ids s =
     foldl (\<lambda>K e. K \<union> bucket e (entity_to_keys s)) (bucket UNTRACKED_SENTINEL (entity_to_keys s)) entity_ids"

definition pop_keys :: "'c lru_ops \<Rightarrow> cache_key set \<Rightarrow> 'c query_cache \<Rightarrow> 'c query_cache" where
  "pop_keys L K s = s\<lparr>lru := foldl (\<lambda>c k. lru_pop L k c) (lru s) (key_order L K)\<rparr>"

definition unlink_key :: "cache_key \<Rightarrow> int \<Rightarrow> (int \<rightharpoonup> cache_key set) \<Rightarrow> (int \<rightharpoonup> cache_key set)" where
  "unlink_key key e idx = (case idx e of None \<Rightarrow> idx | Some s \<Rightarrow> idx(e \<mapsto> s - {key}))"

definition unindex_key ::
  "'c lru_ops \<Rightarrow> (cache_key \<rightharpoonup> int set) \<times> (int \<rightharpoonup> cache_key set) \<Rightarrow> cache_key \<Rightarrow> (cache_key \<rightharpoonup> int set) \<times> (int \<rightharpoonup> cache_key set)" where
  "unindex_key L m key = (case m of (deps, idx) \<Rightarrow>
     (case deps key of
        None \<Rightarrow> (deps, idx)
      | Some dep_entities \<Rightarrow> (deps(key := None),
          if dep_entities = {} then unlink_key key UNTRACKED_SENTINEL idx
          else foldl (\<lambda>idx e. unlink_key key e idx) idx (id_order L dep_entities))))"

definition unindex_keys :: "'c lru_ops \<Rightarrow> cache_key set \<Rightarrow> 'c query_cache \<Rightarrow> 'c query_cache" where
  "unindex_keys L K s =
     (case foldl (unindex_key L) (dependencies s, entity_to_keys s) (key_order L K) of (deps, idx) \<Rightarrow>
        s\<lparr>dependencies := deps,
          entity_to_keys := (\<lambda>e. case idx e of Some b \<Rightarrow> if b = {} then None else Some b | None \<Rightarrow> None)\<rparr>)"

definition invalidate_entities :: "'c lru_ops \<Rightarrow> int list \<Rightarrow> 'c query_cache \<Rightarrow> nat \<times> 'c query_cache" where
  "invalidate_entities L entity_ids s =
     (if \<not> enabled s \<or> entity_ids = [] then (0, s)
      else let K = collect_keys entity_ids s; removed = card K;
               s' = (if removed > 0 then unindex_keys L K (pop_keys L K s) else s)
           in (removed, s'\<lparr>targeted_invalidations := targeted_invalidations s' + 1\<rparr>))"

definition invalidate_all :: "'c lru_ops \<Rightarrow> 'c query_cache \<Rightarrow> 'c query_cache" where
  "invalidate_all L s =
     s\<lparr>lru := lru_clear L (lru s), dependencies := Map.empty, entity_to_keys := Map.empty,
       full_invalidations := full_invalidations s + 1\<rparr>"

definition cache_len :: "'c lru_ops \<Rightarrow> 'c query_cache \<Rightarrow> nat" where
  "cache_len L s = lru_len L (lru s)"

section \<open>The index that the dependencies determine\<close>

definition targets :: "int set \<Rightarrow> int set" where
  "targets D = (if D = {} then {UNTRACKED_SENTINEL} else D)"

definition nonempty :: "'a set \<Rightarrow> 'a set option" where
  "nonempty S = (if S = {} then None else Some S)"

definition dependents :: "(cache_key \<rightharpoonup> int set) \<Rightarrow> int \<Rightarrow> cache_key set" where
  "dependents deps e = {k. \<exists>D. deps k = Some D \<and> e \<in> targets D}"

definition index_of :: "(cache_key \<rightharpoonup> int set) \<Rightarrow> (int \<rightharpoonup> cache_key set)" where
  "index_of deps e = nonempty (dependents deps e)"

definition cache_inv :: "'c lru_ops \<Rightarrow> 'c query_cache \<Rightarrow> bool" where
  "cache_inv L s \<longleftrightarrow> lru_valid L (lru s) \<and> dom (dependencies s) = fst ` set (lru_iter L (lru s))
     \<and> entity_to_keys s = index_of (dependencies s) \<and> (\<forall>D\<in>ran (dependencies s). finite D)"

lemma bucket_index_of [simp]: "bucket e (index_of deps) = dependents deps e"
  by (simp add: bucket_def index_of_def nonempty_def)

definition prune :: "cache_key \<Rightarrow> cache_key set option \<Rightarrow> cache_key set option" where
  "prune k b = (case b of None \<Rightarrow> None | Some s \<Rightarrow> nonempty (s - {k}))"

definition settle :: "cache_key set option \<Rightarrow> cache_key set option" where
  "settle b = (case b of None \<Rightarrow> None | Some s \<Rightarrow> nonempty s)"

lemma prune_idem [simp]: "prune k (prune k b) = prune k b"
  by (auto simp: prune_def nonempty_def split: option.splits)

lemma settle_unlink: "settle (map_option (\<lambda>s. s - {k}) b) = prune k (settle b)"
  by (auto simp: settle_def prune_def nonempty_def split: option.splits)

lemma drop_key_eq: "drop_key k e idx = idx(e := prune k (idx e))"
  by (auto simp: drop_key_def prune_def nonempty_def Let_def fun_eq_iff split: option.splits)

lemma unlink_key_eq: "unlink_key k e idx = idx(e := map_option (\<lambda>s. s - {k}) (idx e))"
  by (auto simp: unlink_key_def fun_eq_iff split: option.splits)

lemma put_key_eq: "put_key k e idx = idx(e \<mapsto> insert k (bucket e idx))"
  by (simp add: put_key_def bucket_def)

text \<open>A loop that updates the buckets of a set of entities, each update being idempotent.\<close>

lemma foldl_pointwise:
  assumes "\<And>b. f (f b) = f b"
  shows "foldl (\<lambda>idx e. idx(e := f (idx e))) idx es = (\<lambda>e. if e \<in> set es then f (idx e) else idx e)"
proof (induction es arbitrary: idx)
  case (Cons a es)
  show ?case unfolding foldl_Cons Cons.IH by (rule ext) (simp add: assms)
qed simp

lemma id_order_set: "lru_laws L \<Longrightarrow> finite D \<Longrightarrow> set (id_order L D) = D"
  by (simp add: lru_laws_def)

lemma key_order_set: "lru_laws L \<Longrightarrow> finite K \<Longrightarrow> set (key_order L K) = K"
  by (simp add: lru_laws_def)

lemma remove_key_index:
  assumes "lru_laws L" "finite D"
  shows "remove_key_from_reverse_index L k D s =
    s\<lparr>entity_to_keys := (\<lambda>e. if e \<in> targets D then prune k (entity_to_keys s e) else entity_to_keys s e)\<rparr>"
  unfolding remove_key_from_reverse_index_def drop_key_eq foldl_pointwise [of "prune k", OF prune_idem] id_order_set [OF assms]
  by (auto simp: targets_def fun_upd_def cong: if_cong)

lemma add_deps_index:
  assumes "lru_laws L" "finite D"
  shows "add_deps_for_key L k D s = s\<lparr>dependencies := (dependencies s)(k \<mapsto> D), entity_to_keys :=
    (\<lambda>e. if e \<in> targets D then Some (insert k (bucket e (entity_to_keys s))) else entity_to_keys s e)\<rparr>"
  using foldl_pointwise [of "\<lambda>b. Some (insert k (case b of None \<Rightarrow> {} | Some s \<Rightarrow> s))" "entity_to_keys s" "id_order L D"]
  unfolding add_deps_for_key_def put_key_def bucket_def id_order_set [OF assms]
  by (auto simp: targets_def fun_upd_def cong: if_cong)

lemma index_of_remove:
  assumes "deps k = Some D"
  shows "index_of (deps(k := None)) = (\<lambda>e. if e \<in> targets D then prune k (index_of deps e) else index_of deps e)"
proof
  fix e
  have "dependents (deps(k := None)) e = dependents deps e - {k}" by (auto simp: dependents_def)
  moreover have "k \<in> dependents deps e \<longleftrightarrow> e \<in> targets D" using assms by (simp add: dependents_def)
  ultimately show "index_of (deps(k := None)) e = (if e \<in> targets D then prune k (index_of deps e) else index_of deps e)"
    by (auto simp: index_of_def prune_def nonempty_def)
qed

lemma index_of_insert:
  assumes "deps k = None"
  shows "index_of (deps(k \<mapsto> D)) =
    (\<lambda>e. if e \<in> targets D then Some (insert k (bucket e (index_of deps))) else index_of deps e)"
proof
  fix e
  have "dependents (deps(k \<mapsto> D)) e = dependents deps e \<union> (if e \<in> targets D then {k} else {})"
    using assms by (auto simp: dependents_def)
  then show "index_of (deps(k \<mapsto> D)) e =
      (if e \<in> targets D then Some (insert k (bucket e (index_of deps))) else index_of deps e)"
    by (simp add: index_of_def nonempty_def bucket_def)
qed

lemma index_of_absent: "deps k = None \<Longrightarrow> index_of (deps(k := None)) = index_of deps"
  by (simp add: fun_upd_idem)

section \<open>Operations keep the invariant\<close>

lemma lru_valid_laws:
  assumes "lru_laws L" "lru_valid L c"
  shows "distinct (map fst (lru_iter L c))" "length (lru_iter L c) \<le> lru_cap L c" "0 < lru_cap L c"
    "lru_len L c = length (lru_iter L c)" "lru_peek L k c = map_of (lru_iter L c) k"
    "lru_peek_lru L c = (if lru_iter L c = [] then None else Some (last (lru_iter L c)))"
  using assms by (cases k, simp add: lru_laws_def)+

lemma lru_get_laws:
  assumes "lru_laws L" "lru_valid L c"
  obtains c' where "lru_get L k c = (map_of (lru_iter L c) k, c')" "lru_valid L c'"
    "lru_iter L c' = to_front k (lru_iter L c)" "lru_cap L c' = lru_cap L c"
proof -
  have "\<exists>c'. lru_get L k c = (map_of (lru_iter L c) k, c') \<and> lru_valid L c'
      \<and> lru_iter L c' = to_front k (lru_iter L c) \<and> lru_cap L c' = lru_cap L c"
    using assms by (cases k, simp add: lru_laws_def)
  then show ?thesis using that by (elim exE conjE)
qed

lemma lru_update_laws:
  assumes "lru_laws L" "lru_valid L c"
  shows "lru_valid L (lru_pop L k c)" "lru_iter L (lru_pop L k c) = without k (lru_iter L c)" "lru_cap L (lru_pop L k c) = lru_cap L c"
    "lru_valid L (lru_put L k v c)" "lru_cap L (lru_put L k v c) = lru_cap L c"
    "lru_iter L (lru_put L k v c) = take (lru_cap L c) ((k, v) # without k (lru_iter L c))"
    "lru_valid L (lru_clear L c)" "lru_iter L (lru_clear L c) = []" "lru_cap L (lru_clear L c) = lru_cap L c"
  using assms by (cases k, simp add: lru_laws_def)+

lemma set_without: "set (without k xs) = {p \<in> set xs. fst p \<noteq> k}"
  by (simp add: without_def)

lemma keys_without: "fst ` set (without k xs) = fst ` set xs - {k}"
  by (auto simp: set_without)

lemma keys_to_front: "fst ` set (to_front k xs) = fst ` set xs"
proof (cases "map_of xs k")
  case (Some v)
  then have "k \<in> fst ` set xs" by (metis image_eqI fst_conv map_of_SomeD)
  then show ?thesis using Some by (auto simp: to_front_def keys_without)
qed (simp add: to_front_def)

lemma remove_deps_eq:
  assumes "lru_laws L" "\<forall>D\<in>ran (dependencies s). finite D"
    and idx: "entity_to_keys s = index_of (dependencies s)"
  shows "remove_deps_for_key L k s =
    s\<lparr>dependencies := (dependencies s)(k := None), entity_to_keys := index_of ((dependencies s)(k := None))\<rparr>"
proof (cases "dependencies s k")
  case None
  then show ?thesis using idx by (simp add: remove_deps_for_key_def index_of_absent)
next
  case (Some D)
  then have "finite D" using assms(2) by (blast intro: ranI)
  then show ?thesis using Some idx index_of_remove [of "dependencies s", OF Some]
    by (simp add: remove_deps_for_key_def Let_def remove_key_index [OF assms(1)] cong: if_cong)
qed

lemma remove_reverse_eq:
  assumes "lru_laws L" "\<forall>D\<in>ran (dependencies s). finite D" "entity_to_keys s = index_of (dependencies s)"
  shows "remove_reverse_index_for_key L k s = s\<lparr>entity_to_keys := index_of ((dependencies s)(k := None))\<rparr>"
proof (cases "dependencies s k")
  case None
  then show ?thesis using assms(3) by (simp add: remove_reverse_index_for_key_def index_of_absent)
next
  case (Some D)
  then have "finite D" using assms(2) by (blast intro: ranI)
  then show ?thesis using Some assms(3) index_of_remove [of "dependencies s", OF Some]
    by (simp add: remove_reverse_index_for_key_def remove_key_index [OF assms(1)] cong: if_cong)
qed

lemma cache_invD:
  assumes "cache_inv L s"
  shows "lru_valid L (lru s)" "dom (dependencies s) = fst ` set (lru_iter L (lru s))"
    "entity_to_keys s = index_of (dependencies s)" "\<forall>D\<in>ran (dependencies s). finite D"
  using assms by (simp_all add: cache_inv_def)

lemma finite_ran_upd:
  "\<forall>D\<in>ran m. finite D \<Longrightarrow> \<forall>D\<in>ran (m(k := None)). finite D"
  "\<forall>D\<in>ran m. finite D \<Longrightarrow> finite E \<Longrightarrow> \<forall>D\<in>ran (m(k \<mapsto> E)). finite D"
  by (auto simp: ran_def)

lemma new_cache_inv: "lru_laws L \<Longrightarrow> cache_inv L (new_cache L n life)"
  by (simp add: lru_laws_def cache_inv_def new_cache_def index_of_def dependents_def nonempty_def fun_eq_iff)

lemma get_cached_cases:
  assumes "lru_laws L" "cache_inv L s" "enabled s"
  obtains (miss) c where "map_of (lru_iter L (lru s)) (q, a) = None" "lru_valid L c" "lru_iter L c = lru_iter L (lru s)"
      "lru_cap L c = lru_cap L (lru s)" "get_cached L t q a s = (None, s\<lparr>lru := c, misses := misses s + 1\<rparr>)"
    | (expired) c entry where "map_of (lru_iter L (lru s)) (q, a) = Some entry" "t - inserted_at entry > ttl s" "lru_valid L c"
      "lru_iter L c = without (q, a) (lru_iter L (lru s))" "lru_cap L c = lru_cap L (lru s)"
      "get_cached L t q a s = (None, s\<lparr>lru := c, dependencies := (dependencies s)((q, a) := None),
         entity_to_keys := index_of ((dependencies s)((q, a) := None)), misses := misses s + 1\<rparr>)"
    | (hit) c entry where "map_of (lru_iter L (lru s)) (q, a) = Some entry" "\<not> t - inserted_at entry > ttl s" "lru_valid L c"
      "lru_iter L c = to_front (q, a) (lru_iter L (lru s))" "lru_cap L c = lru_cap L (lru s)"
      "get_cached L t q a s = (Some (result_text entry), s\<lparr>lru := c, hits := hits s + 1\<rparr>)"
proof -
  note inv = cache_invD [OF assms(2)]
  obtain c where c: "lru_get L (q, a) (lru s) = (map_of (lru_iter L (lru s)) (q, a), c)" "lru_valid L c"
      "lru_iter L c = to_front (q, a) (lru_iter L (lru s))" "lru_cap L c = lru_cap L (lru s)"
    by (rule lru_get_laws [OF assms(1) inv(1)])
  show ?thesis
  proof (cases "map_of (lru_iter L (lru s)) (q, a)")
    case None
    then show ?thesis using c assms(3) by (intro miss [of c]) (simp_all add: get_cached_def to_front_def)
  next
    case (Some entry)
    show ?thesis
    proof (cases "t - inserted_at entry > ttl s")
      case True
      have "without (q, a) (to_front (q, a) (lru_iter L (lru s))) = without (q, a) (lru_iter L (lru s))"
        by (auto simp: to_front_def without_def split: option.splits)
      then show ?thesis using True Some c assms(3) lru_update_laws(1-3) [OF assms(1) c(2)] inv(3,4)
        by (intro expired [of entry "lru_pop L (q, a) c"]) (simp_all add: get_cached_def Let_def remove_deps_eq [OF assms(1)])
    next
      case False
      then show ?thesis using Some c assms(3) by (intro hit [of entry c]) (simp_all add: get_cached_def)
    qed
  qed
qed

lemma get_cached_inv:
  assumes "lru_laws L" "cache_inv L s"
  shows "cache_inv L (snd (get_cached L t q a s))"
proof (cases "enabled s")
  case True
  note inv = cache_invD [OF assms(2)]
  show ?thesis
  proof (rule get_cached_cases [OF assms True, of q a t])
    fix c entry assume c: "lru_valid L c" "lru_iter L c = without (q, a) (lru_iter L (lru s))"
      "get_cached L t q a s = (None, s\<lparr>lru := c, dependencies := (dependencies s)((q, a) := None),
         entity_to_keys := index_of ((dependencies s)((q, a) := None)), misses := misses s + 1\<rparr>)"
    then show ?thesis
      unfolding c(3) cache_inv_def using finite_ran_upd(1) [OF inv(4)] inv(2) by (simp add: keys_without)
  qed (use inv in \<open>simp_all add: cache_inv_def keys_to_front\<close>)
qed (use assms in \<open>simp add: get_cached_def\<close>)

text \<open>What an insertion evicts.\<close>

lemma take_evict:
  assumes "distinct (map fst xs)" "length xs \<le> n" "0 < n"
  shows "take n ((k, v) # without k xs) =
    (k, v) # (if length xs = n \<and> map_of xs k = None then butlast xs else without k xs)"
proof (cases "map_of xs k = None")
  case True
  then have "without k xs = xs" by (auto simp: without_def map_of_eq_None_iff filter_id_conv)
  then show ?thesis using assms(2,3) True by (cases n) (auto simp: butlast_conv_take)
next
  case False
  then obtain w where "(k, w) \<in> set xs" by (auto dest: map_of_SomeD)
  then have "length (without k xs) < length xs" unfolding without_def by (intro length_filter_less) auto
  then have "take n ((k, v) # without k xs) = (k, v) # without k xs" using assms(2) by simp
  then show ?thesis using False by auto
qed

lemma keys_butlast:
  assumes "distinct (map fst xs)" "xs \<noteq> []"
  shows "fst ` set (butlast xs) = fst ` set xs - {fst (last xs)}"
proof -
  obtain ys y where "xs = ys @ [y]" using assms(2) by (metis rev_exhaust)
  then show ?thesis using assms(1) by auto
qed

text \<open>After an insertion the entry is the most recent one, the least recent one is gone if the cache was
  full, and the dependencies of exactly the remaining entries are kept.\<close>

lemma insert_with_deps_eq:
  assumes "lru_laws L" "cache_inv L s" "enabled s" "finite D"
  obtains c where "insert_with_deps L t q a res D s =
      s\<lparr>lru := c, dependencies := (dependencies s |` (fst ` set (lru_iter L c)))((q, a) \<mapsto> D),
        entity_to_keys := index_of ((dependencies s |` (fst ` set (lru_iter L c)))((q, a) \<mapsto> D))\<rparr>"
    "lru_valid L c" "lru_cap L c = lru_cap L (lru s)"
    "lru_iter L c = take (lru_cap L (lru s)) (((q, a), \<lparr>result_text = res, inserted_at = t\<rparr>) # without (q, a) (lru_iter L (lru s)))"
proof -
  let ?k = "(q, a)" and ?v = "\<lparr>result_text = res, inserted_at = t\<rparr>" and ?d = "dependencies s" and ?xs = "lru_iter L (lru s)"
  define c where "c = lru_put L ?k ?v (lru s)"
  note inv = cache_invD [OF assms(2)]
  note laws = lru_valid_laws [OF assms(1) inv(1)]
  have c: "lru_valid L c" "lru_cap L c = lru_cap L (lru s)" "lru_iter L c = take (lru_cap L (lru s)) ((?k, ?v) # without ?k ?xs)"
    unfolding c_def using lru_update_laws [OF assms(1) inv(1)] by blast+
  have iter: "lru_iter L c = (?k, ?v) # (if length ?xs = lru_cap L (lru s) \<and> map_of ?xs ?k = None then butlast ?xs else without ?k ?xs)"
    unfolding c(3) by (rule take_evict [OF laws(1-3)])
  have s1: "remove_reverse_index_for_key L ?k s = s\<lparr>entity_to_keys := index_of (?d(?k := None))\<rparr>"
    by (rule remove_reverse_eq [OF assms(1) inv(4,3)])
  have restrict: "?d |` K = ?d" if "dom ?d \<subseteq> K" for K
    using that by (intro ext) (metis domIff restrict_in restrict_out subsetD)
  have absent: "index_of (m(?k \<mapsto> D)) = (\<lambda>e. if e \<in> targets D then Some (insert ?k (bucket e (index_of (m(?k := None)))))
      else index_of (m(?k := None)) e)" for m
    using index_of_insert [of "m(?k := None)" ?k D] by simp
  show ?thesis
  proof (cases "length ?xs = lru_cap L (lru s) \<and> map_of ?xs ?k = None")
    case True
    then have ne: "?xs \<noteq> []" using laws(3) by auto
    let ?old = "fst (last ?xs)"
    have new: "?d ?k = None" using True inv(2) by (metis domIff map_of_eq_None_iff)
    have keys: "fst ` set (lru_iter L c) = insert ?k (dom ?d - {?old})"
      using True iter keys_butlast [OF laws(1) ne] inv(2) by simp
    have d: "(?d |` (fst ` set (lru_iter L c))) = ?d(?old := None)"
      unfolding keys using new by (intro ext) (auto simp: restrict_map_def domIff)
    have upd: "?d(?k := None) = ?d" using new by (simp add: fun_upd_idem)
    have same: "remove_reverse_index_for_key L ?k s = s" unfolding s1 upd using inv(3) by (cases s) simp
    have old_new: "(?d(?old := None)) ?k = None" using new by simp
    have "insert_with_deps L t q a res D s = add_deps_for_key L ?k D (remove_deps_for_key L ?old (s\<lparr>lru := c\<rparr>))"
      using assms(3) same True ne laws
      by (simp add: insert_with_deps_def Let_def insert_put_def insert_index_def c_def [symmetric])
    also have "remove_deps_for_key L ?old (s\<lparr>lru := c\<rparr>) =
        s\<lparr>lru := c, dependencies := ?d(?old := None), entity_to_keys := index_of (?d(?old := None))\<rparr>"
      using remove_deps_eq [OF assms(1), of "s\<lparr>lru := c\<rparr>" ?old] inv(3,4) by simp
    finally show ?thesis
      using that [of c] c d index_of_insert [of "?d(?old := None)" ?k D, OF old_new]
      by (simp add: add_deps_index [OF assms(1,4)] cong: if_cong)
  next
    case False
    have keys: "fst ` set (lru_iter L c) = insert ?k (dom ?d)"
      using False iter keys_without [of ?k ?xs] inv(2) by auto
    have d: "?d |` (fst ` set (lru_iter L c)) = ?d" unfolding keys by (rule restrict) auto
    have "insert_with_deps L t q a res D s = add_deps_for_key L ?k D (s\<lparr>entity_to_keys := index_of (?d(?k := None)), lru := c\<rparr>)"
      using assms(3) s1 False laws by (auto simp: insert_with_deps_def Let_def insert_put_def insert_index_def c_def [symmetric])
    then show ?thesis
      using that [of c] c d absent [of ?d] by (simp add: add_deps_index [OF assms(1,4)] cong: if_cong)
  qed
qed

lemma insert_with_deps_inv:
  assumes "lru_laws L" "cache_inv L s" "finite D"
  shows "cache_inv L (insert_with_deps L t q a res D s)"
proof (cases "enabled s")
  case True
  show ?thesis
  proof (rule insert_with_deps_eq [OF assms(1,2) True assms(3), of t q a res])
    fix c assume c: "insert_with_deps L t q a res D s = s\<lparr>lru := c,
        dependencies := (dependencies s |` (fst ` set (lru_iter L c)))((q, a) \<mapsto> D),
        entity_to_keys := index_of ((dependencies s |` (fst ` set (lru_iter L c)))((q, a) \<mapsto> D))\<rparr>" "lru_valid L c"
      "lru_cap L c = lru_cap L (lru s)"
      "lru_iter L c = take (lru_cap L (lru s)) (((q, a), \<lparr>result_text = res, inserted_at = t\<rparr>) # without (q, a) (lru_iter L (lru s)))"
    note inv = cache_invD [OF assms(2)]
    have pos: "0 < lru_cap L (lru s)" using lru_valid_laws(3) [OF assms(1) inv(1)] .
    have "set (lru_iter L c) \<subseteq> set (((q, a), \<lparr>result_text = res, inserted_at = t\<rparr>) # without (q, a) (lru_iter L (lru s)))"
      unfolding c(4) by (rule set_take_subset)
    then have "fst ` set (lru_iter L c) \<subseteq> insert (q, a) (dom (dependencies s))"
      using inv(2) by (auto simp: set_without)
    moreover have "(q, a) \<in> fst ` set (lru_iter L c)" using pos unfolding c(4) by (cases "lru_cap L (lru s)") auto
    ultimately have "insert (q, a) (dom (dependencies s) \<inter> fst ` set (lru_iter L c)) = fst ` set (lru_iter L c)" by blast
    moreover have "\<forall>E\<in>ran ((dependencies s |` (fst ` set (lru_iter L c)))((q, a) \<mapsto> D)). finite E"
      using inv(4) assms(3) by (auto simp: ran_def restrict_map_def split: if_splits)
    ultimately show ?thesis unfolding c(1) using c(2) by (simp add: cache_inv_def)
  qed
qed (use assms in \<open>simp add: insert_with_deps_def\<close>)

section \<open>Invalidation\<close>

lemma pop_list:
  assumes "lru_laws L" "lru_valid L c"
  shows "lru_valid L (foldl (\<lambda>c k. lru_pop L k c) c ks) \<and> lru_cap L (foldl (\<lambda>c k. lru_pop L k c) c ks) = lru_cap L c
    \<and> lru_iter L (foldl (\<lambda>c k. lru_pop L k c) c ks) = filter (\<lambda>p. fst p \<notin> set ks) (lru_iter L c)"
  using assms(2)
proof (induction ks arbitrary: c)
  case (Cons k ks)
  have "filter (\<lambda>p. fst p \<notin> set ks) (without k (lru_iter L c)) = filter (\<lambda>p. fst p \<notin> set (k # ks)) (lru_iter L c)"
    unfolding without_def filter_filter by (rule filter_cong) auto
  then show ?case using Cons.IH [of "lru_pop L k c"] lru_update_laws(1-3) [OF assms(1) Cons.prems] by simp
qed simp

definition index_rel :: "(cache_key \<rightharpoonup> int set) \<times> (int \<rightharpoonup> cache_key set) \<Rightarrow> bool" where
  "index_rel m \<longleftrightarrow> (\<lambda>e. settle (snd m e)) = index_of (fst m) \<and> (\<forall>D\<in>ran (fst m). finite D)"

lemma unindex_key_rel:
  assumes "lru_laws L" "index_rel m"
  shows "fst (unindex_key L m k) = (fst m)(k := None) \<and> index_rel (unindex_key L m k)"
proof -
  obtain deps idx where m: "m = (deps, idx)" by (cases m)
  show ?thesis
  proof (cases "deps k")
    case None
    then show ?thesis using assms(2) by (simp add: m unindex_key_def fun_upd_idem)
  next
    case (Some D)
    then have "finite D" using assms(2) by (auto simp: m index_rel_def intro: ranI)
    then have step: "unindex_key L m k = (deps(k := None), \<lambda>e. if e \<in> targets D then map_option (\<lambda>s. s - {k}) (idx e) else idx e)"
      using Some foldl_pointwise [of "map_option (\<lambda>s. s - {k})" idx "id_order L D"] id_order_set [OF assms(1)]
      unfolding m unindex_key_def unlink_key_eq
      by (auto simp: targets_def fun_upd_def option.map_comp comp_def cong: if_cong)
    have "(\<lambda>e. settle (if e \<in> targets D then map_option (\<lambda>s. s - {k}) (idx e) else idx e)) = index_of (deps(k := None))"
      unfolding index_of_remove [of deps, OF Some] using assms(2) settle_unlink
      by (auto simp: m index_rel_def fun_eq_iff)
    moreover have "\<forall>D\<in>ran (deps(k := None)). finite D"
      by (rule finite_ran_upd(1)) (use assms(2) in \<open>simp add: m index_rel_def\<close>)
    ultimately show ?thesis unfolding step by (simp add: m index_rel_def)
  qed
qed

lemma unindex_list:
  assumes "lru_laws L" "index_rel m"
  shows "fst (foldl (unindex_key L) m ks) = fst m |` (- set ks) \<and> index_rel (foldl (unindex_key L) m ks)"
  using assms(2)
proof (induction ks arbitrary: m)
  case (Cons k ks)
  have eq: "(fst m)(k := None) |` (- set ks) = fst m |` (- set (k # ks))"
    by (intro ext) (simp add: restrict_map_def)
  have step: "fst (unindex_key L m k) = (fst m)(k := None)" "index_rel (unindex_key L m k)"
    using unindex_key_rel [OF assms(1) Cons.prems] by blast+
  from Cons.IH [OF step(2)] show ?case unfolding foldl_Cons step(1) eq .
qed (simp add: restrict_map_def)

definition affected :: "int list \<Rightarrow> int set \<Rightarrow> bool" where
  "affected entity_ids D \<longleftrightarrow> D = {} \<or> (\<exists>e\<in>set (UNTRACKED_SENTINEL # entity_ids). e \<in> D)"

definition affected_key :: "int list \<Rightarrow> 'c query_cache \<Rightarrow> cache_key \<Rightarrow> bool" where
  "affected_key entity_ids s k \<longleftrightarrow> (case dependencies s k of Some D \<Rightarrow> affected entity_ids D | None \<Rightarrow> False)"

lemma affected_targets: "affected ids D \<longleftrightarrow> (\<exists>e\<in>set (UNTRACKED_SENTINEL # ids). e \<in> targets D)"
  by (auto simp: affected_def targets_def)

lemma collect_keys_eq:
  assumes "entity_to_keys s = index_of (dependencies s)"
  shows "collect_keys entity_ids s = {k. affected_key entity_ids s k}"
proof -
  have union: "foldl (\<lambda>K e. K \<union> f e) K ids = K \<union> (\<Union>e\<in>set ids. f e)" for f :: "int \<Rightarrow> cache_key set" and K ids
    by (induction ids arbitrary: K) auto
  have "collect_keys entity_ids s = (\<Union>e\<in>set (UNTRACKED_SENTINEL # entity_ids). dependents (dependencies s) e)"
    by (simp add: collect_keys_def union assms)
  also have "\<dots> = {k. affected_key entity_ids s k}"
    by (auto simp del: set_simps simp: dependents_def affected_key_def affected_targets split: option.splits)
  finally show ?thesis .
qed

lemma settle_case: "(case b of Some c \<Rightarrow> if c = {} then None else Some c | None \<Rightarrow> None) = settle b"
  by (simp add: settle_def nonempty_def split: option.splits)

lemma unindex_keys_eq:
  assumes "lru_laws L" "entity_to_keys s = index_of (dependencies s)" "\<forall>D\<in>ran (dependencies s). finite D" "finite K"
  shows "unindex_keys L K s = s\<lparr>dependencies := dependencies s |` (- K), entity_to_keys := index_of (dependencies s |` (- K))\<rparr>"
proof -
  have "index_rel (dependencies s, entity_to_keys s)"
    using assms(2,3) by (simp add: index_rel_def fun_eq_iff index_of_def settle_def nonempty_def)
  from unindex_list [OF assms(1) this, of "key_order L K"] key_order_set [OF assms(1,4)]
  show ?thesis unfolding unindex_keys_def settle_case by (auto simp: index_rel_def split: prod.splits)
qed

lemma invalidate_entities_eq:
  assumes "lru_laws L" "cache_inv L s" "enabled s" "ids \<noteq> []"
  obtains c where "invalidate_entities L ids s =
      (length (filter (\<lambda>p. affected_key ids s (fst p)) (lru_iter L (lru s))),
       s\<lparr>lru := c, dependencies := dependencies s |` {k. \<not> affected_key ids s k},
         entity_to_keys := index_of (dependencies s |` {k. \<not> affected_key ids s k}),
         targeted_invalidations := targeted_invalidations s + 1\<rparr>)"
    "lru_valid L c" "lru_cap L c = lru_cap L (lru s)"
    "lru_iter L c = filter (\<lambda>p. \<not> affected_key ids s (fst p)) (lru_iter L (lru s))"
proof -
  let ?K = "{k. affected_key ids s k}" and ?xs = "lru_iter L (lru s)"
  note inv = cache_invD [OF assms(2)]
  have K: "?K \<subseteq> fst ` set ?xs" using inv(2) by (auto simp: affected_key_def domI split: option.splits)
  then have fin: "finite ?K" by (rule finite_subset) simp
  have "?K = fst ` set (filter (\<lambda>p. affected_key ids s (fst p)) ?xs)" using K unfolding set_filter by blast
  moreover have "distinct (map fst (filter (\<lambda>p. affected_key ids s (fst p)) ?xs))"
    using lru_valid_laws(1) [OF assms(1) inv(1)] by (rule distinct_map_filter)
  ultimately have card: "card ?K = length (filter (\<lambda>p. affected_key ids s (fst p)) ?xs)"
    by (metis distinct_card length_map list.set_map)
  have compl: "- ?K = {k. \<not> affected_key ids s k}" by auto
  have ne: "\<not> (\<not> enabled s \<or> ids = [])" using assms(3,4) by simp
  define c where "c = (if 0 < card ?K then foldl (\<lambda>c k. lru_pop L k c) (lru s) (key_order L ?K) else lru s)"
  have c: "lru_valid L c" "lru_cap L c = lru_cap L (lru s)" "lru_iter L c = filter (\<lambda>p. fst p \<notin> ?K) ?xs"
    unfolding c_def using pop_list [OF assms(1) inv(1), of "key_order L ?K"] key_order_set [OF assms(1) fin] inv(1) fin
    by (auto simp: card_gt_0_iff split_paired_all intro!: filter_True [symmetric])
  have inner: "(if 0 < card ?K then unindex_keys L ?K (pop_keys L ?K s) else s) =
      s\<lparr>lru := c, dependencies := dependencies s |` (- ?K), entity_to_keys := index_of (dependencies s |` (- ?K))\<rparr>"
  proof (cases "0 < card ?K")
    case True
    then show ?thesis using unindex_keys_eq [OF assms(1), of "pop_keys L ?K s" ?K] inv(3,4) fin
      by (simp add: pop_keys_def c_def)
  next
    case False
    then have "?K = {}" using fin unfolding card_gt_0_iff by blast
    then have "dependencies s |` (- ?K) = dependencies s"
      by (simp only: Compl_empty_eq restrict_map_def UNIV_I if_True)
    then have "s\<lparr>lru := c, dependencies := dependencies s |` (- ?K), entity_to_keys := index_of (dependencies s |` (- ?K))\<rparr>
        = s\<lparr>lru := lru s, dependencies := dependencies s, entity_to_keys := entity_to_keys s\<rparr>"
      using False inv(3) by (simp only: c_def if_False)
    then show ?thesis using False by simp
  qed
  show ?thesis
    using that [of c] c inner card ne
    unfolding invalidate_entities_def collect_keys_eq [OF inv(3)] Let_def compl by simp
qed

lemma invalidate_entities_inv:
  assumes "lru_laws L" "cache_inv L s"
  shows "cache_inv L (snd (invalidate_entities L ids s))"
proof (cases "enabled s \<and> ids \<noteq> []")
  case True
  note inv = cache_invD [OF assms(2)]
  show ?thesis
  proof (rule invalidate_entities_eq [OF assms, of ids])
    fix c assume c: "invalidate_entities L ids s =
      (length (filter (\<lambda>p. affected_key ids s (fst p)) (lru_iter L (lru s))),
       s\<lparr>lru := c, dependencies := dependencies s |` {k. \<not> affected_key ids s k},
         entity_to_keys := index_of (dependencies s |` {k. \<not> affected_key ids s k}),
         targeted_invalidations := targeted_invalidations s + 1\<rparr>)" "lru_valid L c"
      "lru_iter L c = filter (\<lambda>p. \<not> affected_key ids s (fst p)) (lru_iter L (lru s))"
    have "dom (dependencies s) \<inter> {k. \<not> affected_key ids s k} = fst ` set (lru_iter L c)"
      unfolding c(3) inv(2) by auto
    moreover have "\<forall>D\<in>ran (dependencies s |` {k. \<not> affected_key ids s k}). finite D"
      using inv(4) by (auto simp: ran_def restrict_map_def split: if_splits)
    ultimately show ?thesis unfolding c(1) using c(2) by (simp add: cache_inv_def)
  qed (use True in simp_all)
qed (use assms in \<open>auto simp: invalidate_entities_def\<close>)

lemma invalidate_all_inv:
  assumes "lru_laws L" "cache_inv L s"
  shows "cache_inv L (invalidate_all L s)"
  using lru_update_laws(7,8) [OF assms(1) cache_invD(1) [OF assms(2)]]
  by (simp add: cache_inv_def invalidate_all_def index_of_def dependents_def nonempty_def fun_eq_iff)

section \<open>Runs\<close>

datatype cache_op =
    Get string string
  | Insert string string string "int set"
  | Invalidate "int list"
  | InvalidateAll

primrec cache_step :: "'c lru_ops \<Rightarrow> nat \<Rightarrow> cache_op \<Rightarrow> 'c query_cache \<Rightarrow> 'c query_cache" where
  "cache_step L t (Get q a) s = snd (get_cached L t q a s)"
| "cache_step L t (Insert q a res D) s = insert_with_deps L t q a res D s"
| "cache_step L t (Invalidate ids) s = snd (invalidate_entities L ids s)"
| "cache_step L t InvalidateAll s = invalidate_all L s"

definition cache_run :: "'c lru_ops \<Rightarrow> (nat \<times> cache_op) list \<Rightarrow> 'c query_cache \<Rightarrow> 'c query_cache" where
  "cache_run L ops s = foldl (\<lambda>s (t, op). cache_step L t op s) s ops"

primrec op_finite :: "cache_op \<Rightarrow> bool" where
  "op_finite (Get q a) \<longleftrightarrow> True"
| "op_finite (Insert q a res D) \<longleftrightarrow> finite D"
| "op_finite (Invalidate ids) \<longleftrightarrow> True"
| "op_finite InvalidateAll \<longleftrightarrow> True"

definition same_config :: "'c lru_ops \<Rightarrow> 'c query_cache \<Rightarrow> 'c query_cache \<Rightarrow> bool" where
  "same_config L s s' \<longleftrightarrow> lru_cap L (lru s') = lru_cap L (lru s) \<and> enabled s' = enabled s \<and> ttl s' = ttl s"

lemma cache_step_config:
  assumes "lru_laws L" "cache_inv L s" "op_finite op"
  shows "same_config L s (cache_step L t op s)"
proof (cases "enabled s")
  case True
  show ?thesis
  proof (cases op)
    case (Get q a)
    show ?thesis unfolding Get by (rule get_cached_cases [OF assms(1,2) True, of q a t]) (simp_all add: same_config_def)
  next
    case (Insert q a res D)
    then have "finite D" using assms(3) by simp
    then show ?thesis unfolding Insert
      by (rule insert_with_deps_eq [OF assms(1,2) True, of D t q a res]) (simp_all add: same_config_def)
  next
    case (Invalidate ids)
    show ?thesis
    proof (cases "ids = []")
      case False
      then show ?thesis unfolding Invalidate
        by (rule invalidate_entities_eq [OF assms(1,2) True]) (simp_all add: same_config_def)
    qed (simp add: Invalidate same_config_def invalidate_entities_def)
  qed (use lru_update_laws(9) [OF assms(1) cache_invD(1) [OF assms(2)]] in \<open>simp add: same_config_def invalidate_all_def\<close>)
next
  case False
  then show ?thesis using lru_update_laws(9) [OF assms(1) cache_invD(1) [OF assms(2)]]
    by (cases op) (simp_all add: same_config_def get_cached_def insert_with_deps_def invalidate_entities_def invalidate_all_def)
qed

lemma cache_step_inv:
  assumes "lru_laws L" "cache_inv L s" "op_finite op"
  shows "cache_inv L (cache_step L t op s)"
  using assms by (cases op) (simp_all add: get_cached_inv insert_with_deps_inv invalidate_entities_inv invalidate_all_inv)

lemma cache_run_inv:
  assumes "lru_laws L" "cache_inv L s" "\<forall>(t, op)\<in>set ops. op_finite op"
  shows "cache_inv L (cache_run L ops s) \<and> same_config L s (cache_run L ops s)"
  using assms(2,3)
proof (induction ops arbitrary: s)
  case (Cons p ops)
  obtain t op where p: "p = (t, op)" by (cases p)
  have "op_finite op" using Cons.prems(2) p by simp
  then have step: "cache_inv L (cache_step L t op s)" "same_config L s (cache_step L t op s)"
    using cache_step_inv cache_step_config assms(1) Cons.prems(1) by blast+
  then show ?case using Cons.IH [OF step(1)] Cons.prems(2) by (auto simp: p cache_run_def same_config_def)
qed (simp add: cache_run_def same_config_def)

text \<open>C13. However the cache is used, its three structures stay in step: the dependencies are known for
  exactly the cached keys, the reverse index lists under an entity exactly the cached keys that
  depend on it (under the sentinel those that depend on everything) and has no empty bucket, no
  key is cached twice, and the number of entries stays within the capacity.\<close>

theorem query_cache_consistent:
  assumes "lru_laws L" "\<forall>(t, op)\<in>set ops. op_finite op" "s = cache_run L ops (new_cache L capacity life)"
  shows "dom (dependencies s) = fst ` set (lru_iter L (lru s))
    \<and> (\<forall>e. bucket e (entity_to_keys s) = {k. \<exists>D. dependencies s k = Some D \<and> e \<in> targets D})
    \<and> (\<forall>e. entity_to_keys s e \<noteq> Some {})
    \<and> distinct (map fst (lru_iter L (lru s))) \<and> length (lru_iter L (lru s)) \<le> max capacity 1"
proof -
  have run: "cache_inv L s" "same_config L (new_cache L capacity life) s"
    using cache_run_inv [OF assms(1) new_cache_inv [OF assms(1)] assms(2)] unfolding assms(3) by blast+
  note inv = cache_invD [OF run(1)]
  have "lru_cap L (lru s) = max capacity 1"
    using run(2) assms(1) by (simp add: same_config_def new_cache_def lru_laws_def)
  then show ?thesis
    using inv(2,3) lru_valid_laws(1,2) [OF assms(1) inv(1)]
    by (simp add: dependents_def) (simp add: index_of_def nonempty_def)
qed

text \<open>C14. Invalidating a list of entities removes from the cache exactly the entries whose result depends
  on one of them or on everything, keeps the others in their order of use with their
  dependencies, and returns how many it removed.\<close>

theorem invalidate_entities_exact:
  assumes "lru_laws L" "cache_inv L s" "enabled s" "ids \<noteq> []"
  shows "case invalidate_entities L ids s of (removed, s') \<Rightarrow>
    lru_iter L (lru s') = filter (\<lambda>(k, v). \<not> affected ids (the (dependencies s k))) (lru_iter L (lru s))
    \<and> removed = length (lru_iter L (lru s)) - length (lru_iter L (lru s'))
    \<and> (\<forall>k. dependencies s' k = (if k \<in> fst ` set (lru_iter L (lru s')) then dependencies s k else None))
    \<and> cache_inv L s'"
proof (rule invalidate_entities_eq [OF assms])
  fix c assume c: "invalidate_entities L ids s =
      (length (filter (\<lambda>p. affected_key ids s (fst p)) (lru_iter L (lru s))),
       s\<lparr>lru := c, dependencies := dependencies s |` {k. \<not> affected_key ids s k},
         entity_to_keys := index_of (dependencies s |` {k. \<not> affected_key ids s k}),
         targeted_invalidations := targeted_invalidations s + 1\<rparr>)"
    "lru_iter L c = filter (\<lambda>p. \<not> affected_key ids s (fst p)) (lru_iter L (lru s))"
  note inv = cache_invD [OF assms(2)]
  have key: "affected_key ids s (fst p) \<longleftrightarrow> affected ids (the (dependencies s (fst p)))" if "p \<in> set (lru_iter L (lru s))" for p
  proof -
    have "fst p \<in> dom (dependencies s)" using that inv(2) by simp
    then show ?thesis by (auto simp: affected_key_def)
  qed
  have "filter (\<lambda>p. \<not> affected_key ids s (fst p)) (lru_iter L (lru s))
      = filter (\<lambda>(k, v). \<not> affected ids (the (dependencies s k))) (lru_iter L (lru s))"
    using key by (intro filter_cong) (auto split: prod.splits)
  moreover have "length (filter (\<lambda>p. affected_key ids s (fst p)) (lru_iter L (lru s)))
      = length (lru_iter L (lru s)) - length (lru_iter L c)"
    unfolding c(2) by (metis add_diff_cancel_right' sum_length_filter_compl)
  moreover have "(dependencies s |` {k. \<not> affected_key ids s k}) k = (if k \<in> fst ` set (lru_iter L c) then dependencies s k else None)" for k
  proof (cases "k \<in> dom (dependencies s)")
    case True
    then have "k \<in> fst ` set (lru_iter L c) \<longleftrightarrow> \<not> affected_key ids s k" unfolding inv(2) c(2) by auto
    then show ?thesis by (simp add: restrict_map_def)
  next
    case False
    then have "k \<notin> fst ` set (lru_iter L c)" unfolding inv(2) c(2) by auto
    then show ?thesis using False by (simp add: restrict_map_def domIff)
  qed
  moreover have "cache_inv L (snd (invalidate_entities L ids s))" by (rule invalidate_entities_inv [OF assms(1,2)])
  ultimately show ?thesis unfolding c(1) using c(2) by simp
qed

section \<open>An invalidation between the sections of an insertion\<close>

lemma index_keys_finite:
  assumes "entity_to_keys s = index_of deps" "finite (dom deps)"
  shows "finite (collect_keys ids s)" "\<And>k. k \<in> collect_keys ids s \<Longrightarrow> k \<in> dom deps"
proof -
  have "foldl (\<lambda>K e. K \<union> f e) K ids = K \<union> (\<Union>e\<in>set ids. f e)" for f :: "int \<Rightarrow> cache_key set" and K
    by (induction ids arbitrary: K) auto
  then have sub: "collect_keys ids s \<subseteq> dom deps"
    by (auto simp: collect_keys_def assms(1) dependents_def)
  show "finite (collect_keys ids s)" using sub assms(2) by (rule finite_subset)
  show "\<And>k. k \<in> collect_keys ids s \<Longrightarrow> k \<in> dom deps" using sub by blast
qed

lemma lru_unindex [simp]:
  "lru (unindex_keys L K s) = lru s" "enabled (unindex_keys L K s) = enabled s" "ttl (unindex_keys L K s) = ttl s"
  by (simp_all add: unindex_keys_def split: prod.splits)

lemma lru_remove_deps [simp]:
  "lru (remove_deps_for_key L k s) = lru s" "enabled (remove_deps_for_key L k s) = enabled s" "ttl (remove_deps_for_key L k s) = ttl s"
  by (simp_all add: remove_deps_for_key_def remove_key_from_reverse_index_def Let_def split: option.splits)

lemma lru_insert_index [simp]:
  "lru (insert_index L k D ev s) = lru s" "enabled (insert_index L k D ev s) = enabled s" "ttl (insert_index L k D ev s) = ttl s"
  by (simp_all add: insert_index_def add_deps_for_key_def split: option.splits)

lemma get_cached_hit:
  assumes "lru_laws L" "lru_valid L (lru s)" "enabled s" "map_of (lru_iter L (lru s)) (q, a) = Some v" "t - inserted_at v \<le> ttl s"
  shows "fst (get_cached L t q a s) = Some (result_text v)"
  by (rule lru_get_laws [OF assms(1,2), of "(q, a)"]) (use assms(3-5) in \<open>simp add: get_cached_def\<close>)

text \<open>C32. The sections of an insertion and an invalidation can interleave so that a result that was
  computed and stored before the invalidation survives it: an invalidation of any entities that
  runs after the entry is put and before its dependencies are recorded does not see the entry,
  and the next lookup returns it.  Run one after the other, the invalidation removes the entry.\<close>

theorem invalidation_race:
  assumes "lru_laws L" "cache_inv L s" "enabled s" "finite D"
    and put: "insert_put L t (q, a) res (remove_reverse_index_for_key L (q, a) s) = (evicted, s1)"
    and inval: "invalidate_entities L ids s1 = (n, s2)"
  shows "fst (get_cached L t q a (insert_index L (q, a) D evicted s2)) = Some res
    \<and> (ids \<noteq> [] \<longrightarrow> affected ids D \<longrightarrow>
        fst (get_cached L t q a (snd (invalidate_entities L ids (insert_with_deps L t q a res D s)))) = None)"
proof
  let ?k = "(q, a)" and ?v = "\<lparr>result_text = res, inserted_at = t\<rparr>" and ?d = "(dependencies s)((q, a) := None)"
  note inv = cache_invD [OF assms(2)]
  have s1: "s1 = s\<lparr>entity_to_keys := index_of ?d, lru := lru_put L ?k ?v (lru s)\<rparr>"
    using put unfolding insert_put_def remove_reverse_eq [OF assms(1) inv(4,3)] by simp
  have "0 < lru_cap L (lru s)" by (rule lru_valid_laws(3) [OF assms(1) inv(1)])
  then have stored: "lru_valid L (lru s1)" "map_of (lru_iter L (lru s1)) ?k = Some ?v"
    using lru_update_laws(4,6) [OF assms(1) inv(1), of ?k ?v] s1 by (cases "lru_cap L (lru s)"; simp)+
  have "finite (dom ?d)" using inv(2) by simp
  then have K: "finite (collect_keys ids s1)" "?k \<notin> collect_keys ids s1"
    using index_keys_finite [where s = s1 and deps = ?d and ids = ids] s1 by auto
  define K where "K = collect_keys ids s1"
  note K = K [folded K_def]
  have kept: "map_of (filter (\<lambda>p. fst p \<notin> K) xs) ?k = map_of xs ?k" for xs :: "(cache_key \<times> cache_entry) list"
    using K(2) by (induction xs) auto
  have "lru_valid L (lru (pop_keys L K s1))" "lru_iter L (lru (pop_keys L K s1)) = filter (\<lambda>p. fst p \<notin> K) (lru_iter L (lru s1))"
    using pop_list [OF assms(1) stored(1), of "key_order L K"] by (simp_all add: pop_keys_def key_order_set [OF assms(1) K(1)])
  then have popped: "lru_valid L (lru (pop_keys L K s1))" "map_of (lru_iter L (lru (pop_keys L K s1))) ?k = Some ?v"
    using kept stored(2) by simp_all
  have config: "enabled s1" "ttl s1 = ttl s" "enabled (pop_keys L K s1)" "ttl (pop_keys L K s1) = ttl s"
    using assms(3) s1 by (simp_all add: pop_keys_def)
  have "lru_valid L (lru s2) \<and> map_of (lru_iter L (lru s2)) ?k = Some ?v \<and> enabled s2 \<and> ttl s2 = ttl s"
    using inval stored popped config
    by (auto simp: invalidate_entities_def Let_def K_def [symmetric] split: if_splits)
  then show "fst (get_cached L t q a (insert_index L ?k D evicted s2)) = Some res"
    using get_cached_hit [OF assms(1), of "insert_index L ?k D evicted s2" q a ?v t] by simp
  show "ids \<noteq> [] \<longrightarrow> affected ids D \<longrightarrow>
      fst (get_cached L t q a (snd (invalidate_entities L ids (insert_with_deps L t q a res D s)))) = None"
  proof (intro impI)
    assume ids: "ids \<noteq> []" "affected ids D"
    define u where "u = insert_with_deps L t q a res D s"
    have u: "cache_inv L u" unfolding u_def by (rule insert_with_deps_inv [OF assms(1,2,4)])
    have ku: "affected_key ids u ?k" "enabled u" unfolding u_def
      by (rule insert_with_deps_eq [OF assms(1,2,3,4), of t q a res], simp add: affected_key_def ids assms(3))+
    define w where "w = snd (invalidate_entities L ids u)"
    have w: "cache_inv L w" unfolding w_def by (rule invalidate_entities_inv [OF assms(1) u])
    have wk: "map_of (lru_iter L (lru w)) ?k = None" "enabled w" unfolding w_def
      by (rule invalidate_entities_eq [OF assms(1) u ku(2) ids(1)], use ku in \<open>auto simp: map_of_eq_None_iff\<close>)+
    show "fst (get_cached L t q a w) = None"
      by (rule get_cached_cases [OF assms(1) w wk(2), of q a t]) (use wk in simp_all)
  qed
qed

section \<open>The example\<close>

text \<open>A list of entries with a capacity.\<close>

definition list_lru :: "(nat \<times> (cache_key \<times> cache_entry) list) lru_ops" where
  "list_lru = \<lparr>lru_valid = \<lambda>(n, xs). 0 < n \<and> distinct (map fst xs) \<and> length xs \<le> n, lru_iter = snd, lru_new = \<lambda>n. (n, []),
     lru_cap = fst, lru_len = \<lambda>c. length (snd c), lru_get = \<lambda>k (n, xs). (map_of xs k, (n, to_front k xs)),
     lru_peek = \<lambda>k (n, xs). map_of xs k, lru_peek_lru = \<lambda>(n, xs). if xs = [] then None else Some (last xs),
     lru_put = \<lambda>k v (n, xs). (n, take n ((k, v) # without k xs)), lru_pop = \<lambda>k (n, xs). (n, without k xs),
     lru_clear = \<lambda>(n, xs). (n, []), key_order = sorted_list_of_set, id_order = sorted_list_of_set\<rparr>"

lemma without_laws:
  "distinct (map fst xs) \<Longrightarrow> distinct (map fst (without k xs))" "length (without k xs) \<le> length xs" "k \<notin> fst ` set (without k xs)"
  by (auto simp: without_def distinct_map_filter)

lemma length_to_front:
  assumes "distinct (map fst xs)"
  shows "length (to_front k xs) \<le> length xs"
proof (cases "map_of xs k")
  case (Some v)
  then have "(k, v) \<in> set xs" by (rule map_of_SomeD)
  then have "length (without k xs) < length xs" unfolding without_def by (intro length_filter_less) auto
  then show ?thesis using Some by (simp add: to_front_def)
qed (simp add: to_front_def)

lemma distinct_to_front: "distinct (map fst xs) \<Longrightarrow> distinct (map fst (to_front k xs))"
  using without_laws(1) [of xs k] without_laws(3) [of k xs] by (auto simp: to_front_def split: option.splits)

lemma distinct_take: "distinct (map f xs) \<Longrightarrow> distinct (map f (take n xs))"
  by (simp add: take_map [symmetric])

lemma list_lru_laws: "lru_laws list_lru"
proof -
  have "distinct (map fst (take n ((k, v) # without k xs)))" if "distinct (map fst xs)" for n k v and xs :: "(cache_key \<times> cache_entry) list"
    using without_laws(1) [of xs k] without_laws(3) [of k xs] that by (intro distinct_take) auto
  then show ?thesis
    unfolding lru_laws_def
    by (auto simp: list_lru_def without_laws(1) distinct_to_front intro: order_trans [OF without_laws(2)] order_trans [OF length_to_front])
qed

definition sample_ops :: "(nat \<times> cache_op) list" where
  "sample_ops = [(0, Insert ''q'' ''1'' ''r'' {7}), (1, Insert ''p'' ''1'' ''u'' {}), (2, Insert ''z'' ''1'' ''w'' {7, 8}),
     (3, Get ''p'' ''1''), (4, Insert ''y'' ''1'' ''x'' {9})]"

definition sample_cache :: "(nat \<times> (cache_key \<times> cache_entry) list) query_cache" where
  "sample_cache = cache_run list_lru sample_ops (new_cache list_lru 3 10)"

lemma sample_ops_finite: "\<forall>(t, op)\<in>set sample_ops. op_finite op"
  by (simp add: sample_ops_def)

lemma sample_cache_inv: "cache_inv list_lru sample_cache"
  unfolding sample_cache_def using cache_run_inv [OF list_lru_laws new_cache_inv [OF list_lru_laws] sample_ops_finite] by blast

lemma sample_cache_keys: "map fst (lru_iter list_lru (lru sample_cache)) = [(''y'', ''1''), (''p'', ''1''), (''z'', ''1'')]"
  by code_simp

theorem query_cache_consistent_witness:
  "dom (dependencies sample_cache) = {(''y'', ''1''), (''p'', ''1''), (''z'', ''1'')}
    \<and> bucket 7 (entity_to_keys sample_cache) = {k. \<exists>D. dependencies sample_cache k = Some D \<and> 7 \<in> targets D}"
proof -
  have "fst ` set (lru_iter list_lru (lru sample_cache)) = set (map fst (lru_iter list_lru (lru sample_cache)))" by simp
  then show ?thesis
    using query_cache_consistent [OF list_lru_laws sample_ops_finite sample_cache_def] unfolding sample_cache_keys by simp
qed

theorem invalidate_entities_exact_witness:
  "fst (invalidate_entities list_lru [8] sample_cache) = 2
    \<and> cache_inv list_lru (snd (invalidate_entities list_lru [8] sample_cache))
    \<and> map fst (lru_iter list_lru (lru (snd (invalidate_entities list_lru [8] sample_cache)))) = [(''y'', ''1'')]"
proof -
  have "enabled sample_cache" by code_simp
  then have "cache_inv list_lru (snd (invalidate_entities list_lru [8] sample_cache))"
    using invalidate_entities_exact [OF list_lru_laws sample_cache_inv, of "[8]"] by (simp split: prod.splits)
  moreover have "fst (invalidate_entities list_lru [8] sample_cache) = 2" by code_simp
  moreover have "map fst (lru_iter list_lru (lru (snd (invalidate_entities list_lru [8] sample_cache)))) = [(''y'', ''1'')]" by code_simp
  ultimately show ?thesis by blast
qed

theorem invalidation_race_witness:
  "let (evicted, s1) = insert_put list_lru 5 (''n'', ''1'') ''old'' (remove_reverse_index_for_key list_lru (''n'', ''1'') sample_cache);
       s2 = snd (invalidate_entities list_lru [7] s1)
   in fst (get_cached list_lru 5 ''n'' ''1'' (insert_index list_lru (''n'', ''1'') {7} evicted s2)) = Some ''old''"
proof -
  obtain evicted s1 where put: "insert_put list_lru 5 (''n'', ''1'') ''old''
      (remove_reverse_index_for_key list_lru (''n'', ''1'') sample_cache) = (evicted, s1)" by fastforce
  obtain n s2 where inval: "invalidate_entities list_lru [7] s1 = (n, s2)" by fastforce
  have "enabled sample_cache" by code_simp
  then show ?thesis
    using invalidation_race [OF list_lru_laws sample_cache_inv _ _ put inval, of "{7}"] put inval by simp
qed

end
