(* ===== verification/Sessions.thy ===== *)
theory Sessions
  imports Main
begin

text \<open>
  Values with a time to live in the daemon: client sessions (\<open>mentatd/src/session.rs\<close>) and database
  snapshots (\<open>mentatd/src/db_cache.rs\<close>).  A hash map is a list of keys and values with one entry for
  each key.  Fresh UUIDs and the clock are arguments.
\<close>

section \<open>Sessions\<close>

record session =
  s_id :: string
  db_name :: string
  s_created_at :: nat
  last_activity :: nat
  db_snapshots :: "(string \<times> int) list"

definition map_insert :: "'k \<Rightarrow> 'v \<Rightarrow> ('k \<times> 'v) list \<Rightarrow> ('k \<times> 'v) list" where
  "map_insert k v m = (k, v) # filter (\<lambda>p. fst p \<noteq> k) m"

definition map_remove :: "'k \<Rightarrow> ('k \<times> 'v) list \<Rightarrow> ('k \<times> 'v) list" where
  "map_remove k m = filter (\<lambda>p. fst p \<noteq> k) m"

definition session_new :: "string \<Rightarrow> nat \<Rightarrow> string \<Rightarrow> session" where
  "session_new uuid now name = \<lparr>s_id = uuid, db_name = name, s_created_at = now, last_activity = now, db_snapshots = []\<rparr>"

definition session_touch :: "nat \<Rightarrow> session \<Rightarrow> session" where
  "session_touch now s = s\<lparr>last_activity := now\<rparr>"

definition session_add_snapshot :: "string \<Rightarrow> int \<Rightarrow> session \<Rightarrow> session" where
  "session_add_snapshot db_id basis_t s = s\<lparr>db_snapshots := map_insert db_id basis_t (db_snapshots s)\<rparr>"

definition session_get_snapshot :: "string \<Rightarrow> session \<Rightarrow> int option" where
  "session_get_snapshot db_id s = map_of (db_snapshots s) db_id"

definition is_expired :: "nat \<Rightarrow> nat \<Rightarrow> session \<Rightarrow> bool" where
  "is_expired now life s \<longleftrightarrow> now - last_activity s > life"

record session_store =
  sessions :: "(string \<times> session) list"
  session_ttl :: nat

definition store_new :: "nat \<Rightarrow> session_store" where
  "store_new life = \<lparr>sessions = [], session_ttl = life\<rparr>"

definition store_create :: "string \<Rightarrow> nat \<Rightarrow> string \<Rightarrow> session_store \<Rightarrow> session \<times> session_store" where
  "store_create uuid now name st =
     (let s = session_new uuid now name in (s, st\<lparr>sessions := map_insert (s_id s) s (sessions st)\<rparr>))"

definition store_get :: "nat \<Rightarrow> string \<Rightarrow> session_store \<Rightarrow> session option" where
  "store_get now i st = (case map_of (sessions st) i of
       None \<Rightarrow> None | Some s \<Rightarrow> if is_expired now (session_ttl st) s then None else Some s)"

definition store_touch :: "nat \<Rightarrow> string \<Rightarrow> session_store \<Rightarrow> bool \<times> session_store" where
  "store_touch now i st = (case map_of (sessions st) i of
       None \<Rightarrow> (False, st)
     | Some s \<Rightarrow> if is_expired now (session_ttl st) s then (False, st\<lparr>sessions := map_remove i (sessions st)\<rparr>)
                 else (True, st\<lparr>sessions := map_insert i (session_touch now s) (sessions st)\<rparr>))"

definition store_add_snapshot :: "string \<Rightarrow> string \<Rightarrow> int \<Rightarrow> session_store \<Rightarrow> bool \<times> session_store" where
  "store_add_snapshot i db_id basis_t st = (case map_of (sessions st) i of
       None \<Rightarrow> (False, st)
     | Some s \<Rightarrow> (True, st\<lparr>sessions := map_insert i (session_add_snapshot db_id basis_t s) (sessions st)\<rparr>))"

definition store_remove :: "string \<Rightarrow> session_store \<Rightarrow> session option \<times> session_store" where
  "store_remove i st = (map_of (sessions st) i, st\<lparr>sessions := map_remove i (sessions st)\<rparr>)"

definition store_cleanup_expired :: "nat \<Rightarrow> session_store \<Rightarrow> nat \<times> session_store" where
  "store_cleanup_expired now st =
     (let kept = filter (\<lambda>(i, s). \<not> is_expired now (session_ttl st) s) (sessions st)
      in (length (sessions st) - length kept, st\<lparr>sessions := kept\<rparr>))"

definition store_active_count :: "nat \<Rightarrow> session_store \<Rightarrow> nat" where
  "store_active_count now st = length (filter (\<lambda>(i, s). \<not> is_expired now (session_ttl st) s) (sessions st))"

section \<open>Snapshots\<close>

record db_snapshot =
  sn_db_id :: string
  sn_basis_t :: int
  sn_created_at :: nat

record db_value_cache =
  snapshots :: "(string \<times> db_snapshot) list"
  snapshot_ttl :: nat

definition snap_new :: "nat \<Rightarrow> db_value_cache" where
  "snap_new life = \<lparr>snapshots = [], snapshot_ttl = life\<rparr>"

definition create_snapshot :: "string \<Rightarrow> nat \<Rightarrow> int \<Rightarrow> db_value_cache \<Rightarrow> string \<times> db_value_cache" where
  "create_snapshot uuid now basis_t c =
     (uuid, c\<lparr>snapshots := map_insert uuid \<lparr>sn_db_id = uuid, sn_basis_t = basis_t, sn_created_at = now\<rparr> (snapshots c)\<rparr>)"

text \<open>The read under the read lock, and, when it finds an expired snapshot, the check and the removal
  under the write lock, at a later time.\<close>

definition get_snapshot :: "nat \<Rightarrow> nat \<Rightarrow> string \<Rightarrow> db_value_cache \<Rightarrow> db_snapshot option \<times> db_value_cache" where
  "get_snapshot now later db_id c =
     (case map_of (snapshots c) db_id of
        None \<Rightarrow> (None, c)
      | Some s \<Rightarrow>
          if now - sn_created_at s < snapshot_ttl c then (Some s, c)
          else if later - sn_created_at s < snapshot_ttl c then (Some s, c)
          else (None, c\<lparr>snapshots := map_remove db_id (snapshots c)\<rparr>))"

definition get_basis_t :: "nat \<Rightarrow> nat \<Rightarrow> string \<Rightarrow> db_value_cache \<Rightarrow> int option \<times> db_value_cache" where
  "get_basis_t now later db_id c =
     (case map_of (snapshots c) db_id of
        None \<Rightarrow> (None, c)
      | Some s \<Rightarrow>
          if now - sn_created_at s < snapshot_ttl c then (Some (sn_basis_t s), c)
          else if later - sn_created_at s < snapshot_ttl c then (Some (sn_basis_t s), c)
          else (None, c\<lparr>snapshots := map_remove db_id (snapshots c)\<rparr>))"

definition snap_cleanup_expired :: "nat \<Rightarrow> db_value_cache \<Rightarrow> db_value_cache" where
  "snap_cleanup_expired now c =
     c\<lparr>snapshots := filter (\<lambda>(i, s). now - sn_created_at s < snapshot_ttl c) (snapshots c)\<rparr>"

definition snap_len :: "db_value_cache \<Rightarrow> nat" where
  "snap_len c = length (snapshots c)"

definition snap_clear :: "db_value_cache \<Rightarrow> db_value_cache" where
  "snap_clear c = c\<lparr>snapshots := []\<rparr>"

section \<open>The life of a session\<close>

text \<open>What other clients do to the store between two requests of a session.\<close>

datatype store_op = Create string string | Touch string | AddSnapshot string string int | Remove string | Cleanup

primrec store_step :: "nat \<Rightarrow> store_op \<Rightarrow> session_store \<Rightarrow> session_store" where
  "store_step now (Create uuid name) st = snd (store_create uuid now name st)"
| "store_step now (Touch i) st = snd (store_touch now i st)"
| "store_step now (AddSnapshot i d t) st = snd (store_add_snapshot i d t st)"
| "store_step now (Remove i) st = snd (store_remove i st)"
| "store_step now Cleanup st = snd (store_cleanup_expired now st)"

definition store_run :: "(nat \<times> store_op) list \<Rightarrow> session_store \<Rightarrow> session_store" where
  "store_run ops st = foldl (\<lambda>st (t, op). store_step t op st) st ops"

primrec spares :: "string \<Rightarrow> store_op \<Rightarrow> bool" where
  "spares i (Create uuid name) \<longleftrightarrow> uuid \<noteq> i"
| "spares i (Touch j) \<longleftrightarrow> True"
| "spares i (AddSnapshot j d t) \<longleftrightarrow> True"
| "spares i (Remove j) \<longleftrightarrow> j \<noteq> i"
| "spares i Cleanup \<longleftrightarrow> True"

lemma map_of_updates [simp]:
  "map_of (map_insert k v m) j = (if j = k then Some v else map_of m j)"
  "map_of (map_remove k m) j = (if j = k then None else map_of m j)"
proof -
  have remove: "map_of (filter (\<lambda>p. fst p \<noteq> k) m) j = (if j = k then None else map_of m j)" for j
    by (induction m) auto
  show "map_of (map_insert k v m) j = (if j = k then Some v else map_of m j)" by (simp add: map_insert_def remove)
  show "map_of (map_remove k m) j = (if j = k then None else map_of m j)" by (simp add: map_remove_def remove)
qed

text \<open>A session is alive at a time with a recorded activity no earlier than a bound.\<close>

definition alive :: "string \<Rightarrow> nat \<Rightarrow> session_store \<Rightarrow> bool" where
  "alive i since st \<longleftrightarrow> (\<exists>s. map_of (sessions st) i = Some s \<and> since \<le> last_activity s)"

lemma map_of_filter_some:
  "map_of m k = Some v \<Longrightarrow> P (k, v) \<Longrightarrow> distinct (map fst m) \<Longrightarrow> map_of (filter P m) k = Some v"
  by (induction m) (auto dest: map_of_SomeD)

definition store_ok :: "session_store \<Rightarrow> bool" where
  "store_ok st \<longleftrightarrow> distinct (map fst (sessions st))"

lemma distinct_updates: "distinct (map fst m) \<Longrightarrow> distinct (map fst (map_insert k v m)) \<and> distinct (map fst (map_remove k m))"
  by (auto simp: map_insert_def map_remove_def distinct_map_filter)

lemma store_step_ok:
  assumes "store_ok st"
  shows "store_ok (store_step t op st)" "session_ttl (store_step t op st) = session_ttl st"
  using assms distinct_updates [of "sessions st"]
  by (cases op; simp add: store_ok_def store_create_def store_touch_def store_add_snapshot_def store_remove_def
      store_cleanup_expired_def Let_def distinct_map_filter split: option.splits)+

lemma store_step_alive:
  assumes "store_ok st" "alive i since st" "spares i op" "since \<le> t" "t \<le> since + session_ttl st"
  shows "alive i since (store_step t op st)"
proof -
  obtain s where s: "map_of (sessions st) i = Some s" "since \<le> last_activity s" using assms(2) by (auto simp: alive_def)
  have fresh: "\<not> is_expired t (session_ttl st) s" using assms(5) s(2) by (simp add: is_expired_def)
  show ?thesis
  proof (cases op)
    case Cleanup
    have "map_of (filter (\<lambda>(i, s). \<not> is_expired t (session_ttl st) s) (sessions st)) i = Some s"
      by (rule map_of_filter_some) (use s(1) fresh assms(1) in \<open>simp_all add: store_ok_def\<close>)
    then show ?thesis using Cleanup s(2) by (simp add: store_cleanup_expired_def Let_def alive_def)
  qed (use s fresh assms(3,4) in \<open>auto simp: alive_def store_create_def store_touch_def store_add_snapshot_def store_remove_def
        session_touch_def session_add_snapshot_def session_new_def Let_def split: option.splits\<close>)
qed

text \<open>C15. A session that was used at a time stays usable for its time to live: whatever other requests
  and clean-ups happen meanwhile, unless it is removed, it is found at any time up to then and can
  be touched, which starts its time to live again.\<close>

theorem session_stays_usable:
  assumes "store_ok st" "map_of (sessions st) i = Some s" "last_activity s = used"
    and "\<forall>(t, op)\<in>set ops. used \<le> t \<and> t \<le> used + session_ttl st \<and> spares i op"
    and "used \<le> now" "now \<le> used + session_ttl st"
  shows "store_get now i (store_run ops st) \<noteq> None \<and>
    (\<exists>st' s'. store_touch now i (store_run ops st) = (True, st') \<and> map_of (sessions st') i = Some s' \<and> last_activity s' = now)"
proof -
  have run: "alive i used (store_run ops st) \<and> session_ttl (store_run ops st) = session_ttl st"
    using assms(1,2,3,4)
  proof -
    have "alive i used st" using assms(2,3) by (auto simp: alive_def)
    then show ?thesis using assms(1,4)
    proof (induction ops arbitrary: st)
      case (Cons p ops)
      obtain t op where p: "p = (t, op)" by (cases p)
      note step = store_step_ok [OF Cons.prems(2), of t op]
      have "alive i used (store_step t op st)"
        using store_step_alive [OF Cons.prems(2,1)] Cons.prems(3) by (simp add: p)
      then have "alive i used (store_run ops (store_step t op st)) \<and> session_ttl (store_run ops (store_step t op st)) = session_ttl st"
        using Cons.IH [OF _ step(1)] Cons.prems(3) step(2) by simp
      then show ?case by (simp add: p store_run_def)
    qed (simp add: store_run_def)
  qed
  then obtain s' where s': "map_of (sessions (store_run ops st)) i = Some s'" "used \<le> last_activity s'" by (auto simp: alive_def)
  have "\<not> is_expired now (session_ttl (store_run ops st)) s'" using run s'(2) assms(6) by (simp add: is_expired_def)
  then show ?thesis using s'(1) by (simp add: store_get_def store_touch_def session_touch_def)
qed

theorem session_stays_usable_witness:
  "store_get 20 ''a'' (store_run [(12, Create ''b'' ''db''), (15, Cleanup), (18, Remove ''b'')] (snd (store_create ''a'' 10 ''db'' (store_new 10)))) \<noteq> None"
proof -
  let ?st = "snd (store_create ''a'' 10 ''db'' (store_new 10))"
  have "store_ok ?st" "map_of (sessions ?st) ''a'' = Some (session_new ''a'' 10 ''db'')" "session_ttl ?st = 10"
    by (simp_all add: store_ok_def store_create_def store_new_def session_new_def map_insert_def Let_def)
  then show ?thesis
    using session_stays_usable [of ?st "''a''" "session_new ''a'' 10 ''db''" 10
        "[(12, Create ''b'' ''db''), (15, Cleanup), (18, Remove ''b'')]" 20]
    by (simp add: session_new_def)
qed

end
