(* ===== verification/Msgpack.thy ===== *)
theory Msgpack
  imports Edn_Value "HOL-Library.Sublist"
begin

text \<open>
  The Transit encoding of the daemon over MessagePack (\<open>mentatd/src/protocol\<close>): the encoder of
  response values (\<open>transit_serializer.rs\<close>), the decoder of requests with its limit on nesting
  (\<open>transit_parser.rs\<close>), and the tagged strings that both share.  Bytes are characters, integers
  are written in two's complement at the width of their format.  What the standard library and the
  \<open>uuid\<close> and \<open>hex\<close> crates do with floating-point numbers and texts is in the records \<open>ext\<close> and
  \<open>wire\<close>.
\<close>

unbundle bit_operations_syntax

section \<open>Values\<close>

datatype response_value =
    RNil
  | RString string
  | RBoolean bool
  | RInteger int
  | RFloat f64
  | RKeyword string
  | RInstant int
  | RUuid string
  | RList "response_value list"
  | RVector "response_value list"
  | RMap "(response_value \<times> response_value) list"
  | RDbSnapshot string int

datatype transit_value =
    TvNil
  | TvBool bool
  | TvInteger int
  | TvFloat f64
  | TvString string
  | TvKeyword string
  | TvSymbol string
  | TvUuid string
  | TvInstant int
  | TvArray "transit_value list"
  | TvMap "(transit_value \<times> transit_value) list"

record wire = ext +
  f64_to_be :: "f64 \<Rightarrow> string"
  f64_from_be :: "string \<Rightarrow> f64"
  f32_from_be :: "string \<Rightarrow> f64"

section \<open>Bytes\<close>

primrec be_bytes :: "nat \<Rightarrow> nat \<Rightarrow> string" where
  "be_bytes 0 n = []"
| "be_bytes (Suc k) n = be_bytes k (n div 256) @ [char_of (n mod 256)]"

definition from_be :: "string \<Rightarrow> nat" where
  "from_be bs = foldl (\<lambda>n b. 256 * n + of_char b) 0 bs"

text \<open>A \<open>w\<close>-bit pattern read as a signed integer, and back.\<close>

definition to_signed :: "nat \<Rightarrow> nat \<Rightarrow> int" where
  "to_signed w n = (if n < 2 ^ (w - 1) then int n else int n - 2 ^ w)"

definition to_unsigned :: "nat \<Rightarrow> int \<Rightarrow> nat" where
  "to_unsigned w i = nat (i mod 2 ^ w)"

section \<open>The encoder\<close>

definition msgpack_write_array_len :: "nat \<Rightarrow> string" where
  "msgpack_write_array_len len =
     (if len \<le> 15 then [char_of (0x90 OR len)]
      else if len \<le> 0xFFFF then char_of (0xdc :: nat) # be_bytes 2 len
      else char_of (0xdd :: nat) # be_bytes 4 len)"

definition msgpack_write_str :: "string \<Rightarrow> string" where
  "msgpack_write_str s =
     (let len = length s in
      (if len \<le> 31 then [char_of (0xa0 OR len)]
       else if len \<le> 0xFF then [char_of (0xd9 :: nat), char_of len]
       else if len \<le> 0xFFFF then char_of (0xda :: nat) # be_bytes 2 len
       else char_of (0xdb :: nat) # be_bytes 4 len) @ s)"

definition msgpack_write_u64 :: "nat \<Rightarrow> string" where
  "msgpack_write_u64 val =
     (if val \<le> 127 then [char_of val]
      else if val \<le> 0xFF then [char_of (0xcc :: nat), char_of val]
      else if val \<le> 0xFFFF then char_of (0xcd :: nat) # be_bytes 2 val
      else if val \<le> 0xFFFFFFFF then char_of (0xce :: nat) # be_bytes 4 val
      else char_of (0xcf :: nat) # be_bytes 8 val)"

definition msgpack_write_i64 :: "int \<Rightarrow> string" where
  "msgpack_write_i64 val =
     (if val \<ge> 0 then msgpack_write_u64 (nat val)
      else if val \<ge> - 32 then [char_of (to_unsigned 8 val)]
      else if val \<ge> - (2 ^ 7) then [char_of (0xd0 :: nat), char_of (to_unsigned 8 val)]
      else if val \<ge> - (2 ^ 15) then char_of (0xd1 :: nat) # be_bytes 2 (to_unsigned 16 val)
      else if val \<ge> - (2 ^ 31) then char_of (0xd2 :: nat) # be_bytes 4 (to_unsigned 32 val)
      else char_of (0xd3 :: nat) # be_bytes 8 (to_unsigned 64 val))"

definition msgpack_write_f64 :: "'x wire_scheme \<Rightarrow> f64 \<Rightarrow> string" where
  "msgpack_write_f64 x f = char_of (0xcb :: nat) # f64_to_be x f"

lemma size_pairs [termination_simp]:
  "(k, v) \<in> set es \<Longrightarrow> size k < Suc (size_list (size_prod size size) es)"
  "(k, v) \<in> set es \<Longrightarrow> size v < Suc (size_list (size_prod size size) es)"
  by (induction es) auto

fun value_to_msgpack :: "'x wire_scheme \<Rightarrow> response_value \<Rightarrow> string" where
  "value_to_msgpack x RNil = [char_of (0xc0 :: nat)]"
| "value_to_msgpack x (RBoolean b) = [char_of (if b then 0xc3 else 0xc2 :: nat)]"
| "value_to_msgpack x (RString s) =
     (if starts_with s (CHR ''~'') \<or> starts_with s (CHR ''^'') then msgpack_write_str (CHR ''~'' # s)
      else msgpack_write_str s)"
| "value_to_msgpack x (RInteger i) = msgpack_write_i64 i"
| "value_to_msgpack x (RFloat f) = msgpack_write_f64 x f"
| "value_to_msgpack x (RKeyword k) = msgpack_write_str (''~:'' @ k)"
| "value_to_msgpack x (RInstant micros) = msgpack_write_str (''~m'' @ show_int (rust_div micros 1000))"
| "value_to_msgpack x (RUuid u) = msgpack_write_str (''~u'' @ u)"
| "value_to_msgpack x (RList items) =
     msgpack_write_array_len 2 @ msgpack_write_str ''~#list'' @ msgpack_write_array_len (length items)
       @ concat (map (value_to_msgpack x) items)"
| "value_to_msgpack x (RVector items) = msgpack_write_array_len (length items) @ concat (map (value_to_msgpack x) items)"
| "value_to_msgpack x (RMap entries) =
     msgpack_write_array_len (1 + length entries * 2) @ msgpack_write_str ''^ ''
       @ concat (map (\<lambda>(k, v). value_to_msgpack x k @ value_to_msgpack x v) entries)"
| "value_to_msgpack x (RDbSnapshot db_id basis_t) =
     msgpack_write_array_len 2 @ msgpack_write_str ''~#db'' @ msgpack_write_array_len 2
       @ msgpack_write_str db_id @ msgpack_write_i64 basis_t"

text \<open>Responses: a map with a result or with an error.\<close>

datatype anomaly_category = Incorrect | Forbidden | NotFound | Unavailable | Interrupted | Fault

primrec as_keyword :: "anomaly_category \<Rightarrow> string" where
  "as_keyword Incorrect = '':cognitect.anomalies/incorrect''"
| "as_keyword Forbidden = '':cognitect.anomalies/forbidden''"
| "as_keyword NotFound = '':cognitect.anomalies/not-found''"
| "as_keyword Unavailable = '':cognitect.anomalies/unavailable''"
| "as_keyword Interrupted = '':cognitect.anomalies/interrupted''"
| "as_keyword Fault = '':cognitect.anomalies/fault''"

record anomaly =
  an_category :: anomaly_category
  an_message :: string
  an_db_error :: "string option"

datatype response = Success response_value | Error anomaly

definition anomaly_to_msgpack :: "anomaly \<Rightarrow> string" where
  "anomaly_to_msgpack a =
     msgpack_write_array_len 3 @ msgpack_write_str ''^ '' @ msgpack_write_str ''~:error''
     @ msgpack_write_array_len (if an_db_error a = None then 5 else 7) @ msgpack_write_str ''^ ''
     @ msgpack_write_str ''~:cognitect.anomalies/category'' @ msgpack_write_str (''~:'' @ tl (as_keyword (an_category a)))
     @ msgpack_write_str ''~:cognitect.anomalies/message'' @ msgpack_write_str (an_message a)
     @ (case an_db_error a of None \<Rightarrow> []
        | Some err \<Rightarrow> msgpack_write_str ''~:db/error'' @ msgpack_write_str (''~:'' @ err))"

primrec serialize_transit_msgpack :: "'x wire_scheme \<Rightarrow> response \<Rightarrow> string" where
  "serialize_transit_msgpack x (Success result) =
     msgpack_write_array_len 3 @ msgpack_write_str ''^ '' @ msgpack_write_str ''~:result'' @ value_to_msgpack x result"
| "serialize_transit_msgpack x (Error anomaly) = anomaly_to_msgpack anomaly"

section \<open>The decoder\<close>

definition MAX_NESTING_DEPTH :: nat where "MAX_NESTING_DEPTH = 64"

datatype msgpack_error =
    NestingTooDeep
  | UnexpectedEnd
  | NeedBytes nat nat
  | InvalidUtf8
  | UnsupportedByte nat

text \<open>The byte sequences that \<open>str::from_utf8\<close> accepts.\<close>

definition in_range :: "nat \<Rightarrow> nat \<Rightarrow> char \<Rightarrow> bool" where
  "in_range a b c \<longleftrightarrow> a \<le> of_char c \<and> of_char c \<le> b"

abbreviation continuation :: "char \<Rightarrow> bool" where
  "continuation c \<equiv> in_range 0x80 0xBF c"

fun from_utf8 :: "string \<Rightarrow> bool" where
  "from_utf8 [] = True"
| "from_utf8 (c # s) =
     (if in_range 0 0x7F c then from_utf8 s
      else case s of
        [] \<Rightarrow> False
      | d # s2 \<Rightarrow>
          if in_range 0xC2 0xDF c \<and> continuation d then from_utf8 s2
          else case s2 of
            [] \<Rightarrow> False
          | e # s3 \<Rightarrow>
              if continuation e \<and> (in_range 0xE0 0xE0 c \<and> in_range 0xA0 0xBF d \<or> in_range 0xE1 0xEC c \<and> continuation d
                 \<or> in_range 0xED 0xED c \<and> in_range 0x80 0x9F d \<or> in_range 0xEE 0xEF c \<and> continuation d)
              then from_utf8 s3
              else case s3 of
                [] \<Rightarrow> False
              | f # s4 \<Rightarrow>
                  continuation e \<and> continuation f
                  \<and> (in_range 0xF0 0xF0 c \<and> in_range 0x90 0xBF d \<or> in_range 0xF1 0xF3 c \<and> continuation d
                     \<or> in_range 0xF4 0xF4 c \<and> in_range 0x80 0x8F d)
                  \<and> from_utf8 s4)"

definition strip_prefix :: "string \<Rightarrow> string \<Rightarrow> string option" where
  "strip_prefix p s = (if take (length p) s = p then Some (drop (length p) s) else None)"

definition decode_special_float :: "string \<Rightarrow> string \<Rightarrow> transit_value" where
  "decode_special_float rest s =
     (if rest = ''NaN'' then TvFloat NaN else if rest = ''INF'' then TvFloat PosInfinity
      else if rest = ''-INF'' then TvFloat NegInfinity else TvString s)"

definition decode_transit_tagged_string :: "'x ext_scheme \<Rightarrow> string \<Rightarrow> transit_value" where
  "decode_transit_tagged_string x s =
     (case strip_prefix ''~:'' s of Some r \<Rightarrow> TvKeyword r | None \<Rightarrow>
      case strip_prefix ''~$'' s of Some r \<Rightarrow> TvSymbol r | None \<Rightarrow>
      case strip_prefix ''~i'' s of Some r \<Rightarrow> (case str_parse_i64 r of Some i \<Rightarrow> TvInteger i | None \<Rightarrow> TvString s) | None \<Rightarrow>
      case strip_prefix ''~u'' s of Some r \<Rightarrow> (case parse_uuid x r of Some u \<Rightarrow> TvUuid u | None \<Rightarrow> TvString s) | None \<Rightarrow>
      case strip_prefix ''~m'' s of Some r \<Rightarrow> (case str_parse_i64 r of Some i \<Rightarrow> TvInstant i | None \<Rightarrow> TvString s) | None \<Rightarrow>
      case strip_prefix ''~z'' s of Some r \<Rightarrow> decode_special_float r s | None \<Rightarrow>
      case strip_prefix ''~~'' s of Some r \<Rightarrow> TvString (''~'' @ r) | None \<Rightarrow>
      case strip_prefix ''~^'' s of Some r \<Rightarrow> TvString (''^'' @ r) | None \<Rightarrow> TvString s)"

definition ensure_len :: "string \<Rightarrow> nat \<Rightarrow> (msgpack_error, unit) result" where
  "ensure_len buf needed = (if length buf < needed then Inl (NeedBytes needed (length buf)) else Inr ())"

text \<open>A string of \<open>len\<close> bytes, a big-endian number of \<open>k\<close> bytes, and the hexadecimal text of a binary
  of \<open>len\<close> bytes, each with the bytes that remain.\<close>

definition read_text :: "'x ext_scheme \<Rightarrow> nat \<Rightarrow> string \<Rightarrow> (msgpack_error, transit_value \<times> string) result" where
  "read_text x len rest =
     rbind (ensure_len rest len) (\<lambda>_.
       if from_utf8 (take len rest) then Inr (decode_transit_tagged_string x (take len rest), drop len rest) else Inl InvalidUtf8)"

definition read_be :: "nat \<Rightarrow> string \<Rightarrow> (msgpack_error, nat \<times> string) result" where
  "read_be k rest = rbind (ensure_len rest k) (\<lambda>_. Inr (from_be (take k rest), drop k rest))"

definition read_bin :: "'x ext_scheme \<Rightarrow> nat \<Rightarrow> string \<Rightarrow> (msgpack_error, transit_value \<times> string) result" where
  "read_bin x len rest = rbind (ensure_len rest len) (\<lambda>_. Inr (TvString (''0x'' @ hex_encode x (take len rest)), drop len rest))"

text \<open>The loop that reads \<open>count\<close> values, given the reader of one.\<close>

primrec read_values :: "(string \<Rightarrow> (msgpack_error, transit_value \<times> string) result) \<Rightarrow> nat \<Rightarrow> string
    \<Rightarrow> (msgpack_error, transit_value list \<times> string) result" where
  "read_values rd 0 buf = Inr ([], buf)"
| "read_values rd (Suc n) buf = rbind (rd buf) (\<lambda>(v, buf'). rbind (read_values rd n buf') (\<lambda>(vs, r). Inr (v # vs, r)))"

fun pair_up :: "'a list \<Rightarrow> ('a \<times> 'a) list" where
  "pair_up (k # v # r) = (k, v) # pair_up r"
| "pair_up _ = []"

definition transit_array :: "transit_value list \<Rightarrow> transit_value" where
  "transit_array items =
     (case items of
        TvString m # r \<Rightarrow>
          if m = ''^ '' then TvMap (pair_up r)
          else if m = ''~#list'' \<or> m = ''~#set''
          then (case r of [TvArray inner] \<Rightarrow> TvArray inner | _ \<Rightarrow> TvArray items)
          else TvArray items
      | _ \<Rightarrow> TvArray items)"

definition msgpack_read_transit_array :: "(string \<Rightarrow> (msgpack_error, transit_value \<times> string) result) \<Rightarrow> string \<Rightarrow> nat
    \<Rightarrow> (msgpack_error, transit_value \<times> string) result" where
  "msgpack_read_transit_array rd buf count = rbind (read_values rd count buf) (\<lambda>(items, r). Inr (transit_array items, r))"

primrec read_pairs :: "(string \<Rightarrow> (msgpack_error, transit_value \<times> string) result) \<Rightarrow> nat \<Rightarrow> string
    \<Rightarrow> (msgpack_error, (transit_value \<times> transit_value) list \<times> string) result" where
  "read_pairs rd 0 buf = Inr ([], buf)"
| "read_pairs rd (Suc n) buf =
     rbind (rd buf) (\<lambda>(k, r1). rbind (rd r1) (\<lambda>(v, r2). rbind (read_pairs rd n r2) (\<lambda>(es, r). Inr ((k, v) # es, r))))"

definition msgpack_read_map :: "(string \<Rightarrow> (msgpack_error, transit_value \<times> string) result) \<Rightarrow> string \<Rightarrow> nat
    \<Rightarrow> (msgpack_error, transit_value \<times> string) result" where
  "msgpack_read_map rd buf count = rbind (read_pairs rd count buf) (\<lambda>(es, r). Inr (TvMap es, r))"

text \<open>One value whose first byte is \<open>b\<close>, given the reader of the values inside it.\<close>

definition read_tagged :: "'x wire_scheme \<Rightarrow> (string \<Rightarrow> (msgpack_error, transit_value \<times> string) result) \<Rightarrow> nat \<Rightarrow> string
    \<Rightarrow> (msgpack_error, transit_value \<times> string) result" where
  "read_tagged x rd b rest =
     (if b = 0xc0 then Inr (TvNil, rest)
      else if b = 0xc2 then Inr (TvBool False, rest)
      else if b = 0xc3 then Inr (TvBool True, rest)
      else if b \<le> 0x7f then Inr (TvInteger (int b), rest)
      else if 0xe0 \<le> b then Inr (TvInteger (to_signed 8 b), rest)
      else if b = 0xcc then rbind (read_be 1 rest) (\<lambda>(n, r). Inr (TvInteger (int n), r))
      else if b = 0xcd then rbind (read_be 2 rest) (\<lambda>(n, r). Inr (TvInteger (int n), r))
      else if b = 0xce then rbind (read_be 4 rest) (\<lambda>(n, r). Inr (TvInteger (int n), r))
      else if b = 0xcf then rbind (read_be 8 rest) (\<lambda>(n, r). Inr (TvInteger (to_signed 64 n), r))
      else if b = 0xd0 then rbind (read_be 1 rest) (\<lambda>(n, r). Inr (TvInteger (to_signed 8 n), r))
      else if b = 0xd1 then rbind (read_be 2 rest) (\<lambda>(n, r). Inr (TvInteger (to_signed 16 n), r))
      else if b = 0xd2 then rbind (read_be 4 rest) (\<lambda>(n, r). Inr (TvInteger (to_signed 32 n), r))
      else if b = 0xd3 then rbind (read_be 8 rest) (\<lambda>(n, r). Inr (TvInteger (to_signed 64 n), r))
      else if 0xa0 \<le> b \<and> b \<le> 0xbf then read_text x (b AND 0x1f) rest
      else if b = 0xd9 then rbind (read_be 1 rest) (\<lambda>(n, r). read_text x n r)
      else if b = 0xda then rbind (read_be 2 rest) (\<lambda>(n, r). read_text x n r)
      else if b = 0xdb then rbind (read_be 4 rest) (\<lambda>(n, r). read_text x n r)
      else if 0x90 \<le> b \<and> b \<le> 0x9f then msgpack_read_transit_array rd rest (b AND 0x0f)
      else if b = 0xdc then rbind (read_be 2 rest) (\<lambda>(n, r). msgpack_read_transit_array rd r n)
      else if b = 0xdd then rbind (read_be 4 rest) (\<lambda>(n, r). msgpack_read_transit_array rd r n)
      else if 0x80 \<le> b \<and> b \<le> 0x8f then msgpack_read_map rd rest (b AND 0x0f)
      else if b = 0xde then rbind (read_be 2 rest) (\<lambda>(n, r). msgpack_read_map rd r n)
      else if b = 0xdf then rbind (read_be 4 rest) (\<lambda>(n, r). msgpack_read_map rd r n)
      else if b = 0xc4 then rbind (read_be 1 rest) (\<lambda>(n, r). read_bin x n r)
      else if b = 0xc5 then rbind (read_be 2 rest) (\<lambda>(n, r). read_bin x n r)
      else if b = 0xc6 then rbind (read_be 4 rest) (\<lambda>(n, r). read_bin x n r)
      else if b = 0xca then rbind (ensure_len rest 4) (\<lambda>_. Inr (TvFloat (f32_from_be x (take 4 rest)), drop 4 rest))
      else if b = 0xcb then rbind (ensure_len rest 8) (\<lambda>_. Inr (TvFloat (f64_from_be x (take 8 rest)), drop 8 rest))
      else Inl (UnsupportedByte b))"

function msgpack_read_value_bounded :: "'x wire_scheme \<Rightarrow> string \<Rightarrow> nat \<Rightarrow> (msgpack_error, transit_value \<times> string) result" where
  "msgpack_read_value_bounded x buf depth =
     (if depth > MAX_NESTING_DEPTH then Inl NestingTooDeep
      else case buf of
        [] \<Rightarrow> Inl UnexpectedEnd
      | first # rest \<Rightarrow> read_tagged x (\<lambda>b. msgpack_read_value_bounded x b (depth + 1)) (of_char first) rest)"
  by pat_completeness auto
termination
  by (relation "measure (\<lambda>(x, buf, depth). Suc MAX_NESTING_DEPTH - depth)") (auto simp: MAX_NESTING_DEPTH_def)

declare msgpack_read_value_bounded.simps [simp del]

section \<open>Bytes read back\<close>

lemma length_be_bytes [simp]: "length (be_bytes k n) = k"
  by (induction k arbitrary: n) simp_all

lemma from_be_snoc [simp]: "from_be (bs @ [b]) = 256 * from_be bs + of_char b"
  by (simp add: from_be_def)

lemma from_be_bytes: "from_be (be_bytes k n) = n mod 256 ^ k"
proof (induction k arbitrary: n)
  case (Suc k)
  have "n mod 256 ^ Suc k = 256 * (n div 256 mod 256 ^ k) + n mod 256"
    using mod_mult2_eq [of n 256 "256 ^ k"] by simp
  then show ?case using Suc by simp
qed (simp add: from_be_def)

lemma read_be_bytes [simp]: "read_be k (be_bytes k n @ r) = Inr (n mod 256 ^ k, r)"
  by (simp add: read_be_def ensure_len_def from_be_bytes)

lemma read_be_1 [simp]: "read_be 1 (c # r) = Inr (of_char c, r)" "read_be (Suc 0) (c # r) = Inr (of_char c, r)"
  by (simp_all add: read_be_def ensure_len_def from_be_def)

lemma to_signed_unsigned:
  assumes "0 < w" "- (2 ^ (w - 1)) \<le> i" "i < 2 ^ (w - 1)"
  shows "to_signed w (to_unsigned w i) = i" "to_unsigned w i < 2 ^ w"
proof -
  have w: "(2::int) ^ w = 2 * 2 ^ (w - 1)" using assms(1) by (metis power_eq_if less_numeral_extra(3))
  have pos: "(0::int) < 2 ^ (w - 1)" by simp
  have nn: "0 \<le> i mod 2 ^ w" "i mod 2 ^ w < 2 ^ w" by simp_all
  have m: "i mod 2 ^ w = (if 0 \<le> i then i else i + 2 ^ w)"
  proof (cases "0 \<le> i")
    case True
    then show ?thesis using assms(3) w pos by simp
  next
    case False
    have "i mod 2 ^ w = (i + 2 ^ w) mod 2 ^ w" by simp
    also have "\<dots> = i + 2 ^ w" using False assms(2) w pos by (intro mod_pos_pos_trivial) auto
    finally show ?thesis using False by simp
  qed
  have lt: "nat (i mod 2 ^ w) < 2 ^ (w - 1) \<longleftrightarrow> i mod 2 ^ w < 2 ^ (w - 1)"
    using nn(1) by (simp add: nat_less_iff)
  show "to_signed w (to_unsigned w i) = i"
    unfolding to_signed_def to_unsigned_def lt using m nn(1) assms(2,3) w pos by (auto split: if_splits)
  show "to_unsigned w i < 2 ^ w" using nn by (simp add: to_unsigned_def nat_less_iff)
qed

lemma or_low: "n \<le> 15 \<Longrightarrow> (0x90 :: nat) OR n = 0x90 + n" "n \<le> 31 \<Longrightarrow> (0xa0 :: nat) OR n = 0xa0 + n"
proof -
  have "list_all (\<lambda>n. (0x90 :: nat) OR n = 0x90 + n) [0..<16]" "list_all (\<lambda>n. (0xa0 :: nat) OR n = 0xa0 + n) [0..<32]"
    by code_simp+
  then show "n \<le> 15 \<Longrightarrow> (0x90 :: nat) OR n = 0x90 + n" "n \<le> 31 \<Longrightarrow> (0xa0 :: nat) OR n = 0xa0 + n"
    by (simp_all add: list_all_iff)
qed

lemma and_low: "n \<le> 15 \<Longrightarrow> (0x90 + n :: nat) AND 0x0f = n" "n \<le> 31 \<Longrightarrow> (0xa0 + n :: nat) AND 0x1f = n"
proof -
  have "list_all (\<lambda>n. (0x90 + n :: nat) AND 0x0f = n) [0..<16]" "list_all (\<lambda>n. (0xa0 + n :: nat) AND 0x1f = n) [0..<32]"
    by code_simp+
  then show "n \<le> 15 \<Longrightarrow> (0x90 + n :: nat) AND 0x0f = n" "n \<le> 31 \<Longrightarrow> (0xa0 + n :: nat) AND 0x1f = n"
    by (simp_all add: list_all_iff)
qed

lemma read_Cons:
  "d \<le> MAX_NESTING_DEPTH \<Longrightarrow> msgpack_read_value_bounded x (c # r) d =
     read_tagged x (\<lambda>b. msgpack_read_value_bounded x b (d + 1)) (of_char c) r"
  by (subst msgpack_read_value_bounded.simps) simp

lemma read_text_append: "from_utf8 s \<Longrightarrow> read_text x (length s) (s @ r) = Inr (decode_transit_tagged_string x s, r)"
  by (simp add: read_text_def ensure_len_def)

lemma read_str:
  assumes "d \<le> MAX_NESTING_DEPTH" "from_utf8 s" "length s < 2 ^ 32"
  shows "msgpack_read_value_bounded x (msgpack_write_str s @ r) d = Inr (decode_transit_tagged_string x s, r)"
proof -
  have txt_ok: "read_text x (length s) (s @ r) = Inr (decode_transit_tagged_string x s, r)" by (rule read_text_append [OF assms(2)])
  consider "length s \<le> 31" | "31 < length s" "length s \<le> 0xFF" | "0xFF < length s" "length s \<le> 0xFFFF" | "0xFFFF < length s"
    by linarith
  then show ?thesis
    by cases (use assms(1,3) txt_ok in \<open>simp_all add: msgpack_write_str_def Let_def read_Cons or_low read_tagged_def and_low\<close>)
qed

lemma read_array:
  assumes "d \<le> MAX_NESTING_DEPTH" "n < 2 ^ 32"
  shows "msgpack_read_value_bounded x (msgpack_write_array_len n @ r) d =
    msgpack_read_transit_array (\<lambda>b. msgpack_read_value_bounded x b (d + 1)) r n"
proof -
  consider "n \<le> 15" | "15 < n" "n \<le> 0xFFFF" | "0xFFFF < n" by linarith
  then show ?thesis
    by cases (use assms in \<open>simp_all add: msgpack_write_array_len_def read_Cons or_low read_tagged_def and_low\<close>)
qed

lemma read_i64:
  assumes "d \<le> MAX_NESTING_DEPTH" "i64_ok i"
  shows "msgpack_read_value_bounded x (msgpack_write_i64 i @ r) d = Inr (TvInteger i, r)"
proof -
  have i: "- (2 ^ 63) \<le> i" "i < 2 ^ 63" using assms(2) by (simp_all add: i64_ok_def)
  consider "0 \<le> i" "i \<le> 127" | "127 < i" "i \<le> 0xFF" | "0xFF < i" "i \<le> 0xFFFF" | "0xFFFF < i" "i \<le> 0xFFFFFFFF" | "0xFFFFFFFF < i"
    | "i < 0" "- 32 \<le> i" | "i < - 32" "- (2 ^ 7) \<le> i" | "i < - (2 ^ 7)" "- (2 ^ 15) \<le> i" | "i < - (2 ^ 15)" "- (2 ^ 31) \<le> i" | "i < - (2 ^ 31)"
    by linarith
  then show ?thesis
  proof cases
    case 1
    then obtain n where "i = int n" "n \<le> 127" using nat_0_le [of i] by (intro that [of "nat i"]) auto
    then show ?thesis using assms(1) by (auto simp: msgpack_write_i64_def msgpack_write_u64_def read_Cons read_tagged_def)
  next
    case 6
    have u: "to_unsigned 8 i = nat (i + 256)" "to_signed 8 (to_unsigned 8 i) = i"
      using to_signed_unsigned(1) [of 8 i] 6 by (simp_all add: to_unsigned_def) (smt (verit) mod_add_self2 mod_pos_pos_trivial)
    then show ?thesis using 6 assms(1) by (simp add: msgpack_write_i64_def read_Cons read_tagged_def nat_less_iff)
  next
    case 7
    then show ?thesis using assms(1) to_signed_unsigned [of 8 i] by (simp add: msgpack_write_i64_def read_Cons read_tagged_def)
  next
    case 8
    then show ?thesis using assms(1) to_signed_unsigned [of 16 i] by (simp add: msgpack_write_i64_def read_Cons read_tagged_def)
  next
    case 9
    then show ?thesis using assms(1) to_signed_unsigned [of 32 i] by (simp add: msgpack_write_i64_def read_Cons read_tagged_def)
  next
    case 10
    then show ?thesis using assms(1) i to_signed_unsigned [of 64 i] by (simp add: msgpack_write_i64_def read_Cons read_tagged_def)
  next
    case 5
    then have "to_signed 64 (nat i) = i" "nat i < 2 ^ 64" using i(2) by (simp_all add: to_signed_def nat_less_iff)
    then show ?thesis using 5 assms(1) by (simp add: msgpack_write_i64_def msgpack_write_u64_def read_Cons read_tagged_def)
  qed (use assms(1) in \<open>simp_all add: msgpack_write_i64_def msgpack_write_u64_def read_Cons read_tagged_def nat_less_iff nat_le_iff\<close>)
qed

section \<open>Values read back\<close>

text \<open>What a response value is on the side of the decoder: sequences of both kinds are arrays, an
  instant has milliseconds.\<close>

fun transit_of :: "'x ext_scheme \<Rightarrow> response_value \<Rightarrow> transit_value" where
  "transit_of x RNil = TvNil"
| "transit_of x (RString s) = TvString s"
| "transit_of x (RBoolean b) = TvBool b"
| "transit_of x (RInteger i) = TvInteger i"
| "transit_of x (RFloat f) = TvFloat f"
| "transit_of x (RKeyword k) = TvKeyword k"
| "transit_of x (RInstant micros) = TvInstant (rust_div micros 1000)"
| "transit_of x (RUuid u) = TvUuid (the (parse_uuid x u))"
| "transit_of x (RList items) = TvArray (map (transit_of x) items)"
| "transit_of x (RVector items) = TvArray (map (transit_of x) items)"
| "transit_of x (RMap entries) = TvMap (map (\<lambda>(k, v). (transit_of x k, transit_of x v)) entries)"
| "transit_of x (RDbSnapshot db_id basis_t) = TvArray [TvString ''~#db'', TvArray [TvString db_id, TvInteger basis_t]]"

primrec is_sequence :: "response_value \<Rightarrow> bool" where
  "is_sequence RNil = False"
| "is_sequence (RString s) = False"
| "is_sequence (RBoolean b) = False"
| "is_sequence (RInteger i) = False"
| "is_sequence (RFloat f) = False"
| "is_sequence (RKeyword k) = False"
| "is_sequence (RInstant m) = False"
| "is_sequence (RUuid u) = False"
| "is_sequence (RList items) = True"
| "is_sequence (RVector items) = True"
| "is_sequence (RMap entries) = False"
| "is_sequence (RDbSnapshot i t) = True"

text \<open>A sequence that the decoder does not take for a map or for a tagged value.\<close>

definition unmarked :: "response_value list \<Rightarrow> bool" where
  "unmarked items \<longleftrightarrow> (case items of
       RString m # r \<Rightarrow> m \<noteq> ''^ '' \<and> \<not> ((m = ''~#list'' \<or> m = ''~#set'') \<and> length r = 1 \<and> is_sequence (hd r))
     | _ \<Rightarrow> True)"

text \<open>Values of the Rust type within the limits of the format and of the decoder at a depth.\<close>

fun wire_ok :: "'x wire_scheme \<Rightarrow> nat \<Rightarrow> response_value \<Rightarrow> bool" where
  "wire_ok x d RNil \<longleftrightarrow> d \<le> MAX_NESTING_DEPTH"
| "wire_ok x d (RString s) \<longleftrightarrow> d \<le> MAX_NESTING_DEPTH \<and> from_utf8 s \<and> Suc (length s) < 2 ^ 32"
| "wire_ok x d (RBoolean b) \<longleftrightarrow> d \<le> MAX_NESTING_DEPTH"
| "wire_ok x d (RInteger i) \<longleftrightarrow> d \<le> MAX_NESTING_DEPTH \<and> i64_ok i"
| "wire_ok x d (RFloat f) \<longleftrightarrow> d \<le> MAX_NESTING_DEPTH \<and> length (f64_to_be x f) = 8 \<and> f64_from_be x (f64_to_be x f) = f"
| "wire_ok x d (RKeyword k) \<longleftrightarrow> d \<le> MAX_NESTING_DEPTH \<and> from_utf8 k \<and> length k + 2 < 2 ^ 32"
| "wire_ok x d (RInstant micros) \<longleftrightarrow> d \<le> MAX_NESTING_DEPTH \<and> i64_ok micros"
| "wire_ok x d (RUuid u) \<longleftrightarrow> d \<le> MAX_NESTING_DEPTH \<and> from_utf8 u \<and> length u + 2 < 2 ^ 32 \<and> parse_uuid x u \<noteq> None"
| "wire_ok x d (RList items) \<longleftrightarrow> d + 1 \<le> MAX_NESTING_DEPTH \<and> length items < 2 ^ 32 \<and> unmarked items \<and> list_all (wire_ok x (d + 2)) items"
| "wire_ok x d (RVector items) \<longleftrightarrow> d \<le> MAX_NESTING_DEPTH \<and> length items < 2 ^ 32 \<and> unmarked items \<and> list_all (wire_ok x (d + 1)) items"
| "wire_ok x d (RMap entries) \<longleftrightarrow> d + 1 \<le> MAX_NESTING_DEPTH \<and> 1 + length entries * 2 < 2 ^ 32
     \<and> list_all (\<lambda>(k, v). wire_ok x (d + 1) k \<and> wire_ok x (d + 1) v) entries"
| "wire_ok x d (RDbSnapshot db_id basis_t) \<longleftrightarrow> d + 2 \<le> MAX_NESTING_DEPTH \<and> from_utf8 db_id \<and> length db_id < 2 ^ 32
     \<and> \<not> starts_with db_id (CHR ''~'') \<and> db_id \<noteq> ''^ '' \<and> i64_ok basis_t"

lemma decode_untagged: "\<not> starts_with s (CHR ''~'') \<Longrightarrow> decode_transit_tagged_string x s = TvString s"
  by (cases s) (simp_all add: decode_transit_tagged_string_def strip_prefix_def)

lemma decode_escaped:
  "starts_with s (CHR ''~'') \<or> starts_with s (CHR ''^'') \<Longrightarrow> decode_transit_tagged_string x (CHR ''~'' # s) = TvString s"
  by (cases s) (auto simp: decode_transit_tagged_string_def strip_prefix_def)

lemma decode_tags:
  "decode_transit_tagged_string x (CHR ''~'' # CHR '':'' # k) = TvKeyword k"
  "i64_ok i \<Longrightarrow> decode_transit_tagged_string x (CHR ''~'' # CHR ''m'' # show_int i) = TvInstant i"
  "parse_uuid x u = Some w \<Longrightarrow> decode_transit_tagged_string x (CHR ''~'' # CHR ''u'' # u) = TvUuid w"
  "decode_transit_tagged_string x ''~#list'' = TvString ''~#list''"
  "decode_transit_tagged_string x ''~#db'' = TvString ''~#db''"
  "decode_transit_tagged_string x ''^ '' = TvString ''^ ''"
  by (simp_all add: decode_transit_tagged_string_def strip_prefix_def)

lemma utf8_ascii: "of_char c \<le> (0x7F :: nat) \<Longrightarrow> from_utf8 (c # s) = from_utf8 s"
  by (simp add: in_range_def)

lemma utf8_ascii_list: "list_all (\<lambda>c. of_char c \<le> (0x7F :: nat)) s \<Longrightarrow> from_utf8 s"
  by (induction s) (simp_all add: utf8_ascii del: from_utf8.simps(2))

declare from_utf8.simps(2) [simp del]

lemma read_values_concat:
  assumes "\<And>v r. v \<in> set vs \<Longrightarrow> rd (enc v @ r) = Inr (t v, r)"
  shows "read_values rd (length vs) (concat (map enc vs) @ r) = Inr (map t vs, r)"
  using assms by (induction vs) auto

definition flat :: "('a \<times> 'a) list \<Rightarrow> 'a list" where
  "flat es = concat (map (\<lambda>(k, v). [k, v]) es)"

lemma flat_facts:
  "length (flat es) = length es * 2" "concat (map enc (flat es)) = concat (map (\<lambda>(k, v). enc k @ enc v) es)"
  "pair_up (map t (flat es)) = map (\<lambda>(k, v). (t k, t v)) es" "set (flat es) = fst ` set es \<union> snd ` set es"
  by (induction es) (auto simp: flat_def)

lemma transit_array_unmarked:
  "unmarked items \<Longrightarrow> transit_array (map (transit_of x) items) = TvArray (map (transit_of x) items)"
proof (cases items)
  case (Cons v r)
  assume "unmarked items"
  then show ?thesis
    unfolding Cons by (cases v; cases r; cases "tl r"; cases "hd r") (auto simp: unmarked_def transit_array_def)
qed (simp add: transit_array_def)

lemma rust_div_i64: "i64_ok m \<Longrightarrow> i64_ok (rust_div m 1000)"
  using rust_div_rem(1) [of 1000 m] by (auto simp: i64_ok_def rust_div_pos)

lemma show_int_ascii: "list_all (\<lambda>c. of_char c \<le> (0x7F :: nat)) (show_int i)"
  using show_nat_digits [of "nat i"] show_nat_digits [of "nat (- i)"]
  by (fastforce simp: show_int_def is_digit_iff list_all_iff)

lemma length_show_nat: "n < 10 ^ Suc k \<Longrightarrow> length (show_nat n) \<le> Suc k"
proof (induction k arbitrary: n)
  case 0
  then show ?case by (subst show_nat.simps) simp
next
  case (Suc k)
  show ?case
  proof (cases "n < 10")
    case False
    have "length (show_nat (n div 10)) \<le> Suc k" using Suc by (simp add: less_mult_imp_div_less)
    then show ?thesis using False by (subst show_nat.simps) simp
  qed (subst show_nat.simps, simp)
qed

lemma length_show_int:
  assumes "i64_ok i"
  shows "length (show_int i) \<le> 20"
proof -
  have n: "nat \<bar>i\<bar> < 10 ^ Suc 18" using assms by (simp add: i64_ok_def nat_less_iff abs_less_iff)
  then show ?thesis using length_show_nat [OF n] by (auto simp: show_int_def split: if_splits)
qed

lemma read_pair:
  assumes "d \<le> MAX_NESTING_DEPTH" "msgpack_read_value_bounded x (a @ q) (d + 1) = Inr (u, q)"
    and "msgpack_read_value_bounded x q (d + 1) = Inr (w, r)"
  shows "msgpack_read_value_bounded x (msgpack_write_array_len 2 @ a @ q) d = Inr (transit_array [u, w], r)"
proof -
  have "read_values (\<lambda>b. msgpack_read_value_bounded x b (d + 1)) 2 (a @ q) = Inr ([u, w], r)"
    using assms(2,3) by (simp add: numeral_2_eq_2)
  then show ?thesis using assms(1) by (simp add: read_array msgpack_read_transit_array_def)
qed

lemma read_value_to_msgpack:
  "wire_ok x d v \<Longrightarrow> msgpack_read_value_bounded x (value_to_msgpack x v @ r) d = Inr (transit_of x v, r)"
proof (induction x v arbitrary: d r rule: value_to_msgpack.induct)
  case (3 x s)
  then show ?case by (cases s) (auto simp: read_str decode_escaped decode_untagged utf8_ascii)
next
  case (5 x f)
  then show ?case by (simp add: msgpack_write_f64_def read_Cons read_tagged_def ensure_len_def)
next
  case (6 x k)
  then show ?case by (simp add: read_str utf8_ascii decode_tags)
next
  case (7 x micros)
  have "from_utf8 (''~m'' @ show_int (rust_div micros 1000))" by (rule utf8_ascii_list) (simp add: show_int_ascii)
  moreover have "length (''~m'' @ show_int (rust_div micros 1000)) < 2 ^ 32"
    using 7 length_show_int [OF rust_div_i64, of micros] by simp
  ultimately show ?case using 7 by (simp add: read_str decode_tags rust_div_i64)
next
  case (8 x u)
  then show ?case by (auto simp: read_str utf8_ascii decode_tags)
next
  case (9 x items)
  let ?rd = "\<lambda>d b. msgpack_read_value_bounded x b d"
  have items: "\<And>v r. v \<in> set items \<Longrightarrow> ?rd (d + 2) (value_to_msgpack x v @ r) = Inr (transit_of x v, r)"
    using 9 by (auto simp: list_all_iff)
  have "read_values (?rd (d + 2)) (length items) (concat (map (value_to_msgpack x) items) @ r) = Inr (map (transit_of x) items, r)"
    by (rule read_values_concat [OF items])
  then have "?rd (d + 1) (msgpack_write_array_len (length items) @ concat (map (value_to_msgpack x) items) @ r)
      = Inr (TvArray (map (transit_of x) items), r)"
    using 9(2) transit_array_unmarked [of items x] by (simp add: read_array msgpack_read_transit_array_def)
  from read_pair [of d x "msgpack_write_str ''~#list''", OF _ _ this] show ?case
    using 9(2) by (simp add: read_str utf8_ascii_list decode_tags transit_array_def)
next
  case (10 x items)
  have items: "\<And>v r. v \<in> set items \<Longrightarrow> msgpack_read_value_bounded x (value_to_msgpack x v @ r) (d + 1) = Inr (transit_of x v, r)"
    using 10 by (auto simp: list_all_iff)
  have "read_values (\<lambda>b. msgpack_read_value_bounded x b (d + 1)) (length items) (concat (map (value_to_msgpack x) items) @ r)
      = Inr (map (transit_of x) items, r)"
    by (rule read_values_concat [OF items])
  then show ?case using 10(2) transit_array_unmarked [of items x]
    by (simp add: read_array msgpack_read_transit_array_def)
next
  case (11 x entries)
  let ?rd = "\<lambda>b. msgpack_read_value_bounded x b (d + 1)"
  have items: "\<And>v r. v \<in> set (flat entries) \<Longrightarrow> ?rd (value_to_msgpack x v @ r) = Inr (transit_of x v, r)"
    using 11 by (fastforce simp: flat_facts list_all_iff)
  have "read_values ?rd (length (flat entries)) (concat (map (value_to_msgpack x) (flat entries)) @ r) = Inr (map (transit_of x) (flat entries), r)"
    by (rule read_values_concat [OF items])
  moreover have "?rd (msgpack_write_str ''^ '' @ q) = Inr (TvString ''^ '', q)" for q
    using 11 by (simp add: read_str utf8_ascii_list decode_tags)
  ultimately show ?case
    using 11 by (simp add: read_array msgpack_read_transit_array_def transit_array_def flat_facts)
next
  case (12 x db_id basis_t)
  let ?rd = "\<lambda>d b. msgpack_read_value_bounded x b d"
  have "?rd (d + 1) (msgpack_write_array_len 2 @ msgpack_write_str db_id @ msgpack_write_i64 basis_t @ r)
      = Inr (transit_array [TvString db_id, TvInteger basis_t], r)"
    by (rule read_pair) (use 12 in \<open>simp_all add: read_str read_i64 decode_untagged\<close>)
  from read_pair [of d x "msgpack_write_str ''~#db''", OF _ _ this] show ?case
    using 12 by (simp add: read_str utf8_ascii_list decode_tags transit_array_def)
qed (simp_all add: read_Cons read_tagged_def read_i64)

text \<open>An array of values that are read one by one.\<close>

lemma read_list:
  assumes "d \<le> MAX_NESTING_DEPTH" "length as < 2 ^ 32"
    and "\<And>a t q. (a, t) \<in> set as \<Longrightarrow> msgpack_read_value_bounded x (a @ q) (d + 1) = Inr (t, q)"
  shows "msgpack_read_value_bounded x (msgpack_write_array_len (length as) @ concat (map fst as) @ r) d = Inr (transit_array (map snd as), r)"
proof -
  have "read_values (\<lambda>b. msgpack_read_value_bounded x b (d + 1)) (length as) (concat (map fst as) @ r) = Inr (map snd as, r)"
    by (rule read_values_concat) (use assms(3) in auto)
  then show ?thesis using assms(1,2) by (simp add: read_array msgpack_read_transit_array_def)
qed

text \<open>C10. What the encoder writes the decoder reads back: for a response value within the limits of the
  format, the decoder of Transit over MessagePack gives the corresponding Transit value and leaves
  the bytes that follow.  The value must not have a sequence that starts like a map or a tagged
  value.\<close>

theorem msgpack_roundtrip:
  assumes "wire_ok x 1 v"
  shows "msgpack_read_value_bounded x (serialize_transit_msgpack x (Success v) @ r) 0
    = Inr (TvMap [(TvKeyword ''result'', transit_of x v)], r)"
proof -
  let ?as = "[(msgpack_write_str ''^ '', TvString ''^ ''), (msgpack_write_str ''~:result'', TvKeyword ''result''), (value_to_msgpack x v, transit_of x v)]"
  have "msgpack_read_value_bounded x (msgpack_write_array_len (length ?as) @ concat (map fst ?as) @ r) 0 = Inr (transit_array (map snd ?as), r)"
    by (rule read_list) (use assms in \<open>auto simp: MAX_NESTING_DEPTH_def read_str utf8_ascii_list decode_tags read_value_to_msgpack\<close>)
  then show ?thesis by (simp add: transit_array_def numeral_3_eq_3)
qed

text \<open>C33. The encoding of a vector is ambiguous: a vector whose first element is the string that marks maps
  is decoded as a map of its other elements, although the encoder escapes the string.\<close>

theorem msgpack_vector_read_as_map:
  assumes "d \<le> MAX_NESTING_DEPTH" "length items < 2 ^ 32 - 1" "list_all (wire_ok x (d + 1)) (RString ''^ '' # items)"
  shows "msgpack_read_value_bounded x (value_to_msgpack x (RVector (RString ''^ '' # items)) @ r) d
    = Inr (TvMap (pair_up (map (transit_of x) items)), r)"
proof -
  let ?as = "map (\<lambda>v. (value_to_msgpack x v, transit_of x v)) (RString ''^ '' # items)"
  have "msgpack_read_value_bounded x (msgpack_write_array_len (length ?as) @ concat (map fst ?as) @ r) d = Inr (transit_array (map snd ?as), r)"
    by (rule read_list) (use assms in \<open>auto simp: read_value_to_msgpack list_all_iff read_str utf8_ascii_list decode_escaped\<close>)
  then show ?thesis by (simp add: transit_array_def comp_def)
qed

section \<open>What is decoded\<close>

fun tv_depth :: "transit_value \<Rightarrow> nat" where
  "tv_depth (TvArray vs) = Suc (foldr max (map tv_depth vs) 0)"
| "tv_depth (TvMap es) = Suc (foldr max (map (\<lambda>(k, v). max (tv_depth k) (tv_depth v)) es) 0)"
| "tv_depth _ = 0"

lemma foldr_max: "foldr max ns (0::nat) \<le> n \<longleftrightarrow> (\<forall>m\<in>set ns. m \<le> n)"
  by (induction ns) auto

lemma pair_up_set: "(k, v) \<in> set (pair_up vs) \<Longrightarrow> k \<in> set vs \<and> v \<in> set vs"
  by (induction vs rule: pair_up.induct) auto

lemma transit_array_depth:
  assumes "\<forall>v\<in>set vs. tv_depth v \<le> n"
  shows "tv_depth (transit_array vs) \<le> Suc n"
proof -
  have "tv_depth (TvArray vs) \<le> Suc n" using assms by (auto simp: foldr_max)
  moreover have "tv_depth (TvMap (pair_up r)) \<le> Suc n" if "vs = v # r" for v r
    using assms pair_up_set [of _ _ r] unfolding that by (fastforce simp: foldr_max)
  ultimately show ?thesis using assms
    by (auto simp: transit_array_def split: list.splits transit_value.splits)
qed

definition reads_within :: "nat \<Rightarrow> (string \<Rightarrow> (msgpack_error, transit_value \<times> string) result) \<Rightarrow> bool" where
  "reads_within n rd \<longleftrightarrow> (\<forall>b v r. rd b = Inr (v, r) \<longrightarrow> suffix r b \<and> tv_depth v \<le> n)"

lemma read_values_within:
  "reads_within n rd \<Longrightarrow> read_values rd k buf = Inr (vs, r) \<Longrightarrow> suffix r buf \<and> (\<forall>v\<in>set vs. tv_depth v \<le> n)"
proof (induction k arbitrary: buf vs)
  case (Suc k)
  obtain v buf' ws where "rd buf = Inr (v, buf')" "read_values rd k buf' = Inr (ws, r)" "vs = v # ws"
    using Suc.prems(2) by (auto simp: result_simps)
  then show ?case using Suc.IH [OF Suc.prems(1)] Suc.prems(1)
    by (fastforce simp: reads_within_def intro: suffix_order.trans)
qed simp

lemma read_pairs_within:
  "reads_within n rd \<Longrightarrow> read_pairs rd k buf = Inr (es, r) \<Longrightarrow> suffix r buf \<and> tv_depth (TvMap es) \<le> Suc n"
proof (induction k arbitrary: buf es)
  case (Suc k)
  obtain a b1 v b2 fs where rd: "rd buf = Inr (a, b1)" "rd b1 = Inr (v, b2)" "read_pairs rd k b2 = Inr (fs, r)" "es = (a, v) # fs"
    using Suc.prems(2) by (auto simp: result_simps)
  have "suffix b1 buf" "tv_depth a \<le> n" "suffix b2 b1" "tv_depth v \<le> n"
    using Suc.prems(1) rd(1,2) unfolding reads_within_def by blast+
  moreover have "suffix r b2" "tv_depth (TvMap fs) \<le> Suc n" using Suc.IH [OF Suc.prems(1) rd(3)] by simp_all
  ultimately show ?case unfolding rd(4) using suffix_order.trans by simp
qed simp

lemma decode_string_depth [simp]: "tv_depth (decode_transit_tagged_string x s) = 0"
  by (simp add: decode_transit_tagged_string_def decode_special_float_def split: option.splits)

lemma helpers_within:
  "read_be k buf = Inr (n, r) \<Longrightarrow> suffix r buf"
  "read_text x k buf = Inr (v, r) \<Longrightarrow> suffix r buf \<and> tv_depth v = 0"
  "read_bin x k buf = Inr (v, r) \<Longrightarrow> suffix r buf \<and> tv_depth v = 0"
  "reads_within m rd \<Longrightarrow> msgpack_read_transit_array rd buf k = Inr (v, r) \<Longrightarrow> suffix r buf \<and> tv_depth v \<le> Suc m"
  "reads_within m rd \<Longrightarrow> msgpack_read_map rd buf k = Inr (v, r) \<Longrightarrow> suffix r buf \<and> tv_depth v \<le> Suc m"
proof -
  show "read_be k buf = Inr (n, r) \<Longrightarrow> suffix r buf"
    by (auto simp: read_be_def result_simps suffix_drop)
  show "read_text x k buf = Inr (v, r) \<Longrightarrow> suffix r buf \<and> tv_depth v = 0"
    by (auto simp: read_text_def result_simps suffix_drop split: if_splits)
  show "read_bin x k buf = Inr (v, r) \<Longrightarrow> suffix r buf \<and> tv_depth v = 0"
    by (auto simp: read_bin_def result_simps suffix_drop)
  show "reads_within m rd \<Longrightarrow> msgpack_read_transit_array rd buf k = Inr (v, r) \<Longrightarrow> suffix r buf \<and> tv_depth v \<le> Suc m"
    using read_values_within transit_array_depth by (fastforce simp: msgpack_read_transit_array_def result_simps)
  show "reads_within m rd \<Longrightarrow> msgpack_read_map rd buf k = Inr (v, r) \<Longrightarrow> suffix r buf \<and> tv_depth v \<le> Suc m"
    using read_pairs_within by (fastforce simp: msgpack_read_map_def result_simps)
qed

lemma read_tagged_within:
  assumes "reads_within n rd" "read_tagged x rd b rest = Inr (v, r)"
  shows "suffix r rest \<and> tv_depth v \<le> Suc n"
proof -
  note rules = helpers_within(1-3) helpers_within(4,5) [OF assms(1)]
  have be: "P" if "rbind (read_be k rest) (\<lambda>(n, q). f n q) = Inr (v, r)"
      "\<And>n q. suffix q rest \<Longrightarrow> f n q = Inr (v, r) \<Longrightarrow> P" for k f P
    using that helpers_within(1) by (fastforce simp: result_simps)
  show ?thesis
    using assms(2) unfolding read_tagged_def
    by (auto split: if_splits elim!: be dest!: rules simp: result_simps suffix_drop intro: suffix_order.trans)
qed

text \<open>C24. The decoder stays within its input and within its limit on nesting, whatever the bytes: when it
  returns a value, the bytes that remain are a proper suffix of the input, and the value has at most
  65 levels of arrays and maps.\<close>

theorem msgpack_read_bounds:
  assumes "msgpack_read_value_bounded x buf depth = Inr (v, r)"
  shows "strict_suffix r buf \<and> tv_depth v + depth \<le> 65"
  using assms
proof (induction x buf depth arbitrary: v r rule: msgpack_read_value_bounded.induct)
  case (1 x buf depth)
  then obtain first rest where buf: "buf = first # rest" and d: "depth \<le> MAX_NESTING_DEPTH"
    by (subst (asm) (2) msgpack_read_value_bounded.simps) (auto split: if_splits list.splits)
  have "reads_within (64 - depth) (\<lambda>b. msgpack_read_value_bounded x b (depth + 1))"
    using "1.IH" [OF _ buf] d unfolding reads_within_def by (fastforce simp: strict_suffix_def)
  moreover have "read_tagged x (\<lambda>b. msgpack_read_value_bounded x b (depth + 1)) (of_char first) rest = Inr (v, r)"
    using 1(2) d by (simp add: buf read_Cons)
  ultimately have "suffix r rest \<and> tv_depth v \<le> Suc (64 - depth)" by (rule read_tagged_within)
  then show ?case using d by (auto simp: buf MAX_NESTING_DEPTH_def strict_suffix_def suffix_Cons dest: suffix_length_le)
qed

section \<open>The example\<close>

definition sample_wire :: wire where
  "sample_wire = \<lparr>rfc3339 = \<lambda>_. [], hyphenated = id, hex_encode = id, show_f64 = \<lambda>_. [],
     timestamp_opt = \<lambda>s n. Some (DateTime s n), parse_f64 = \<lambda>_. NaN, parse_rfc3339 = \<lambda>_. None, parse_uuid = Some, hex_decode = Some,
     f64_to_be = \<lambda>_. replicate 8 (CHR 0x00), f64_from_be = \<lambda>_. PosInfinity, f32_from_be = \<lambda>_. NaN\<rparr>"

definition sample_response :: response_value where
  "sample_response = RMap [(RKeyword ''k'', RVector [RInteger (- 5), RInteger 70000, RString ''~a'', RFloat PosInfinity]),
     (RString ''^b'', RList [RUuid ''u'', RInstant 1234567, RDbSnapshot ''d'' 7, RBoolean True, RNil])]"

theorem msgpack_roundtrip_witness:
  "wire_ok sample_wire 1 sample_response
    \<and> msgpack_read_value_bounded sample_wire (serialize_transit_msgpack sample_wire (Success sample_response) @ ''x'') 0
      = Inr (TvMap [(TvKeyword ''result'', transit_of sample_wire sample_response)], ''x'')"
proof -
  have "wire_ok sample_wire 1 sample_response"
    by (simp add: sample_response_def sample_wire_def utf8_ascii_list unmarked_def i64_ok_def MAX_NESTING_DEPTH_def)
  then show ?thesis using msgpack_roundtrip by blast
qed

theorem msgpack_vector_read_as_map_witness:
  "msgpack_read_value_bounded sample_wire (value_to_msgpack sample_wire (RVector [RString ''^ '', RString ''a'', RInteger 1]) @ []) 0
    = Inr (TvMap [(TvString ''a'', TvInteger 1)], [])"
proof -
  have "list_all (wire_ok sample_wire (0 + 1)) (RString ''^ '' # [RString ''a'', RInteger 1])"
    by (simp add: utf8_ascii_list i64_ok_def MAX_NESTING_DEPTH_def)
  from msgpack_vector_read_as_map [OF _ _ this, of "[]"] show ?thesis by (simp add: MAX_NESTING_DEPTH_def)
qed

theorem msgpack_read_bounds_witness:
  "msgpack_read_value_bounded sample_wire [CHR 0x91, CHR 0x91, CHR 0x05, CHR ''x''] 0 = Inr (TvArray [TvArray [TvInteger 5]], ''x'')
    \<and> strict_suffix ''x'' [CHR 0x91, CHR 0x91, CHR 0x05, CHR ''x''] \<and> tv_depth (TvArray [TvArray [TvInteger 5]]) + 0 \<le> 65"
proof -
  have "msgpack_read_value_bounded sample_wire [CHR 0x91, CHR 0x91, CHR 0x05, CHR ''x''] 0 = Inr (TvArray [TvArray [TvInteger 5]], ''x'')"
    by code_simp
  then show ?thesis using msgpack_read_bounds by blast
qed

end
