(* ===== verification/Json.thy ===== *)
theory Json
  imports Edn_Value
begin

text \<open>
  JSON values as the crate \<open>serde_json\<close> has them.  An object is the list of its entries; the crate
  keeps them in a \<open>BTreeMap\<close>, so an object that is built by insertion is ascending in its keys.
  A number is an integer or a floating-point number; \<open>json!\<close> of a float that is not finite is \<open>null\<close>.
\<close>

section \<open>JSON\<close>

datatype json_number = JInt int | JFloat f64

datatype json =
    JNull
  | JBool bool
  | JNumber json_number
  | JString string
  | JArray "json list"
  | JObject "(string \<times> json) list"

primrec as_i64 :: "json_number \<Rightarrow> int option" where
  "as_i64 (JInt i) = (if i64_ok i then Some i else None)"
| "as_i64 (JFloat f) = None"

primrec as_u64 :: "json_number \<Rightarrow> int option" where
  "as_u64 (JInt i) = (if 0 \<le> i \<and> i < 2 ^ 64 then Some i else None)"
| "as_u64 (JFloat f) = None"

definition value_as_i64 :: "json \<Rightarrow> int option" where
  "value_as_i64 v = (case v of JNumber n \<Rightarrow> as_i64 n | _ \<Rightarrow> None)"

definition value_as_str :: "json \<Rightarrow> string option" where
  "value_as_str v = (case v of JString s \<Rightarrow> Some s | _ \<Rightarrow> None)"

definition value_as_array :: "json \<Rightarrow> json list option" where
  "value_as_array v = (case v of JArray vs \<Rightarrow> Some vs | _ \<Rightarrow> None)"

definition json_get :: "string \<Rightarrow> json \<Rightarrow> json option" where
  "json_get k v = (case v of JObject m \<Rightarrow> map_of m k | _ \<Rightarrow> None)"

lemma size_json_pairs [termination_simp]: "(k, v) \<in> set es \<Longrightarrow> size v < Suc (size_list (size_prod (\<lambda>_. 0) size) es)"
  by (induction es) auto

definition json_int :: "int \<Rightarrow> json" where
  "json_int i = JNumber (JInt i)"

definition json_f64 :: "f64 \<Rightarrow> json" where
  "json_f64 f = (case f of Finite q \<Rightarrow> JNumber (JFloat f) | _ \<Rightarrow> JNull)"

type_synonym json_map = "(string \<times> json) list"

definition json_insert :: "string \<Rightarrow> json \<Rightarrow> json_map \<Rightarrow> json_map" where
  "json_insert = bt_insert str_cmp"

definition json_lookup :: "string \<Rightarrow> json_map \<Rightarrow> json option" where
  "json_lookup = bt_get str_cmp"

end
