(* ===== verification/Daemon.thy ===== *)
theory Daemon
  imports Query_Cache Sessions Msgpack Json
begin

text \<open>
  The request handlers of the daemon that keep state (\<open>mentatd/src/server.rs\<close>): queries and pulls
  through the query cache, transactions with retries and cache invalidation, database snapshots, and
  the circuit breaker in front of them.

  The database server is the record \<open>backend\<close>: what the SQL functions of the extension return on a
  state of the database.  The parser and the printer of \<open>serde_json\<close> are in the record too.
\<close>

section \<open>The database server\<close>

text \<open>How a call of the database fails: no connection from the pool, or an error with an SQL state.\<close>

datatype sql_failure =
    PoolFailure string
  | SerializationFailure
  | DeadlockDetected
  | UniqueViolation string
  | OtherFailure string

record ('db, 'c) backend = "'c lru_ops" +
  from_str :: "string \<Rightarrow> string + json"
  to_string :: "json \<Rightarrow> string"
  as_f64 :: "json_number \<Rightarrow> f64 option"
  number_text :: "json_number \<Rightarrow> string"
  mentat_query :: "'db \<Rightarrow> string \<Rightarrow> json \<Rightarrow> (sql_failure, json) result"
  mentat_pull :: "'db \<Rightarrow> string \<Rightarrow> int \<Rightarrow> (sql_failure, json) result"
  basis_of :: "'db \<Rightarrow> int"

datatype server_error =
    Pool string
  | Database sql_failure
  | Internal string
  | Conflict nat
  | UniqueError string
  | CircuitBreakerOpen "64 word" nat

definition raised :: "sql_failure \<Rightarrow> server_error" where
  "raised err = (case err of PoolFailure e \<Rightarrow> Pool e | _ \<Rightarrow> Database err)"

section \<open>Values of a response\<close>

definition tagged_value :: "('db, 'c) backend \<Rightarrow> (string \<times> json) list \<Rightarrow> response_value option" where
  "tagged_value x obj =
     (case map_of obj ''_t'' of
        Some (JString tag) \<Rightarrow>
          if tag = ''inst'' then map_option RInstant (Option.bind (map_of obj ''v'') value_as_i64)
          else if tag = ''uuid'' then map_option RUuid (Option.bind (map_of obj ''v'') value_as_str)
          else if tag = ''double'' then map_option RFloat (Option.bind (map_of obj ''v'') (\<lambda>v. case v of JNumber n \<Rightarrow> as_f64 x n | _ \<Rightarrow> None))
          else None
      | _ \<Rightarrow> None)"

definition number_to_response :: "('db, 'c) backend \<Rightarrow> json_number \<Rightarrow> response_value" where
  "number_to_response x n =
     (case as_i64 n of Some i \<Rightarrow> RInteger i | None \<Rightarrow>
      case as_u64 n of Some u \<Rightarrow> if u < 2 ^ 63 then RInteger u else RString (show_int u) | None \<Rightarrow>
      case as_f64 x n of Some f \<Rightarrow> RFloat f | None \<Rightarrow> RString (number_text x n))"

fun json_to_response_value :: "('db, 'c) backend \<Rightarrow> json \<Rightarrow> response_value" where
  "json_to_response_value x (JString s) = (case strip_prefix '':'' s of Some r \<Rightarrow> RKeyword r | None \<Rightarrow> RString s)"
| "json_to_response_value x (JNumber n) = number_to_response x n"
| "json_to_response_value x (JBool b) = RBoolean b"
| "json_to_response_value x JNull = RNil"
| "json_to_response_value x (JArray vs) = RVector (map (json_to_response_value x) vs)"
| "json_to_response_value x (JObject obj) =
     (case tagged_value x obj of
        Some v \<Rightarrow> v
      | None \<Rightarrow> RMap (map (\<lambda>(k, v). (RKeyword k, json_to_response_value x v)) obj))"

definition parse_query_results :: "('db, 'c) backend \<Rightarrow> json \<Rightarrow> (server_error, response_value list) result" where
  "parse_query_results x j =
     rbind (of_option (Internal ''Missing 'results' in query response'') (Option.bind (json_get ''results'' j) value_as_array))
       (mapR (\<lambda>row. rbind (of_option (Internal ''Expected array for result row'') (value_as_array row))
          (\<lambda>cols. Inr (RVector (map (json_to_response_value x) cols)))))"

text \<open>The entities of a result and of a transaction report.\<close>

definition extract_result_entities :: "json \<Rightarrow> int set" where
  "extract_result_entities j =
     (case Option.bind (json_get ''results'' j) value_as_array of
        None \<Rightarrow> {}
      | Some rows \<Rightarrow> set (List.map_filter value_as_i64 (concat (List.map_filter value_as_array rows))))"

definition extract_changed_entities :: "('db, 'c) backend \<Rightarrow> string \<Rightarrow> int list" where
  "extract_changed_entities x report_str =
     (case from_str x report_str of
        Inl e \<Rightarrow> []
      | Inr report \<Rightarrow>
          case Option.bind (json_get ''tx-data'' report) value_as_array of
            None \<Rightarrow> []
          | Some tx_data \<Rightarrow>
              id_order x (set (List.map_filter (\<lambda>arr. case arr of [] \<Rightarrow> None | v # _ \<Rightarrow> value_as_i64 v)
                (List.map_filter value_as_array tx_data))))"

fun collect_entity_ids_from_json :: "json \<Rightarrow> int set" where
  "collect_entity_ids_from_json (JNumber n) = (case as_i64 n of Some i \<Rightarrow> {i} | None \<Rightarrow> {})"
| "collect_entity_ids_from_json (JArray vs) = \<Union> (set (map collect_entity_ids_from_json vs))"
| "collect_entity_ids_from_json (JObject m) = \<Union> (set (map (\<lambda>(k, v). collect_entity_ids_from_json v) m))"
| "collect_entity_ids_from_json _ = {}"

section \<open>Queries, pulls and transactions\<close>

record 'c app_state =
  query_cache :: "'c query_cache"
  db_cache :: db_value_cache

definition args_value :: "string list \<Rightarrow> json" where
  "args_value args = JArray (map JString args)"

definition query_inputs :: "string list \<Rightarrow> int option \<Rightarrow> json" where
  "query_inputs args basis_t = (case basis_t of
       Some t \<Rightarrow> JObject [(''inputs'', args_value args), (''asOf'', JNumber (JInt t))]
     | None \<Rightarrow> args_value args)"

definition cache_key_suffix :: "('db, 'c) backend \<Rightarrow> string list \<Rightarrow> int option \<Rightarrow> string" where
  "cache_key_suffix x args basis_t = (case basis_t of
       Some t \<Rightarrow> to_string x (args_value args) @ ''@'' @ show_int t
     | None \<Rightarrow> to_string x (args_value args))"

definition lru_of :: "('db, 'c) backend \<Rightarrow> 'c lru_ops" where
  "lru_of x = lru_ops.truncate x"

text \<open>A query once the basis is known: \<open>t0\<close> is the time of the lookup, \<open>t1\<close> that of the insertion.\<close>

definition run_query ::
  "('db, 'c) backend \<Rightarrow> nat \<Rightarrow> nat \<Rightarrow> 'db \<Rightarrow> string \<Rightarrow> string list \<Rightarrow> int option \<Rightarrow> 'c query_cache
    \<Rightarrow> (server_error, response_value) result \<times> 'c query_cache" where
  "run_query x t0 t1 db query args basis_t qc =
     (let suffix = cache_key_suffix x args basis_t in
      case get_cached (lru_of x) t0 query suffix qc of
        (Some cached_json, qc1) \<Rightarrow>
          ((case from_str x cached_json of
              Inl e \<Rightarrow> Inl (Internal (''Failed to parse cached result: '' @ e))
            | Inr j \<Rightarrow> rbind (parse_query_results x j) (\<lambda>rows. Inr (RVector rows))), qc1)
      | (None, qc1) \<Rightarrow>
          case mentat_query x db query (query_inputs args basis_t) of
            Inl err \<Rightarrow> (Inl (raised err), qc1)
          | Inr j \<Rightarrow>
              (rbind (parse_query_results x j) (\<lambda>rows. Inr (RVector rows)),
               insert_with_deps (lru_of x) t1 query suffix (to_string x j) (extract_result_entities j) qc1))"

definition execute_query ::
  "('db, 'c) backend \<Rightarrow> nat \<Rightarrow> nat \<Rightarrow> 'db \<Rightarrow> string \<Rightarrow> string list \<Rightarrow> string option \<Rightarrow> 'c app_state
    \<Rightarrow> (server_error, response_value) result \<times> 'c app_state" where
  "execute_query x t0 t1 db query args db_id st =
     (case db_id of
        None \<Rightarrow> (case run_query x t0 t1 db query args None (query_cache st) of (r, qc) \<Rightarrow> (r, st\<lparr>query_cache := qc\<rparr>))
      | Some i \<Rightarrow>
          case get_basis_t t0 t0 i (db_cache st) of
            (None, dc) \<Rightarrow> (Inl (Internal (''Invalid or expired db-id: '' @ i)), st\<lparr>db_cache := dc\<rparr>)
          | (Some t, dc) \<Rightarrow>
              case run_query x t0 t1 db query args (Some t) (query_cache st) of
                (r, qc) \<Rightarrow> (r, st\<lparr>query_cache := qc, db_cache := dc\<rparr>))"

definition execute_pull ::
  "('db, 'c) backend \<Rightarrow> nat \<Rightarrow> nat \<Rightarrow> 'db \<Rightarrow> string \<Rightarrow> int \<Rightarrow> 'c query_cache
    \<Rightarrow> (server_error, response_value) result \<times> 'c query_cache" where
  "execute_pull x t0 t1 db pattern entity_id qc =
     (let query = ''__pull__:'' @ pattern; args = show_int entity_id in
      case get_cached (lru_of x) t0 query args qc of
        (Some cached_json, qc1) \<Rightarrow>
          ((case from_str x cached_json of
              Inl e \<Rightarrow> Inl (Internal (''Failed to parse cached pull: '' @ e))
            | Inr j \<Rightarrow> Inr (json_to_response_value x j)), qc1)
      | (None, qc1) \<Rightarrow>
          case mentat_pull x db pattern entity_id of
            Inl err \<Rightarrow> (Inl (raised err), qc1)
          | Inr j \<Rightarrow>
              (Inr (json_to_response_value x j),
               insert_with_deps (lru_of x) t1 query args (to_string x j) (insert entity_id (collect_entity_ids_from_json j)) qc1))"

text \<open>Transactions: \<open>run k\<close> is what the \<open>k\<close>-th attempt gives, the first having number 0.\<close>

definition MAX_TRANSACT_RETRIES :: nat where "MAX_TRANSACT_RETRIES = 3"

function transact_attempts :: "(nat \<Rightarrow> (sql_failure, string) result) \<Rightarrow> nat \<Rightarrow> (server_error, string) result \<times> nat" where
  "transact_attempts run attempt =
     (case run attempt of
        Inr report \<Rightarrow> (Inr report, attempt)
      | Inl err \<Rightarrow>
          if err = SerializationFailure \<or> err = DeadlockDetected then
            if attempt \<ge> MAX_TRANSACT_RETRIES then (Inl (Conflict (attempt + 1)), attempt)
            else transact_attempts run (attempt + 1)
          else (case err of UniqueViolation detail \<Rightarrow> (Inl (UniqueError detail), attempt) | _ \<Rightarrow> (Inl (raised err), attempt)))"
  by pat_completeness auto
termination
  by (relation "measure (\<lambda>(run, attempt). MAX_TRANSACT_RETRIES - attempt)") auto

declare transact_attempts.simps [simp del]

definition invalidate_for :: "('db, 'c) backend \<Rightarrow> string \<Rightarrow> 'c query_cache \<Rightarrow> 'c query_cache" where
  "invalidate_for x report_str qc =
     (let changed = extract_changed_entities x report_str in
      if changed = [] then invalidate_all (lru_of x) qc
      else snd (invalidate_entities (lru_of x) changed qc))"

text \<open>The report of a transaction as a response.\<close>

definition report_entry :: "('db, 'c) backend \<Rightarrow> json \<Rightarrow> string \<Rightarrow> (response_value \<times> response_value) list" where
  "report_entry x report k = (case json_get k report of None \<Rightarrow> [] | Some v \<Rightarrow> [(RKeyword k, json_to_response_value x v)])"

definition tempids_entry :: "('db, 'c) backend \<Rightarrow> json \<Rightarrow> (response_value \<times> response_value) list" where
  "tempids_entry x report = (case json_get ''tempids'' report of
       None \<Rightarrow> []
     | Some (JObject m) \<Rightarrow> [(RKeyword ''tempids'', RMap (map (\<lambda>(k, v). (RString k, json_to_response_value x v)) m))]
     | Some v \<Rightarrow> [(RKeyword ''tempids'', json_to_response_value x v)])"

definition parse_tx_report :: "('db, 'c) backend \<Rightarrow> string \<Rightarrow> (server_error, response_value) result" where
  "parse_tx_report x report_str =
     (case from_str x report_str of
        Inl e \<Rightarrow> Inl (Internal (''Failed to parse tx report: '' @ e))
      | Inr report \<Rightarrow> Inr (RMap (report_entry x report ''db-before'' @ report_entry x report ''db-after'' @ report_entry x report ''tx-data''
          @ tempids_entry x report @ report_entry x report ''tx-id'' @ report_entry x report ''tx-instant'' @ report_entry x report ''datoms-inserted'')))"

definition execute_transact ::
  "('db, 'c) backend \<Rightarrow> (nat \<Rightarrow> (sql_failure, string) result) \<Rightarrow> 'c query_cache \<Rightarrow> (server_error, response_value) result \<times> 'c query_cache" where
  "execute_transact x run qc =
     (case fst (transact_attempts run 0) of
        Inl err \<Rightarrow> (Inl err, qc)
      | Inr report_str \<Rightarrow>
          case parse_tx_report x report_str of
            Inl err \<Rightarrow> (Inl err, qc)
          | Inr r \<Rightarrow> (Inr r, invalidate_for x report_str qc))"

text \<open>Snapshots of the database.\<close>

definition execute_db_snapshot :: "('db, 'c) backend \<Rightarrow> string \<Rightarrow> nat \<Rightarrow> 'db \<Rightarrow> 'c app_state \<Rightarrow> response_value \<times> 'c app_state" where
  "execute_db_snapshot x uuid now db st =
     (case create_snapshot uuid now (basis_of x db) (db_cache st) of (db_id, dc) \<Rightarrow> (RDbSnapshot db_id (basis_of x db), st\<lparr>db_cache := dc\<rparr>))"

section \<open>The circuit breaker\<close>

record breaker =
  error_count :: "64 word"
  last_reset :: nat
  threshold :: "64 word"
  window_secs :: nat

definition nanos_per_sec :: nat where "nanos_per_sec = 1000000000"

definition maybe_reset :: "nat \<Rightarrow> breaker \<Rightarrow> breaker" where
  "maybe_reset now b = (if now - last_reset b > window_secs b * nanos_per_sec then b\<lparr>error_count := 0, last_reset := now\<rparr> else b)"

definition record_error :: "nat \<Rightarrow> breaker \<Rightarrow> 64 word \<times> breaker" where
  "record_error now b = (let b' = maybe_reset now b in (error_count b' + 1, b'\<lparr>error_count := error_count b' + 1\<rparr>))"

definition should_reject :: "nat \<Rightarrow> breaker \<Rightarrow> bool \<times> breaker" where
  "should_reject now b = (let b' = maybe_reset now b in (error_count b' > threshold b', b'))"

text \<open>A request as the handler treats it: rejected when the breaker is open, else executed, and counted
  when it fails for a reason of the database or an internal one.  Health checks are never rejected.\<close>

definition counts :: "server_error \<Rightarrow> bool" where
  "counts err \<longleftrightarrow> (case err of Pool e \<Rightarrow> True | Database e \<Rightarrow> True | Internal m \<Rightarrow> True | _ \<Rightarrow> False)"

definition guarded ::
  "bool \<Rightarrow> nat \<Rightarrow> nat \<Rightarrow> (server_error, 'r) result \<Rightarrow> breaker \<Rightarrow> (server_error, 'r) result \<times> breaker" where
  "guarded health t0 t1 outcome b =
     (let (reject, b1) = (if health then (False, b) else should_reject t0 b);
          result = (if reject then Inl (CircuitBreakerOpen (error_count b1) (window_secs b1)) else outcome)
      in (result, case result of Inl err \<Rightarrow> if counts err then snd (record_error t1 b1) else b1 | Inr r \<Rightarrow> b1))"

section \<open>Chunks\<close>

text \<open>The chunks of a lazy query; \<open>chunks\<close> panics for the size 0.\<close>

function list_chunks :: "nat \<Rightarrow> 'a list \<Rightarrow> 'a list list" where
  "list_chunks n xs = (if xs = [] \<or> n = 0 then [] else take n xs # list_chunks n (drop n xs))"
  by pat_completeness auto
termination
  by (relation "measure (\<lambda>(n, xs). length xs)") auto

declare list_chunks.simps [simp del]

definition qseq_result :: "nat option \<Rightarrow> response_value list \<Rightarrow> panic + response_value" where
  "qseq_result chunk_size rows =
     (let n = (case chunk_size of None \<Rightarrow> 1000 | Some k \<Rightarrow> k) in
      if n = 0 then Inl (Panic ''chunk size must be non-zero'')
      else Inr (RMap [(RKeyword ''chunks'', RVector (map RVector (list_chunks n rows))),
        (RKeyword ''total-count'', RInteger (to_signed 64 (length rows))), (RKeyword ''chunk-size'', RInteger (to_signed 64 n))]))"

section \<open>What the cache operations do to the entries\<close>

lemma finite_result_entities [simp]: "finite (extract_result_entities j)"
  by (simp add: extract_result_entities_def split: option.splits)






lemma insert_lookup:
  assumes "lru_laws L" "cache_inv L s" "enabled s" "finite D"
  shows "map_of (lru_iter L (lru (insert_with_deps L t q a res D s))) (q, a) = Some \<lparr>result_text = res, inserted_at = t\<rparr>
    \<and> dependencies (insert_with_deps L t q a res D s) (q, a) = Some D"
proof (rule insert_with_deps_eq [OF assms, of t q a res])
  fix c assume c: "insert_with_deps L t q a res D s = s\<lparr>lru := c,
      dependencies := (dependencies s |` (fst ` set (lru_iter L c)))((q, a) \<mapsto> D),
      entity_to_keys := index_of ((dependencies s |` (fst ` set (lru_iter L c)))((q, a) \<mapsto> D))\<rparr>"
    "lru_iter L c = take (lru_cap L (lru s)) (((q, a), \<lparr>result_text = res, inserted_at = t\<rparr>) # without (q, a) (lru_iter L (lru s)))"
  obtain n where "lru_cap L (lru s) = Suc n"
    using lru_valid_laws(3) [OF assms(1) cache_invD(1) [OF assms(2)]] by (cases "lru_cap L (lru s)") auto
  then show ?thesis using c(2) unfolding c(1) by simp
qed


lemma map_of_filter_key: "map_of (filter (\<lambda>p. P (fst p)) xs) k = (if P k then map_of xs k else None)"
  by (induction xs) auto

lemma invalidate_lookup:
  assumes "lru_laws L" "cache_inv L s" "enabled s" "ids \<noteq> []" "\<not> affected_key ids s k"
  shows "map_of (lru_iter L (lru (snd (invalidate_entities L ids s)))) k = map_of (lru_iter L (lru s)) k"
proof (rule invalidate_entities_eq [OF assms(1-4)])
  fix c assume c: "invalidate_entities L ids s =
      (length (filter (\<lambda>p. affected_key ids s (fst p)) (lru_iter L (lru s))),
       s\<lparr>lru := c, dependencies := dependencies s |` {k. \<not> affected_key ids s k},
         entity_to_keys := index_of (dependencies s |` {k. \<not> affected_key ids s k}),
         targeted_invalidations := targeted_invalidations s + 1\<rparr>)"
    "lru_iter L c = filter (\<lambda>p. \<not> affected_key ids s (fst p)) (lru_iter L (lru s))"
  show ?thesis unfolding c(1) using assms(5) by (simp add: c(2) map_of_filter_key [of "\<lambda>k. \<not> affected_key ids s k"])
qed

section \<open>Coherence of cached queries\<close>

text \<open>What is relied on of \<open>serde_json\<close>: arguments and the answers of the database are read back as they
  were printed, and an array is printed up to its closing bracket.\<close>

definition json_ok :: "('db, 'c) backend \<Rightarrow> bool" where
  "json_ok x \<longleftrightarrow>
     (\<forall>db query inputs j. mentat_query x db query inputs = Inr j \<longrightarrow> from_str x (to_string x j) = Inr j)
   \<and> (\<forall>args. from_str x (to_string x (args_value args)) = Inr (args_value args))
   \<and> (\<forall>args. \<exists>s. to_string x (args_value args) = s @ '']'')"

text \<open>A query that is not answered from a cache.\<close>

definition direct_query :: "('db, 'c) backend \<Rightarrow> 'db \<Rightarrow> string \<Rightarrow> string list \<Rightarrow> (server_error, response_value) result" where
  "direct_query x db query args =
     (case mentat_query x db query (args_value args) of
        Inl err \<Rightarrow> Inl (raised err)
      | Inr j \<Rightarrow> rbind (parse_query_results x j) (\<lambda>rows. Inr (RVector rows)))"

text \<open>The transactions that were committed, each with the database after it and with the changed entities
  of its report; \<open>None\<close> when the daemon got no report that it can read, because the report is not JSON or
  because the transaction did not come through this daemon.\<close>

type_synonym 'db commits = "('db \<times> int list option) list"

definition database :: "'db \<Rightarrow> 'db commits \<Rightarrow> 'db" where
  "database db0 h = (if h = [] then db0 else fst (last h))"

definition reported :: "('db, 'c) backend \<Rightarrow> string \<Rightarrow> int list option" where
  "reported x report_str = (case from_str x report_str of Inl e \<Rightarrow> None | Inr report \<Rightarrow> Some (extract_changed_entities x report_str))"

inductive daemon_run :: "('db, 'c) backend \<Rightarrow> 'db \<Rightarrow> 'c query_cache \<Rightarrow> 'db commits \<Rightarrow> 'c query_cache \<Rightarrow> bool"
  for x :: "('db, 'c) backend" and db0 :: 'db and qc0 :: "'c query_cache" where
  start: "daemon_run x db0 qc0 [] qc0"
| query: "daemon_run x db0 qc0 h qc \<Longrightarrow> daemon_run x db0 qc0 h (snd (run_query x t0 t1 (database db0 h) q args basis_t qc))"
| pull: "daemon_run x db0 qc0 h qc \<Longrightarrow> daemon_run x db0 qc0 h (snd (execute_pull x t0 t1 (database db0 h) pattern e qc))"
| transact: "daemon_run x db0 qc0 h qc \<Longrightarrow> fst (transact_attempts run 0) = Inr report_str
    \<Longrightarrow> daemon_run x db0 qc0 (h @ [(db', reported x report_str)]) (snd (execute_transact x run qc))"
| abort: "daemon_run x db0 qc0 h qc \<Longrightarrow> fst (transact_attempts run 0) = Inl err
    \<Longrightarrow> daemon_run x db0 qc0 h (snd (execute_transact x run qc))"
| other_client: "daemon_run x db0 qc0 h qc \<Longrightarrow> daemon_run x db0 qc0 (h @ [(db', None)]) qc"









lemma json_ok_result: "json_ok x \<Longrightarrow> mentat_query x db query inputs = Inr j \<Longrightarrow> from_str x (to_string x j) = Inr j"
  unfolding json_ok_def by blast







lemma finite_collect [simp]: "finite (collect_entity_ids_from_json j)"
  by (induction j rule: collect_entity_ids_from_json.induct) (auto split: option.splits)










text \<open>C31. An answer from the cache can be old, because the integers of an answer do not cover new
  entities: an answer that has an integer, and none that is an entity of the transaction, survives the
  transaction in the cache, and within the time to live the query is answered with it whatever the
  database says by then.\<close>

theorem cached_query_stale:
  assumes "lru_laws (lru_of x)" "json_ok x" "cache_inv (lru_of x) qc" "enabled qc"
    and "fst (get_cached (lru_of x) t0 query (to_string x (args_value args)) qc) = None"
    and "mentat_query x db query (args_value args) = Inr j"
    and "extract_changed_entities x report_str \<noteq> []"
    and "\<not> affected (extract_changed_entities x report_str) (extract_result_entities j)"
    and "t2 \<le> t1 + ttl qc"
  shows "fst (run_query x t2 t3 db' query args None
      (invalidate_for x report_str (snd (run_query x t0 t1 db query args None qc)))) = direct_query x db query args"
proof -
  let ?L = "lru_of x" and ?k = "to_string x (args_value args)" and ?ids = "extract_changed_entities x report_str"
  let ?D = "extract_result_entities j" and ?v = "\<lparr>result_text = to_string x j, inserted_at = t1\<rparr>"
  obtain qc1 where g: "get_cached ?L t0 query ?k qc = (None, qc1)" using assms(5) by (cases "get_cached ?L t0 query ?k qc") auto
  have qc1: "cache_inv ?L qc1" "enabled qc1" "ttl qc1 = ttl qc"
    using get_cached_inv [OF assms(1,3), of t0 query ?k] cache_step_config [OF assms(1,3), of "Get query ?k" t0] assms(4) g
    by (simp_all add: same_config_def)
  define qc2 where "qc2 = insert_with_deps ?L t1 query ?k (to_string x j) ?D qc1"
  have run: "snd (run_query x t0 t1 db query args None qc) = qc2"
    using g assms(6) by (simp add: run_query_def cache_key_suffix_def query_inputs_def qc2_def)
  have qc2: "cache_inv ?L qc2" "enabled qc2" "ttl qc2 = ttl qc"
    unfolding qc2_def using insert_with_deps_inv [OF assms(1) qc1(1)] qc1
      cache_step_config [OF assms(1) qc1(1), of "Insert query ?k (to_string x j) ?D" t1] by (simp_all add: same_config_def)
  have entry: "map_of (lru_iter ?L (lru qc2)) (query, ?k) = Some ?v" "dependencies qc2 (query, ?k) = Some ?D"
    unfolding qc2_def using insert_lookup [OF assms(1) qc1(1,2) finite_result_entities] by blast+
  define qc3 where "qc3 = snd (invalidate_entities ?L ?ids qc2)"
  have qc3: "cache_inv ?L qc3" "enabled qc3" "ttl qc3 = ttl qc"
    unfolding qc3_def using invalidate_entities_inv [OF assms(1) qc2(1)] qc2
      cache_step_config [OF assms(1) qc2(1), of "Invalidate ?ids"] by (simp_all add: same_config_def)
  have "\<not> affected_key ?ids qc2 (query, ?k)" using entry(2) assms(8) by (simp add: affected_key_def)
  then have "map_of (lru_iter ?L (lru qc3)) (query, ?k) = Some ?v"
    unfolding qc3_def using invalidate_lookup [OF assms(1) qc2(1,2) assms(7)] entry(1) by simp
  then have "fst (get_cached ?L t2 query ?k qc3) = Some (to_string x j)"
    using get_cached_hit [OF assms(1) cache_invD(1) [OF qc3(1)] qc3(2)] qc3(3) assms(9) by simp
  then show ?thesis
    using json_ok_result [OF assms(2,6)] assms(6,7) unfolding run invalidate_for_def
    by (auto simp: run_query_def cache_key_suffix_def direct_query_def qc3_def Let_def split: prod.splits option.splits)
qed

section \<open>Properties of the breaker, of retries and of chunks\<close>

type_synonym 'r request = "bool \<times> nat \<times> nat \<times> (server_error, 'r) result"

definition breaker_run :: "'r request list \<Rightarrow> breaker \<Rightarrow> breaker" where
  "breaker_run reqs b = foldl (\<lambda>b (health, t0, t1, outcome). snd (guarded health t0 t1 outcome b)) b reqs"

definition window :: "breaker \<Rightarrow> nat" where
  "window b = window_secs b * nanos_per_sec"

lemma guarded_in_window:
  assumes "t0 \<le> last_reset b + window b" "t1 \<le> last_reset b + window b"
  shows "last_reset (snd (guarded health t0 t1 outcome b)) = last_reset b" "window (snd (guarded health t0 t1 outcome b)) = window b"
  using assms by (auto simp: guarded_def should_reject_def record_error_def maybe_reset_def window_def Let_def split: sum.splits)

text \<open>C17. The breaker cannot stay open: however many requests fail or are rejected during a window, the first
  request after it is executed, because rejected requests neither count as errors nor extend the
  window.  During the window, once more errors than the threshold are counted, every request but a
  health check is rejected.\<close>

theorem breaker_recovers:
  assumes "\<forall>(health, t0, t1, outcome)\<in>set reqs. t0 \<le> last_reset b + window b \<and> t1 \<le> last_reset b + window b"
    and "last_reset b + window b < now"
  shows "fst (guarded False now t1 outcome (breaker_run reqs b)) = outcome
    \<and> (t0 \<le> last_reset b + window b \<longrightarrow> error_count b > threshold b \<longrightarrow>
        guarded False t0 t1 outcome b = (Inl (CircuitBreakerOpen (error_count b) (window_secs b)), b))"
proof
  have "last_reset (breaker_run reqs b) = last_reset b \<and> window (breaker_run reqs b) = window b"
    using assms(1)
  proof (induction reqs rule: rev_induct)
    case (snoc r reqs)
    obtain h u0 u1 out where r: "r = (h, u0, u1, out)" by (cases r) auto
    have "last_reset (breaker_run reqs b) = last_reset b" "window (breaker_run reqs b) = window b" using snoc by simp_all
    then show ?case using snoc.prems guarded_in_window [of u0 "breaker_run reqs b" u1 h out] by (simp add: r breaker_run_def)
  qed (simp add: breaker_run_def)
  then have "window_secs (breaker_run reqs b) * nanos_per_sec < now - last_reset (breaker_run reqs b)"
    using assms(2) unfolding window_def by linarith
  then show "fst (guarded False now t1 outcome (breaker_run reqs b)) = outcome"
    by (simp add: guarded_def should_reject_def maybe_reset_def Let_def)
  show "t0 \<le> last_reset b + window b \<longrightarrow> error_count b > threshold b \<longrightarrow>
      guarded False t0 t1 outcome b = (Inl (CircuitBreakerOpen (error_count b) (window_secs b)), b)"
    by (auto simp: guarded_def should_reject_def maybe_reset_def window_def Let_def counts_def)
qed

lemma list_chunks_empty [simp]: "list_chunks n [] = []"
  by (simp add: list_chunks.simps)

lemma list_chunks_step: "xs \<noteq> [] \<Longrightarrow> n > 0 \<Longrightarrow> list_chunks n xs = take n xs # list_chunks n (drop n xs)"
  by (simp add: list_chunks.simps [of n xs])

lemma list_chunks_Nil: "n > 0 \<Longrightarrow> list_chunks n xs = [] \<longleftrightarrow> xs = []"
  by (cases "xs = []") (simp_all add: list_chunks_step)

lemma list_chunks_concat: "n > 0 \<Longrightarrow> concat (list_chunks n xs) = xs"
proof (induction n xs rule: list_chunks.induct)
  case (1 n xs)
  then show ?case by (cases "xs = []") (simp_all add: list_chunks_step)
qed

lemma list_chunks_size: "n > 0 \<Longrightarrow> c \<in> set (list_chunks n xs) \<Longrightarrow> c \<noteq> [] \<and> length c \<le> n"
proof (induction n xs rule: list_chunks.induct)
  case (1 n xs)
  show ?case
  proof (cases "xs = []")
    case False
    then have "c = take n xs \<or> c \<in> set (list_chunks n (drop n xs))" using 1(2,3) by (simp add: list_chunks_step)
    then show ?thesis
    proof
      assume "c = take n xs"
      then show ?thesis using False 1(2) by simp
    next
      assume "c \<in> set (list_chunks n (drop n xs))"
      then show ?thesis using 1(1) False 1(2) by blast
    qed
  qed (use 1(3) in simp)
qed

lemma list_chunks_full: "n > 0 \<Longrightarrow> c \<in> set (butlast (list_chunks n xs)) \<Longrightarrow> length c = n"
proof (induction n xs rule: list_chunks.induct)
  case (1 n xs)
  show ?case
  proof (cases "xs = []")
    case False
    have "list_chunks n (drop n xs) \<noteq> []" using 1(2,3) False by (auto simp: list_chunks_step)
    then have long: "n < length xs" "c = take n xs \<or> c \<in> set (butlast (list_chunks n (drop n xs)))"
      using 1(2,3) False by (simp_all add: list_chunks_Nil list_chunks_step [OF False])
    from long(2) show ?thesis
    proof
      assume "c = take n xs"
      then show ?thesis using long(1) by simp
    next
      assume "c \<in> set (butlast (list_chunks n (drop n xs)))"
      then show ?thesis using 1(1) False 1(2) by blast
    qed
  qed (use 1(3) in simp)
qed

text \<open>C34. A lazy query splits its rows without losing, repeating or reordering any: the chunks joined are the
  rows, every chunk but the last has the chunk size and the last is not empty.  The chunk size 0,
  which a client can ask for, makes the handler panic.\<close>
theorem qseq_chunks:
  "case qseq_result (Some n) rows of
     Inl p \<Rightarrow> n = 0
   | Inr r \<Rightarrow> n > 0 \<and> (\<exists>chunks. r = RMap [(RKeyword ''chunks'', RVector (map RVector chunks)),
        (RKeyword ''total-count'', RInteger (to_signed 64 (length rows))), (RKeyword ''chunk-size'', RInteger (to_signed 64 n))]
      \<and> concat chunks = rows \<and> (\<forall>c\<in>set (butlast chunks). length c = n) \<and> (\<forall>c\<in>set chunks. c \<noteq> [] \<and> length c \<le> n))"
proof (cases "n = 0")
  case False
  then have "concat (list_chunks n rows) = rows \<and> (\<forall>c\<in>set (butlast (list_chunks n rows)). length c = n)
      \<and> (\<forall>c\<in>set (list_chunks n rows). c \<noteq> [] \<and> length c \<le> n)"
    using list_chunks_concat list_chunks_full list_chunks_size by blast
  then show ?thesis using False by (simp add: qseq_result_def) blast
qed (simp add: qseq_result_def)

section \<open>A daemon with a small database\<close>

text \<open>The database says who is 5 years old: the entity 10 and, once \<open>True\<close>, also the entity 20.  Its answers
  and reports are printed as single letters, arguments with a separator before each character.\<close>

definition sample_answer :: "bool \<Rightarrow> json" where
  "sample_answer db = JObject [(''results'', JArray (map (\<lambda>e. JArray [JNumber (JInt e), JNumber (JInt 5)]) (if db then [10, 20] else [10])))]"

definition sample_report :: "int \<Rightarrow> json" where
  "sample_report e = JObject [(''tx-data'', JArray [JArray [JNumber (JInt e)]])]"

fun sample_read :: "string \<Rightarrow> string \<Rightarrow> string list" where
  "sample_read acc (a # c # r) =
     (if a = CHR ''.'' then sample_read (acc @ [c]) r else if a = CHR '','' then acc # sample_read [] (c # r) else [])"
| "sample_read acc _ = []"

definition sample_print :: "json \<Rightarrow> string" where
  "sample_print j = (case j of
       JArray vs \<Rightarrow> ''['' @ concat (map (\<lambda>v. case v of JString s \<Rightarrow> concat (map (\<lambda>c. [CHR ''.'', c]) s) @ '','' | _ \<Rightarrow> ''?'') vs) @ '']''
     | _ \<Rightarrow> if j = sample_answer True then ''T'' else ''F'')"

definition sample_parse :: "string \<Rightarrow> string + json" where
  "sample_parse s =
     (if s = ''T'' then Inr (sample_answer True) else if s = ''F'' then Inr (sample_answer False)
      else if s = ''changed'' then Inr (sample_report 10) else if s = ''added'' then Inr (sample_report 20)
      else if take 1 s = ''['' then Inr (args_value (sample_read [] (drop 1 s))) else Inl ''unexpected'')"

definition sample_daemon :: "(bool, nat \<times> (cache_key \<times> cache_entry) list) backend" where
  "sample_daemon = lru_ops.extend list_lru
     \<lparr>from_str = sample_parse, to_string = sample_print, as_f64 = \<lambda>n. None, number_text = \<lambda>n. ''n'',
      mentat_query = \<lambda>db query inputs. Inr (sample_answer db), mentat_pull = \<lambda>db pattern e. Inr (sample_answer db), basis_of = \<lambda>db. 0\<rparr>"

lemma sample_lru [simp]: "lru_of sample_daemon = list_lru"
  by (simp add: lru_of_def sample_daemon_def lru_ops.defs)

lemma sample_fields [simp]:
  "from_str sample_daemon = sample_parse" "to_string sample_daemon = sample_print"
  "mentat_query sample_daemon db query inputs = Inr (sample_answer db)"
  "id_order sample_daemon = sorted_list_of_set"
  by (simp_all add: sample_daemon_def lru_ops.defs list_lru_def)

lemma sample_read_char: "sample_read acc (concat (map (\<lambda>c. [CHR ''.'', c]) s) @ CHR '','' # a # r) = (acc @ s) # sample_read [] (a # r)"
  by (induction s arbitrary: acc) simp_all

lemma sample_read_args:
  "sample_read [] (concat (map (\<lambda>s. concat (map (\<lambda>c. [CHR ''.'', c]) s) @ '','') args) @ '']'') = args"
proof (induction args)
  case (Cons s args)
  obtain a r where "concat (map (\<lambda>s. concat (map (\<lambda>c. [CHR ''.'', c]) s) @ '','') args) @ '']'' = a # r"
    by (cases "concat (map (\<lambda>s. concat (map (\<lambda>c. [CHR ''.'', c]) s) @ '','') args)") auto
  then show ?case using Cons sample_read_char [of "[]" s a r] by simp
qed simp

lemma sample_json_ok: "json_ok sample_daemon"
proof -
  have "sample_parse (sample_print (sample_answer db)) = Inr (sample_answer db)" for db
    by (cases db) (simp_all add: sample_parse_def sample_print_def sample_answer_def)
  moreover have args: "sample_print (args_value args) = ''['' @ concat (map (\<lambda>s. concat (map (\<lambda>c. [CHR ''.'', c]) s) @ '','') args) @ '']''" for args
    by (simp add: sample_print_def args_value_def comp_def)
  moreover have "sample_parse (sample_print (args_value args)) = Inr (args_value args)" for args
    unfolding args by (simp add: sample_parse_def sample_read_args)
  ultimately show ?thesis unfolding json_ok_def by (auto simp: args)
qed

lemma sample_changed:
  "extract_changed_entities sample_daemon ''changed'' = [10]" "extract_changed_entities sample_daemon ''added'' = [20]"
  by (simp_all add: extract_changed_entities_def sample_parse_def sample_report_def json_get_def value_as_array_def value_as_i64_def
      map_filter_simps i64_ok_def)

lemma sample_entities: "extract_result_entities (sample_answer db) = (if db then {10, 20, 5} else {10, 5})"
  by (auto simp: extract_result_entities_def sample_answer_def json_get_def value_as_array_def value_as_i64_def map_filter_simps i64_ok_def)

lemma sample_direct:
  "direct_query sample_daemon db query args = Inr (RVector (map (\<lambda>e. RVector [RInteger e, RInteger 5]) (if db then [10, 20] else [10])))"
  by (simp add: direct_query_def parse_query_results_def sample_answer_def json_get_def value_as_array_def number_to_response_def i64_ok_def)



theorem cached_query_stale_witness:
  "fst (run_query sample_daemon 9 9 True ''q'' [''a''] None
     (invalidate_for sample_daemon ''added'' (snd (run_query sample_daemon 1 2 False ''q'' [''a''] None (new_cache list_lru 4 100)))))
   = Inr (RVector [RVector [RInteger 10, RInteger 5]])
   \<and> direct_query sample_daemon True ''q'' [''a''] = Inr (RVector [RVector [RInteger 10, RInteger 5], RVector [RInteger 20, RInteger 5]])"
proof -
  have "fst (get_cached list_lru 1 ''q'' (sample_print (args_value [''a''])) (new_cache list_lru 4 100)) = None" by code_simp
  moreover have "enabled (new_cache list_lru 4 100)" "ttl (new_cache list_lru 4 100) = 100" by (simp_all add: new_cache_def)
  ultimately show ?thesis
    using cached_query_stale [of sample_daemon "new_cache list_lru 4 100" 1 "''q''" "[''a'']" False "sample_answer False" "''added''" 9 2 9 True]
      list_lru_laws sample_json_ok new_cache_inv [OF list_lru_laws, of 4 100]
    by (simp add: sample_changed sample_entities affected_def sample_direct UNTRACKED_SENTINEL_def)
qed

definition sample_breaker :: breaker where
  "sample_breaker = \<lparr>error_count = 0, last_reset = 0, threshold = 1, window_secs = 1\<rparr>"

definition sample_failures :: "nat request list" where
  "sample_failures = [(False, 1, 2, Inl (Internal ''a'')), (False, 3, 4, Inl (Internal ''b'')), (False, 5, 6, Inr 9)]"

theorem breaker_recovers_witness:
  "fst (guarded False 7 8 (Inr 9) (breaker_run sample_failures sample_breaker)) = (Inl (CircuitBreakerOpen 2 1) :: (server_error, nat) result)
   \<and> fst (guarded False 1000000001 1000000002 (Inr 9) (breaker_run sample_failures sample_breaker)) = Inr (9 :: nat)"
proof
  show "fst (guarded False 7 8 (Inr 9) (breaker_run sample_failures sample_breaker)) = (Inl (CircuitBreakerOpen 2 1) :: (server_error, nat) result)"
    by (simp add: sample_failures_def sample_breaker_def breaker_run_def guarded_def should_reject_def record_error_def maybe_reset_def
        nanos_per_sec_def counts_def Let_def)
  show "fst (guarded False 1000000001 1000000002 (Inr 9) (breaker_run sample_failures sample_breaker)) = Inr (9 :: nat)"
    using breaker_recovers [of sample_failures sample_breaker 1000000001 1000000002 "Inr (9 :: nat)" 0]
    by (simp add: sample_failures_def sample_breaker_def window_def nanos_per_sec_def)
qed

theorem qseq_chunks_witness:
  "\<exists>chunks. qseq_result (Some 2) [RInteger 1, RInteger 2, RInteger 3] = Inr (RMap [(RKeyword ''chunks'', RVector (map RVector chunks)),
      (RKeyword ''total-count'', RInteger 3), (RKeyword ''chunk-size'', RInteger 2)])
    \<and> concat chunks = [RInteger 1, RInteger 2, RInteger 3] \<and> (\<forall>c\<in>set chunks. c \<noteq> [] \<and> length c \<le> 2)"
proof -
  obtain r where r: "qseq_result (Some 2) [RInteger 1, RInteger 2, RInteger 3] = Inr r" by (simp add: qseq_result_def)
  show ?thesis using qseq_chunks [of 2 "[RInteger 1, RInteger 2, RInteger 3]"] unfolding r by (auto simp: to_signed_def)
qed

end
