(* ===== verification/Pull.thy ===== *)
theory Pull
  imports Json Edn_Grammar Projection Schema_Cache Errors
begin

text \<open>
  The pull API (\<open>pg_mentat/src/functions/pull.rs\<close>): patterns are parsed from EDN into attribute
  specifications and evaluated against the current-state projection of a store, giving JSON.

  The tables are those of \<open>Typed_Store\<close>, the catalog that of \<open>Schema_Cache\<close>; a query is the filter and
  the join that its SQL text says.  The order of the rows of a query is the server's choice and a
  parameter (\<open>order_rows\<close>, \<open>order_ids\<close>).  Every column of a row of the projection is present, so the
  branches for missing columns and unknown type tags do not occur, and a failure of the server
  aborts the call; what remains is a function of the tables.  The recursion is that of the code:
  \<open>execute_pull\<close> goes through the specifications, each reference costing one level of depth.
\<close>

section \<open>Patterns\<close>

datatype limit_spec = Count nat | Unlimited

datatype recursion_depth = Bounded nat | Unbounded

datatype pull_attr_spec =
    Attribute string bool string "string option" "json option" "limit_spec option"
  | MapSpec string bool string "pull_attr_spec list" "string option" "limit_spec option"
  | RecursiveSpec string bool string recursion_depth "string option"
  | Wildcard

text \<open>\<open>PullSyntax\<close>: the server refuses the text of a statement.\<close>

datatype pull_error = PullMentat mentat_error | PullMessage string | PullSyntax

record pull_row =
  r_e :: int
  r_attr :: schema_row
  r_v :: typed_value

record pullenv = pgx +
  parse_text :: "parse_failure \<Rightarrow> string"
  order_rows :: "pull_row list \<Rightarrow> pull_row list"
  order_ids :: "int list \<Rightarrow> int list"

definition parse_keyword :: "keyword \<Rightarrow> string \<times> bool \<times> string" where
  "parse_keyword kw =
     (let name = kw_name kw;
          full = (\<lambda>n. '':'' @ (case kw_namespace kw of Some ns \<Rightarrow> ns @ ''/'' | None \<Rightarrow> []) @ n)
      in if take 1 name = ''_'' then (full name, True, full (drop 1 name)) else (full name, False, full name))"

definition parse_limit_value :: "'x ext_scheme \<Rightarrow> edn_value \<Rightarrow> (pull_error, limit_spec) result" where
  "parse_limit_value x v = (case v of
       VInteger n \<Rightarrow>
         if n < 0 then Inl (PullMessage ('':db.error/invalid-limit :limit value must be non-negative, got '' @ show_int n @
           ''. Use a positive integer or nil for unlimited.''))
         else Inr (Count (nat n))
     | VNil \<Rightarrow> Inr Unlimited
     | _ \<Rightarrow> Inl (PullMessage ('':db.error/invalid-limit :limit value must be a non-negative integer or nil (for unlimited), got: ''
           @ display_value x v)))"

definition edn_to_json :: "'x ext_scheme \<Rightarrow> edn_value \<Rightarrow> json" where
  "edn_to_json x v = (case v of
       VNil \<Rightarrow> JNull
     | VBoolean b \<Rightarrow> JBool b
     | VInteger n \<Rightarrow> json_int n
     | VFloat f \<Rightarrow> json_f64 f
     | VText s \<Rightarrow> JString s
     | VKeyword kw \<Rightarrow> JString (kw_display kw)
     | _ \<Rightarrow> JString (display_value x v))"

type_synonym modifiers = "string option \<times> json option \<times> limit_spec option"

definition unknown_modifier :: "string \<Rightarrow> pull_error" where
  "unknown_modifier n = PullMessage ('':db.error/invalid-pull-pattern Unknown attribute modifier :'' @ n @
     ''. Valid modifiers: :limit, :default, :as'')"

definition missing_value :: "string \<Rightarrow> pull_error" where
  \<open>missing_value n =
     (if n = ''limit'' then PullMessage ('':db.error/invalid-pull-pattern :limit modifier requires '' @
        ''a value (integer or nil). Example: (:attr :limit 10)'')
      else if n = ''default'' then PullMessage ('':db.error/invalid-pull-pattern :default modifier requires '' @
        ''a value. Example: (:attr :default "none")'')
      else if n = ''as'' then PullMessage ('':db.error/invalid-pull-pattern :as modifier requires a '' @
        ''string value. Example: (:attr :as "Display Name")'')
      else unknown_modifier n)\<close>

fun parse_modifiers :: "'x ext_scheme \<Rightarrow> edn_value list \<Rightarrow> modifiers \<Rightarrow> (pull_error, modifiers) result" where
  \<open>parse_modifiers x [] acc = Inr acc\<close>
| \<open>parse_modifiers x (item # rest) acc = (case item of
       VKeyword kw \<Rightarrow>
         (case rest of
            [] \<Rightarrow> Inl (missing_value (kw_name kw))
          | v # rest' \<Rightarrow>
              (case acc of (rename, dflt, limit) \<Rightarrow>
                 if kw_name kw = ''limit'' then rbind (parse_limit_value x v) (\<lambda>l. parse_modifiers x rest' (rename, dflt, Some l))
                 else if kw_name kw = ''default'' then parse_modifiers x rest' (rename, Some (edn_to_json x v), limit)
                 else if kw_name kw = ''as'' then
                   (case v of
                      VText s \<Rightarrow> parse_modifiers x rest' (Some s, dflt, limit)
                    | _ \<Rightarrow> Inl (PullMessage ('':db.error/invalid-pull-pattern :as value must be a string. '' @
                               ''Example: (:attr :as "Display Name")'')))
                 else Inl (unknown_modifier (kw_name kw))))
     | _ \<Rightarrow> Inl (PullMessage ('':db.error/invalid-pull-pattern Expected keyword modifier (:limit, :default, '' @
         ''or :as) in attribute expression, got: '' @ display_value x item)))\<close>

definition parse_attribute_expression :: "'x ext_scheme \<Rightarrow> edn_value list \<Rightarrow> (pull_error, pull_attr_spec list) result" where
  \<open>parse_attribute_expression x items = (case items of
       [] \<Rightarrow> Inl (PullMessage ('':db.error/invalid-pull-pattern Empty attribute expression. '' @
         ''Expected: (:attribute :limit N :default V :as "name")''))
     | VKeyword kw # rest \<Rightarrow>
         (case parse_keyword kw of (ident, reverse, forward_ident) \<Rightarrow>
            rbind (parse_modifiers x rest (None, None, None)) (\<lambda>(rename, dflt, limit).
              Inr [Attribute ident reverse forward_ident rename dflt limit]))
     | v # _ \<Rightarrow> Inl (PullMessage ('':db.error/invalid-pull-pattern Attribute expression must start with a keyword '' @
         ''attribute, got: '' @ display_value x v @ ''. Expected: (:attr-keyword :limit N :default V :as "name")'')))\<close>

definition map_key_error :: "'x ext_scheme \<Rightarrow> edn_value \<Rightarrow> pull_error" where
  "map_key_error x k = PullMessage ('':db.error/invalid-pull-pattern Map spec keys must be keyword attributes, got: '' @
     display_value x k @ ''. Expected format: {:attribute [:sub-pattern]}'')"

definition map_value_error :: "'x ext_scheme \<Rightarrow> edn_value \<Rightarrow> pull_error" where
  "map_value_error x v = PullMessage ('':db.error/invalid-pull-pattern Map spec value must be a sub-pattern vector, '' @
     [CHR 0x27] @ ''...'' @ [CHR 0x27] @ '' (unbounded recursion), or integer depth limit, got: '' @ display_value x v @
     ''. Examples: {:attr [:sub-attr]}, {:attr ...}, {:attr 3}'')"

definition element_error :: "'x ext_scheme \<Rightarrow> edn_value \<Rightarrow> pull_error" where
  "element_error x v = PullMessage ('':db.error/invalid-pull-pattern Unsupported pull pattern element: '' @ display_value x v @
     ''. Valid elements: keyword attributes (:ns/name), wildcard (*), '' @
     ''map specs ({:attr [...]}), or attribute expressions ((:attr :limit N))'')"

function parse_pull_pattern :: "'x ext_scheme \<Rightarrow> edn_value list \<Rightarrow> (pull_error, pull_attr_spec list) result"
  and parse_element :: "'x ext_scheme \<Rightarrow> edn_value \<Rightarrow> (pull_error, pull_attr_spec list) result"
  and parse_map_specs :: "'x ext_scheme \<Rightarrow> (edn_value \<times> edn_value) list \<Rightarrow> (pull_error, pull_attr_spec list) result" where
  "parse_pull_pattern x [] = Inr []"
| "parse_pull_pattern x (item # items) =
     rbind (parse_element x item) (\<lambda>spec. rbind (parse_pull_pattern x items) (\<lambda>ss. Inr (spec @ ss)))"
| "parse_element x item = (case item of
       VPlainSymbol s \<Rightarrow> if ps_name s = ''*'' then Inr [Wildcard] else Inl (element_error x item)
     | VKeyword kw \<Rightarrow>
         (case parse_keyword kw of (ident, reverse, forward_ident) \<Rightarrow> Inr [Attribute ident reverse forward_ident None None None])
     | VMap m \<Rightarrow> parse_map_specs x m
     | VVector items \<Rightarrow> if items = [] then Inl (element_error x item) else parse_attribute_expression x items
     | VList items \<Rightarrow> if items = [] then Inl (element_error x item) else parse_attribute_expression x items
     | _ \<Rightarrow> Inl (element_error x item))"
| "parse_map_specs x [] = Inr []"
| "parse_map_specs x ((k, v) # m) = (case k of
       VKeyword kw \<Rightarrow>
         (case parse_keyword kw of (ident, reverse, forward_ident) \<Rightarrow>
            rbind (case v of
                 VVector sub_items \<Rightarrow> rbind (parse_pull_pattern x sub_items) (\<lambda>sub. Inr (MapSpec ident reverse forward_ident sub None None))
               | VPlainSymbol s \<Rightarrow>
                   if ps_name s = ''...'' then Inr (RecursiveSpec ident reverse forward_ident Unbounded None) else Inl (map_value_error x v)
               | VInteger n \<Rightarrow> Inr (RecursiveSpec ident reverse forward_ident (Bounded (if n < 0 then 0 else nat n)) None)
               | _ \<Rightarrow> Inl (map_value_error x v))
              (\<lambda>spec. rbind (parse_map_specs x m) (\<lambda>ss. Inr (spec # ss))))
     | _ \<Rightarrow> Inl (map_key_error x k))"
  by pat_completeness auto
termination
  by (relation "measure (\<lambda>t. case t of Inl (x, vs) \<Rightarrow> size_list size vs | Inr (Inl (x, v)) \<Rightarrow> size v
      | Inr (Inr (x, m)) \<Rightarrow> size_list (size_prod size size) m)") auto

section \<open>Queries\<close>

text \<open>What a pull sees: the schema table of its store, the number of the store and the tables.\<close>

record pull_ctx =
  cx_schema :: "schema_row list"
  cx_store :: int
  cx_facts :: tables

definition DEFAULT_MANY_LIMIT :: nat where "DEFAULT_MANY_LIMIT = 1000"

definition MAX_RECURSION_DEPTH :: nat where "MAX_RECURSION_DEPTH = 100"

definition schema_cardinality :: "pull_ctx \<Rightarrow> string \<Rightarrow> string" where
  "schema_cardinality c ident =
     (case map_of (rev (map (\<lambda>s. (s_ident s, cardinality (s_info s))) (cx_schema c))) ident of Some k \<Rightarrow> k | None \<Rightarrow> ''one'')"

definition ident_for_entid :: "pull_ctx \<Rightarrow> int \<Rightarrow> string option" where
  "ident_for_entid c e = map_of (rev (map (\<lambda>s. (s_entid s, s_ident s)) (cx_schema c))) e"

text \<open>The rows of the projection tables that satisfy a condition, joined with the schema.\<close>

definition joined :: "pull_ctx \<Rightarrow> (cur_row \<Rightarrow> bool) \<Rightarrow> pull_row list" where
  "joined c P = concat (map (\<lambda>d. map (\<lambda>s. \<lparr>r_e = c_e d, r_attr = s, r_v = c_v d\<rparr>) (filter (\<lambda>s. s_entid s = c_a d) (cx_schema c)))
     (filter (\<lambda>d. c_store d = cx_store c \<and> P d) (current (cx_facts c))))"

abbreviation r_ident :: "pull_row \<Rightarrow> string" where "r_ident r \<equiv> s_ident (r_attr r)"
abbreviation r_cardinality :: "pull_row \<Rightarrow> string" where "r_cardinality r \<equiv> cardinality (s_info (r_attr r))"
abbreviation r_component :: "pull_row \<Rightarrow> bool" where "r_component r \<equiv> component (s_info (r_attr r))"

definition entity_rows :: "'x pullenv_scheme \<Rightarrow> pull_ctx \<Rightarrow> int \<Rightarrow> pull_row list" where
  "entity_rows x c e = order_rows x (joined c (\<lambda>d. c_e d = e))"

definition is_ref_to :: "int \<Rightarrow> cur_row \<Rightarrow> bool" where
  "is_ref_to e d \<longleftrightarrow> c_v d = TRef e"

definition resolve_limit :: "limit_spec option \<Rightarrow> nat" where
  "resolve_limit limit = (case limit of Some (Count n) \<Rightarrow> n | Some Unlimited \<Rightarrow> 2 ^ 64 - 1 | None \<Rightarrow> DEFAULT_MANY_LIMIT)"

primrec ref_target :: "typed_value \<Rightarrow> int option" where
  "ref_target (TRef i) = Some i"
| "ref_target (TBoolean b) = None"
| "ref_target (TLong n) = None"
| "ref_target (TDouble f) = None"
| "ref_target (TText s) = None"
| "ref_target (TKeyword s) = None"
| "ref_target (TInstant m) = None"
| "ref_target (TUuid u) = None"
| "ref_target (TBytes b) = None"

definition query_forward_refs :: "'x pullenv_scheme \<Rightarrow> pull_ctx \<Rightarrow> int \<Rightarrow> string \<Rightarrow> limit_spec option \<Rightarrow> int list" where
  "query_forward_refs x c e ident limit =
     take (resolve_limit limit) (order_ids x (List.map_filter (\<lambda>r. ref_target (r_v r))
       (filter (\<lambda>r. r_ident r = ident) (joined c (\<lambda>d. c_e d = e)))))"

definition query_reverse_refs :: "'x pullenv_scheme \<Rightarrow> pull_ctx \<Rightarrow> int \<Rightarrow> string \<Rightarrow> limit_spec option \<Rightarrow> int list" where
  "query_reverse_refs x c e forward_ident limit =
     take (resolve_limit limit) (order_ids x (map r_e (filter (\<lambda>r. r_ident r = forward_ident) (joined c (is_ref_to e)))))"

section \<open>Values\<close>

text \<open>An instant is read as its epoch, rounded to whole seconds, plus the microseconds within the second.\<close>

primrec decode_row_typed_value :: "'x pgx_scheme \<Rightarrow> typed_value \<Rightarrow> json" where
  "decode_row_typed_value x (TRef i) = json_int i"
| "decode_row_typed_value x (TBoolean b) = JBool b"
| "decode_row_typed_value x (TLong n) = json_int n"
| "decode_row_typed_value x (TDouble f) = json_f64 f"
| "decode_row_typed_value x (TText s) = JString s"
| "decode_row_typed_value x (TKeyword s) = JString ('':'' @ s)"
| "decode_row_typed_value x (TInstant m) = json_int (epoch_seconds m * 1000000 + m mod 1000000)"
| "decode_row_typed_value x (TUuid u) = JString (hyphenated x u)"
| "decode_row_typed_value x (TBytes b) = JString (hex_encode x b)"

definition insert_value :: "json_map \<Rightarrow> string \<Rightarrow> json \<Rightarrow> string \<Rightarrow> json_map" where
  "insert_value m key v cardn =
     (if cardn = ''many'' then
        (case json_lookup key m of
           Some (JArray vs) \<Rightarrow> json_insert key (JArray (vs @ [v])) m
         | Some prev \<Rightarrow> json_insert key (JArray [prev, v]) m
         | None \<Rightarrow> json_insert key (JArray [v]) m)
      else json_insert key v m)"

definition id_map :: "int \<Rightarrow> json_map" where
  "id_map e = [('':db/id'', json_int e)]"

section \<open>Wildcards\<close>

text \<open>One row of a wildcard; \<open>expand\<close> pulls a component, when the depth allows it.\<close>

definition wildcard_row ::
  "'x pullenv_scheme \<Rightarrow> pull_ctx \<Rightarrow> (int \<Rightarrow> json_map \<times> int set \<Rightarrow> json_map \<times> int set) option \<Rightarrow> string set
    \<Rightarrow> json_map \<times> int set \<Rightarrow> pull_row \<Rightarrow> json_map \<times> int set" where
  "wildcard_row x c expand override_idents st r = (case st of (m, visited) \<Rightarrow>
     if r_ident r \<in> override_idents then (m, visited)
     else case ref_target (r_v r) of
       Some ref_id \<Rightarrow>
         if r_component r then
           (case expand of
              Some f \<Rightarrow>
                if ref_id \<notin> visited then
                  (case f ref_id (id_map ref_id, insert ref_id visited) of
                     (sub_map, visited') \<Rightarrow> (insert_value m (r_ident r) (JObject sub_map) (r_cardinality r), visited'))
                else (insert_value m (r_ident r) (JObject (id_map ref_id)) (r_cardinality r), visited)
            | None \<Rightarrow> (insert_value m (r_ident r) (JObject (id_map ref_id)) (r_cardinality r), visited))
         else (insert_value m (r_ident r)
                (case ident_for_entid c ref_id of Some ident \<Rightarrow> JString ident | None \<Rightarrow> JObject (id_map ref_id)) (r_cardinality r), visited)
     | None \<Rightarrow> (insert_value m (r_ident r) (decode_row_typed_value x (r_v r)) (r_cardinality r), visited))"

function pull_wildcard ::
  "'x pullenv_scheme \<Rightarrow> pull_ctx \<Rightarrow> nat \<Rightarrow> string set \<Rightarrow> int \<Rightarrow> json_map \<times> int set \<Rightarrow> json_map \<times> int set" where
  "pull_wildcard x c depth override_idents e st =
     foldl (wildcard_row x c (if depth < MAX_RECURSION_DEPTH then Some (pull_wildcard x c (depth + 1) {}) else None) override_idents)
       st (entity_rows x c e)"
  by pat_completeness auto
termination
  by (relation "measure (\<lambda>(x, c, depth, ov, e, st). MAX_RECURSION_DEPTH - depth)") auto

declare pull_wildcard.simps [simp del]

text \<open>The attributes of an entity within a recursive pull, without the recursive attribute itself.\<close>

definition recursive_row ::
  "'x pullenv_scheme \<Rightarrow> pull_ctx \<Rightarrow> nat \<Rightarrow> string \<Rightarrow> json_map \<times> int set \<Rightarrow> pull_row \<Rightarrow> json_map \<times> int set" where
  "recursive_row x c depth recursive_ident st r = (case st of (m, visited) \<Rightarrow>
     if r_ident r = recursive_ident then (m, visited)
     else case ref_target (r_v r) of
       Some rid \<Rightarrow>
         if r_component r \<and> depth < MAX_RECURSION_DEPTH \<and> rid \<notin> visited then
           (case pull_wildcard x c (depth + 1) {} rid (id_map rid, insert rid visited) of
              (sub_map, visited') \<Rightarrow> (insert_value m (r_ident r) (JObject sub_map) (r_cardinality r), visited'))
         else (insert_value m (r_ident r) (JObject (id_map rid)) (r_cardinality r), visited)
     | None \<Rightarrow> (insert_value m (r_ident r) (decode_row_typed_value x (r_v r)) (r_cardinality r), visited))"

definition pull_all_attributes_for_recursive ::
  "'x pullenv_scheme \<Rightarrow> pull_ctx \<Rightarrow> nat \<Rightarrow> string \<Rightarrow> int \<Rightarrow> json_map \<times> int set \<Rightarrow> json_map \<times> int set" where
  "pull_all_attributes_for_recursive x c depth recursive_ident e st = foldl (recursive_row x c depth recursive_ident) st (entity_rows x c e)"

section \<open>Attributes\<close>

record attr_spec =
  a_display :: string
  a_ident :: string
  a_rename :: "string option"
  a_default :: "json option"
  a_limit :: "limit_spec option"

definition spec_by_ident :: "attr_spec list \<Rightarrow> string \<Rightarrow> attr_spec option" where
  "spec_by_ident attrs = map_of (rev (map (\<lambda>a. (a_ident a, a)) attrs))"

definition max_rows :: "attr_spec option \<Rightarrow> nat" where
  "max_rows spec = (case spec of Some a \<Rightarrow> resolve_limit (a_limit a) | None \<Rightarrow> DEFAULT_MANY_LIMIT)"

definition output_key :: "attr_spec option \<Rightarrow> string \<Rightarrow> string" where
  "output_key spec ident = (case Option.bind spec a_rename of Some k \<Rightarrow> k | None \<Rightarrow> ident)"

record forward_state =
  counts :: "string \<Rightarrow> nat"
  found_idents :: "string set"
  pending_components :: "(string \<times> string \<times> int) list"
  f_map :: json_map

definition forward_row ::
  "'x pullenv_scheme \<Rightarrow> attr_spec list \<Rightarrow> nat \<Rightarrow> int set \<Rightarrow> forward_state \<Rightarrow> pull_row \<Rightarrow> forward_state" where
  "forward_row x attrs depth visited s r =
     (let ident = r_ident r; spec = spec_by_ident attrs ident; key = output_key spec ident in
      if max_rows spec \<le> counts s ident then s
      else let s1 = s\<lparr>counts := (counts s)(ident := counts s ident + 1), found_idents := insert ident (found_idents s)\<rparr> in
        case ref_target (r_v r) of
          Some rid \<Rightarrow>
            if r_component r \<and> depth < MAX_RECURSION_DEPTH \<and> rid \<notin> visited
            then s1\<lparr>pending_components := pending_components s1 @ [(key, r_cardinality r, rid)]\<rparr>
            else s1\<lparr>f_map := insert_value (f_map s1) key (JObject (id_map rid)) (r_cardinality r)\<rparr>
        | None \<Rightarrow> s1\<lparr>f_map := insert_value (f_map s1) key (decode_row_typed_value x (r_v r)) (r_cardinality r)\<rparr>)"

definition expand_component ::
  "'x pullenv_scheme \<Rightarrow> pull_ctx \<Rightarrow> nat \<Rightarrow> json_map \<times> int set \<Rightarrow> string \<times> string \<times> int \<Rightarrow> json_map \<times> int set" where
  "expand_component x c depth st pc = (case st of (m, visited) \<Rightarrow> case pc of (key, cardn, rid) \<Rightarrow>
     case pull_wildcard x c (depth + 1) {} rid (id_map rid, insert rid visited) of
       (sub_map, visited') \<Rightarrow> (insert_value m key (JObject sub_map) cardn, visited'))"

definition apply_default :: "string set \<Rightarrow> json_map \<Rightarrow> attr_spec \<Rightarrow> json_map" where
  "apply_default found m a =
     (if a_ident a \<in> found then m
      else case a_default a of None \<Rightarrow> m | Some v \<Rightarrow> json_insert (output_key (Some a) (a_ident a)) v m)"

definition pull_forward_attributes_batched ::
  "'x pullenv_scheme \<Rightarrow> pull_ctx \<Rightarrow> nat \<Rightarrow> int \<Rightarrow> attr_spec list \<Rightarrow> json_map \<times> int set \<Rightarrow> json_map \<times> int set" where
  "pull_forward_attributes_batched x c depth e attrs st = (case st of (m, visited) \<Rightarrow>
     if attrs = [] then (m, visited)
     else let rows = order_rows x (filter (\<lambda>r. r_ident r \<in> a_ident ` set attrs) (joined c (\<lambda>d. c_e d = e)));
              s = foldl (forward_row x attrs depth visited)
                    \<lparr>counts = \<lambda>_. 0, found_idents = {}, pending_components = [], f_map = m\<rparr> rows;
              (m', visited') = foldl (expand_component x c depth) (f_map s, visited) (pending_components s)
          in (foldl (apply_default (found_idents s)) m' attrs, visited'))"

text \<open>Reverse attributes: the entities that refer to the entity, grouped by attribute.\<close>

definition reverse_row ::
  "attr_spec list \<Rightarrow> (string \<Rightarrow> nat) \<times> (string \<Rightarrow> int list option) \<Rightarrow> pull_row \<Rightarrow> (string \<Rightarrow> nat) \<times> (string \<Rightarrow> int list option)" where
  "reverse_row attrs st r = (case st of (cnt, refs) \<Rightarrow>
     let ident = r_ident r in
     if max_rows (spec_by_ident attrs ident) \<le> cnt ident then (cnt, refs)
     else (cnt(ident := cnt ident + 1), refs(ident \<mapsto> (case refs ident of Some es \<Rightarrow> es | None \<Rightarrow> []) @ [r_e r])))"

definition reverse_entry :: "(string \<Rightarrow> int list option) \<Rightarrow> json_map \<Rightarrow> attr_spec \<Rightarrow> json_map" where
  "reverse_entry refs m a =
     (let key = output_key (Some a) (a_display a) in
      case refs (a_ident a) of
        Some ref_ids \<Rightarrow> json_insert key (JArray (map (\<lambda>i. JObject (id_map i)) ref_ids)) m
      | None \<Rightarrow> (case a_default a of Some v \<Rightarrow> json_insert key v m | None \<Rightarrow> m))"

definition pull_reverse_attributes_batched ::
  "'x pullenv_scheme \<Rightarrow> pull_ctx \<Rightarrow> int \<Rightarrow> attr_spec list \<Rightarrow> json_map \<Rightarrow> json_map" where
  "pull_reverse_attributes_batched x c e attrs m =
     (if attrs = [] then m
      else let rows = order_rows x (filter (\<lambda>r. r_ident r \<in> a_ident ` set attrs) (joined c (is_ref_to e)));
               (cnt, refs) = foldl (reverse_row attrs) (\<lambda>_. 0, Map.empty) rows
           in foldl (reverse_entry refs) m attrs)"

section \<open>Evaluation\<close>

primrec spec_ident :: "pull_attr_spec \<Rightarrow> string option" where
  "spec_ident (Attribute i rv f rn df l) = Some f"
| "spec_ident (MapSpec i rv f sub rn l) = Some f"
| "spec_ident (RecursiveSpec i rv f d rn) = Some f"
| "spec_ident Wildcard = None"

definition override_idents :: "pull_attr_spec list \<Rightarrow> string set" where
  "override_idents specs = (if Wildcard \<in> set specs then set (List.map_filter spec_ident specs) else {})"

primrec attr_of :: "bool \<Rightarrow> pull_attr_spec \<Rightarrow> attr_spec option" where
  "attr_of b (Attribute i rv f rn df l) =
     (if rv = b then Some \<lparr>a_display = i, a_ident = f, a_rename = rn, a_default = df, a_limit = l\<rparr> else None)"
| "attr_of b (MapSpec i rv f sub rn l) = None"
| "attr_of b (RecursiveSpec i rv f d rn) = None"
| "attr_of b Wildcard = None"

definition forward_attrs :: "pull_attr_spec list \<Rightarrow> attr_spec list" where
  "forward_attrs specs = List.map_filter (attr_of False) specs"

definition reverse_attrs :: "pull_attr_spec list \<Rightarrow> attr_spec list" where
  "reverse_attrs specs = List.map_filter (attr_of True) specs"

definition pull_attributes ::
  "'x pullenv_scheme \<Rightarrow> pull_ctx \<Rightarrow> nat \<Rightarrow> int \<Rightarrow> pull_attr_spec list \<Rightarrow> json_map \<times> int set \<Rightarrow> json_map \<times> int set" where
  "pull_attributes x c depth e specs st =
     (case pull_forward_attributes_batched x c depth e (forward_attrs specs) st of
        (m, visited) \<Rightarrow> (pull_reverse_attributes_batched x c e (reverse_attrs specs) m, visited))"

definition recursion_limit :: "recursion_depth \<Rightarrow> nat" where
  "recursion_limit d = (case d of Bounded n \<Rightarrow> n | Unbounded \<Rightarrow> MAX_RECURSION_DEPTH)"

text \<open>The greatest depth that the specifications can ask for; it only serves to see that the recursion
  ends.\<close>

primrec spec_bound :: "pull_attr_spec \<Rightarrow> nat" where
  "spec_bound (Attribute i rv f rn df l) = 0"
| "spec_bound (MapSpec i rv f sub rn l) = foldr max (map spec_bound sub) 0"
| "spec_bound (RecursiveSpec i rv f d rn) = recursion_limit d"
| "spec_bound Wildcard = 0"

definition depth_bound :: "pull_attr_spec list \<Rightarrow> nat" where
  "depth_bound specs = max MAX_RECURSION_DEPTH (foldr max (map spec_bound specs) 0)"

lemma depth_bound_simps:
  "MAX_RECURSION_DEPTH \<le> depth_bound specs" "depth_bound rest \<le> depth_bound (s # rest)"
  "depth_bound sub \<le> depth_bound (MapSpec i rv f sub rn l # rest)"
  "depth_bound [RecursiveSpec i rv f d rn] \<le> depth_bound (RecursiveSpec i' rv' f' d rn' # rest)"
  "recursion_limit d \<le> depth_bound [RecursiveSpec i rv f d rn]"
  by (auto simp: depth_bound_def)

lemma depth_bound_steps:
  "depth_bound rest - n \<noteq> depth_bound (s # rest) - n \<Longrightarrow> depth_bound rest - n < depth_bound (s # rest) - n"
  "depth_bound sub - n \<noteq> depth_bound (MapSpec i rv f sub rn l # rest) - n
    \<Longrightarrow> depth_bound sub - n < depth_bound (MapSpec i rv f sub rn l # rest) - n"
  "depth_bound [RecursiveSpec i rv f d rn] - n \<noteq> depth_bound (RecursiveSpec i rv f d rn # rest) - n
    \<Longrightarrow> depth_bound [RecursiveSpec i rv f d rn] - n < depth_bound (RecursiveSpec i rv f d rn # rest) - n"
  "n < MAX_RECURSION_DEPTH \<Longrightarrow> depth_bound sub - Suc n < depth_bound sub - n"
  "n < recursion_limit d \<Longrightarrow> depth_bound [RecursiveSpec i rv f d rn] - Suc n < depth_bound [RecursiveSpec i rv f d rn] - n"
  using depth_bound_simps(1) [of sub] depth_bound_simps(2) [of rest s] depth_bound_simps(3) [of sub i rv f rn l rest]
    depth_bound_simps(4) [of i rv f d rn i rv f rn rest] depth_bound_simps(5) [of d i rv f rn]
  by linarith+

text \<open>\<open>map_each\<close> and \<open>rec_each\<close> are the loops over the references of a map specification and of a
  recursive one.  \<open>rec_each\<close> repeats the test on the depth with which \<open>pull_recursive\<close> begins.\<close>

function execute_pull ::
    "'x pullenv_scheme \<Rightarrow> pull_ctx \<Rightarrow> nat \<Rightarrow> int \<Rightarrow> pull_attr_spec list \<Rightarrow> json_map \<times> int set \<Rightarrow> json_map \<times> int set"
  and pull_specs ::
    "'x pullenv_scheme \<Rightarrow> pull_ctx \<Rightarrow> nat \<Rightarrow> int \<Rightarrow> string set \<Rightarrow> pull_attr_spec list \<Rightarrow> json_map \<times> int set \<Rightarrow> json_map \<times> int set"
  and map_each ::
    "'x pullenv_scheme \<Rightarrow> pull_ctx \<Rightarrow> nat \<Rightarrow> pull_attr_spec list \<Rightarrow> int list \<Rightarrow> int set \<Rightarrow> json list \<times> int set"
  and rec_each ::
    "'x pullenv_scheme \<Rightarrow> pull_ctx \<Rightarrow> nat \<Rightarrow> string \<Rightarrow> bool \<Rightarrow> string \<Rightarrow> recursion_depth \<Rightarrow> string option \<Rightarrow> int list \<Rightarrow> int set
      \<Rightarrow> json list \<times> int set" where
  "execute_pull x c depth e specs st =
     pull_specs x c depth e (override_idents specs) specs (pull_attributes x c depth e specs st)"
| "pull_specs x c depth e ov [] st = st"
| "pull_specs x c depth e ov (spec # rest) st =
     pull_specs x c depth e ov rest (case spec of
         Wildcard \<Rightarrow> pull_wildcard x c depth ov e st
       | MapSpec ident rv f sub rn l \<Rightarrow>
           (let ref_ids = (if rv then query_reverse_refs x c e f l else query_forward_refs x c e f l);
                key = (case rn of Some k \<Rightarrow> k | None \<Rightarrow> if rv then ident else f);
                one = (\<not> rv \<and> schema_cardinality c f = ''one'')
            in if ref_ids = [] then st
               else case map_each x c depth sub (if one then take 1 ref_ids else ref_ids) (snd st) of
                 (vs, visited) \<Rightarrow> (json_insert key (if one then hd vs else JArray vs) (fst st), visited))
       | RecursiveSpec ident rv f d rn \<Rightarrow>
           if recursion_limit d \<le> depth then st
           else
           (let ref_ids = (if rv then query_reverse_refs x c e f None else query_forward_refs x c e f None);
                key = (case rn of Some k \<Rightarrow> k | None \<Rightarrow> ident);
                one = (\<not> rv \<and> schema_cardinality c f = ''one'')
            in if ref_ids = [] then st
               else case rec_each x c depth ident rv f d rn (if one then take 1 ref_ids else ref_ids) (snd st) of
                 (vs, visited) \<Rightarrow> (json_insert key (if one then hd vs else JArray vs) (fst st), visited))
       | Attribute ident rv f rn df l \<Rightarrow> st)"
| "map_each x c depth sub [] visited = ([], visited)"
| "map_each x c depth sub (r # rs) visited =
     (case (if depth < MAX_RECURSION_DEPTH then execute_pull x c (depth + 1) r sub (id_map r, insert r visited)
            else (id_map r, insert r visited)) of
        (m, visited1) \<Rightarrow>
          (case map_each x c depth sub rs (if r \<notin> visited then visited1 - {r} else visited1) of
             (vs, visited2) \<Rightarrow> (JObject m # vs, visited2)))"
| "rec_each x c depth ident rv f d rn [] visited = ([], visited)"
| "rec_each x c depth ident rv f d rn (r # rs) visited =
     (if r \<in> visited then
        (case rec_each x c depth ident rv f d rn rs visited of (vs, visited1) \<Rightarrow> (JObject (id_map r) # vs, visited1))
      else
        (case (if depth < recursion_limit d
               then execute_pull x c (depth + 1) r [RecursiveSpec ident rv f d rn]
                      (pull_all_attributes_for_recursive x c (depth + 1) f r (id_map r, insert r visited))
               else (id_map r, insert r visited)) of
           (m, visited1) \<Rightarrow>
             (case rec_each x c depth ident rv f d rn rs (visited1 - {r}) of
                (vs, visited2) \<Rightarrow> (JObject m # vs, visited2))))"
  by pat_completeness auto
termination
proof (relation "inv_image (less_than <*lex*> less_than <*lex*> less_than) (\<lambda>t. case t of
      Inl (Inl (x, c, depth, e, specs, st)) \<Rightarrow> (depth_bound specs - depth, 3, 0)
    | Inl (Inr (x, c, depth, e, ov, specs, st)) \<Rightarrow> (depth_bound specs - depth, 2, length specs)
    | Inr (Inl (x, c, depth, sub, rs, visited)) \<Rightarrow> (depth_bound sub - depth, 1, length rs)
    | Inr (Inr (x, c, depth, i, rv, f, d, rn, rs, visited)) \<Rightarrow> (depth_bound [RecursiveSpec i rv f d rn] - depth, 1, length rs))")
qed (auto intro: depth_bound_steps)

declare execute_pull.simps [simp del] pull_specs.simps [simp del] map_each.simps [simp del] rec_each.simps [simp del]

section \<open>Several entities at once\<close>

primrec any_attr :: "pull_attr_spec \<Rightarrow> attr_spec option" where
  "any_attr (Attribute i rv f rn df l) = Some \<lparr>a_display = i, a_ident = f, a_rename = rn, a_default = df, a_limit = l\<rparr>"
| "any_attr (MapSpec i rv f sub rn l) = None"
| "any_attr (RecursiveSpec i rv f d rn) = None"
| "any_attr Wildcard = None"

type_synonym results = "int \<Rightarrow> json_map option"

definition in_map :: "int \<Rightarrow> (json_map \<Rightarrow> json_map) \<Rightarrow> results \<Rightarrow> results" where
  "in_map e f res = (case res e of None \<Rightarrow> res | Some m \<Rightarrow> res(e \<mapsto> f m))"

text \<open>The first pass, which defers component references.\<close>

definition batch_row ::
  "'x pgx_scheme \<Rightarrow> attr_spec list \<Rightarrow> results \<times> (int \<times> string \<times> string \<times> int) list \<Rightarrow> pull_row
    \<Rightarrow> results \<times> (int \<times> string \<times> string \<times> int) list" where
  "batch_row x attrs st r = (case st of (res, pending) \<Rightarrow>
     let key = output_key (spec_by_ident attrs (r_ident r)) (r_ident r) in
     case ref_target (r_v r) of
       Some rid \<Rightarrow>
         if r_component r then (res, pending @ [(r_e r, key, r_cardinality r, rid)])
         else (in_map (r_e r) (\<lambda>m. insert_value m key (JObject (id_map rid)) (r_cardinality r)) res, pending)
     | None \<Rightarrow> (in_map (r_e r) (\<lambda>m. insert_value m key (decode_row_typed_value x (r_v r)) (r_cardinality r)) res, pending))"

definition component_row :: "'x pgx_scheme \<Rightarrow> results \<Rightarrow> pull_row \<Rightarrow> results" where
  "component_row x maps r =
     in_map (r_e r) (\<lambda>m. insert_value m (r_ident r)
       (case ref_target (r_v r) of Some rid \<Rightarrow> JObject (id_map rid) | None \<Rightarrow> decode_row_typed_value x (r_v r)) (r_cardinality r)) maps"

definition attach_component :: "results \<Rightarrow> results \<Rightarrow> int \<times> string \<times> string \<times> int \<Rightarrow> results" where
  "attach_component maps res pc = (case pc of (parent, key, cardn, rid) \<Rightarrow>
     in_map parent (\<lambda>m. insert_value m key (JObject (case maps rid of Some sub \<Rightarrow> sub | None \<Rightarrow> id_map rid)) cardn) res)"

definition empty_maps :: "int set \<Rightarrow> results" where
  "empty_maps ids e = (if e \<in> ids then Some (id_map e) else None)"

definition expand_pending ::
  "'x pullenv_scheme \<Rightarrow> pull_ctx \<Rightarrow> (int \<times> string \<times> string \<times> int) list \<Rightarrow> results \<Rightarrow> results" where
  "expand_pending x c pending res =
     (if pending = [] then res
      else let ids = set (map (\<lambda>(parent, key, cardn, rid). rid) pending);
               maps = foldl (component_row x) (empty_maps ids) (order_rows x (joined c (\<lambda>d. c_e d \<in> ids)))
           in foldl (attach_component maps) res pending)"

definition batch_default :: "results \<Rightarrow> attr_spec \<Rightarrow> results" where
  "batch_default res a = (case a_default a of
       None \<Rightarrow> res
     | Some v \<Rightarrow> (\<lambda>e. map_option (\<lambda>m. if json_lookup (output_key (Some a) (a_ident a)) m = None
                                      then json_insert (output_key (Some a) (a_ident a)) v m else m) (res e)))"

primrec take_results :: "results \<Rightarrow> int list \<Rightarrow> json list" where
  "take_results res [] = []"
| "take_results res (e # es) = JObject (case res e of Some m \<Rightarrow> m | None \<Rightarrow> id_map e) # take_results (res(e := None)) es"

definition pull_many_batched ::
  "'x pullenv_scheme \<Rightarrow> pull_ctx \<Rightarrow> pull_attr_spec list \<Rightarrow> int list \<Rightarrow> (pull_error, json) result" where
  "pull_many_batched x c specs entity_ids =
     (let attrs = List.map_filter any_attr specs in
      if entity_ids = [] then Inr (JArray [])
      else if attrs = [] then Inl PullSyntax
      else let rows = order_rows x (filter (\<lambda>r. r_ident r \<in> a_ident ` set attrs) (joined c (\<lambda>d. c_e d \<in> set entity_ids)));
               (res, pending) = foldl (batch_row x attrs) (empty_maps (set entity_ids), []) rows;
               res' = foldl batch_default (expand_pending x c pending res) attrs
           in Inr (JArray (take_results res' entity_ids)))"

section \<open>Entry points\<close>

record pull_db =
  stores :: "(string \<times> int) list"
  catalogs :: "string \<Rightarrow> catalog"
  facts :: tables

definition get_schema_for_store :: "string \<Rightarrow> string" where
  "get_schema_for_store name = (if name = ''default'' then ''mentat'' else ''mentat_'' @ name)"

definition get_store_id_from_schema :: "pull_db \<Rightarrow> string \<Rightarrow> (pull_error, int) result" where
  "get_store_id_from_schema db schema =
     (let find = (\<lambda>name. of_option (PullMentat (InvalidStoreName name ''Store not found in mentat.stores'')) (map_of (stores db) name)) in
      if schema = ''mentat'' then find ''default''
      else if take 7 schema = ''mentat_'' then find (drop 7 schema)
      else Inl (PullMentat (InvalidStoreName schema (''Schema must be '' @ [CHR 0x27] @ ''mentat'' @ [CHR 0x27] @ '' or '' @
             [CHR 0x27] @ ''mentat_*'' @ [CHR 0x27]))))"

definition parse_pattern :: "'x pullenv_scheme \<Rightarrow> string \<Rightarrow> string \<Rightarrow> (pull_error, pull_attr_spec list) result" where
  "parse_pattern x not_vector pattern = (case parse_value x pattern of
       Inl e \<Rightarrow> Inl (PullMentat (InvalidPullPattern (''Failed to parse pull pattern as EDN: '' @ parse_text x e @
         ''. Expected a vector like [:person/name :person/age] or [*].'')))
     | Inr v \<Rightarrow> (case v of
           VVector items \<Rightarrow> parse_pull_pattern x items
         | _ \<Rightarrow> Inl (PullMentat (InvalidPullPattern not_vector))))"

definition store_ctx :: "pull_db \<Rightarrow> string \<Rightarrow> int \<Rightarrow> pull_ctx" where
  "store_ctx db schema sid = \<lparr>cx_schema = schema_rows (catalogs db schema), cx_store = sid, cx_facts = facts db\<rparr>"

definition pull_entity :: "'x pullenv_scheme \<Rightarrow> pull_ctx \<Rightarrow> pull_attr_spec list \<Rightarrow> int \<Rightarrow> json" where
  "pull_entity x c specs e = JObject (fst (execute_pull x c 0 e specs (id_map e, {e})))"

definition pull :: "'x pullenv_scheme \<Rightarrow> pull_db \<Rightarrow> string \<Rightarrow> string \<Rightarrow> int \<Rightarrow> (pull_error, json) result" where
  "pull x db store_name pattern e =
     (let schema = get_schema_for_store store_name in
      rbind (get_store_id_from_schema db schema) (\<lambda>sid.
      rbind (parse_pattern x (''Pull pattern must be a vector. '' @
          ''Expected: [:person/name :person/age] or [*] or [{:person/friends [:person/name]}]. '' @
          ''Got a non-vector EDN value.'') pattern) (\<lambda>specs.
      Inr (pull_entity x (store_ctx db schema sid) specs e))))"

definition is_complex :: "pull_attr_spec \<Rightarrow> bool" where
  "is_complex s \<longleftrightarrow> (case s of Attribute i rv f rn df l \<Rightarrow> False | _ \<Rightarrow> True)"

definition pull_many :: "'x pullenv_scheme \<Rightarrow> pull_db \<Rightarrow> string \<Rightarrow> string \<Rightarrow> int list \<Rightarrow> (pull_error, json) result" where
  "pull_many x db store_name pattern entity_ids =
     (let schema = get_schema_for_store store_name in
      rbind (get_store_id_from_schema db schema) (\<lambda>sid.
      rbind (parse_pattern x ''Pull pattern must be a vector.'' pattern) (\<lambda>specs.
      let c = store_ctx db schema sid in
      if \<not> list_ex is_complex specs then pull_many_batched x c specs entity_ids
      else Inr (JArray (map (pull_entity x c specs) entity_ids)))))"

definition mentat_pull :: "'x pullenv_scheme \<Rightarrow> pull_db \<Rightarrow> string \<Rightarrow> int \<Rightarrow> (pull_error, json) result" where
  "mentat_pull x db pattern e = pull x db ''default'' pattern e"

definition mentat_pull_many :: "'x pullenv_scheme \<Rightarrow> pull_db \<Rightarrow> string \<Rightarrow> int list \<Rightarrow> (pull_error, json) result" where
  "mentat_pull_many x db pattern entity_ids = pull_many x db ''default'' pattern entity_ids"

end
