(* ===== verification/Pull_Results.thy ===== *)
theory Pull_Results
  imports Pull "HOL-Library.Multiset"
begin

text \<open>
  What a pull returns: for a pattern of attributes, the values that are live in the log, whether
  entities are pulled one by one or in a batch; and for a pattern with recursion, a tree in which no
  entity is expanded below itself.
\<close>

section \<open>Objects\<close>

definition ordered_map :: "json_map \<Rightarrow> bool" where
  "ordered_map m \<longleftrightarrow> ascending str_cmp (map fst m)"

lemma ordered_insert [simp]: "ordered_map m \<Longrightarrow> ordered_map (json_insert k v m)"
  unfolding ordered_map_def json_insert_def by (rule str_ord.ascending_bt_insert)

lemma lookup_insert [simp]:
  "ordered_map m \<Longrightarrow> json_lookup k' (json_insert k v m) = (if k' = k then Some v else json_lookup k' m)"
  unfolding ordered_map_def json_insert_def json_lookup_def by (simp add: str_ord.bt_get_insert)

lemma ordered_insert_value [simp]: "ordered_map m \<Longrightarrow> ordered_map (insert_value m k v cardn)"
  by (simp add: insert_value_def split: option.splits json.splits)

lemma lookup_insert_value_other [simp]:
  "ordered_map m \<Longrightarrow> k' \<noteq> k \<Longrightarrow> json_lookup k' (insert_value m k v cardn) = json_lookup k' m"
  by (simp add: insert_value_def split: option.splits json.splits)

lemma id_map_simps [simp]: "ordered_map (id_map e)" "json_lookup k (id_map e) = (if k = '':db/id'' then Some (json_int e) else None)"
  by (simp_all add: ordered_map_def id_map_def json_lookup_def split: ordering.splits)

section \<open>Rows inserted one by one\<close>

text \<open>A value as attributes show it: a reference as an object with its id.\<close>

definition render :: "'x pgx_scheme \<Rightarrow> typed_value \<Rightarrow> json" where
  "render x v = (case ref_target v of Some rid \<Rightarrow> JObject (id_map rid) | None \<Rightarrow> decode_row_typed_value x v)"

definition insert_row :: "'x pgx_scheme \<Rightarrow> json_map \<Rightarrow> pull_row \<Rightarrow> json_map" where
  "insert_row x m r = insert_value m (r_ident r) (render x (r_v r)) (r_cardinality r)"

lemma ordered_insert_rows [simp]: "ordered_map m \<Longrightarrow> ordered_map (foldl (insert_row x) m rows)"
  by (induction rows rule: rev_induct) (simp_all add: insert_row_def)

lemma lookup_rows_other:
  "ordered_map m \<Longrightarrow> k \<notin> r_ident ` set rows \<Longrightarrow> json_lookup k (foldl (insert_row x) m rows) = json_lookup k m"
  by (induction rows rule: rev_induct) (auto simp: insert_row_def)

abbreviation rows_of :: "string \<Rightarrow> pull_row list \<Rightarrow> pull_row list" where
  "rows_of k rows \<equiv> filter (\<lambda>r. r_ident r = k) rows"

lemma lookup_rows_many:
  assumes "ordered_map m" "json_lookup k m = None" "\<forall>r\<in>set rows. r_ident r = k \<longrightarrow> r_cardinality r = ''many''"
  shows "json_lookup k (foldl (insert_row x) m rows) =
    (if rows_of k rows = [] then None else Some (JArray (map (\<lambda>r. render x (r_v r)) (rows_of k rows))))"
  using assms(3)
proof (induction rows rule: rev_induct)
  case (snoc r rows)
  have o: "ordered_map (foldl (insert_row x) m rows)" using assms(1) by simp
  show ?case
  proof (cases "r_ident r = k")
    case True
    then show ?thesis using snoc o by (cases "rows_of k rows = []") (simp_all add: insert_row_def [of x _ r] insert_value_def [of _ k])
  next
    case False
    then show ?thesis using snoc o by (simp add: insert_row_def [of x _ r])
  qed
qed (use assms(2) in simp)

lemma lookup_rows_one:
  assumes "ordered_map m" "json_lookup k m = None" "\<forall>r\<in>set rows. r_ident r = k \<longrightarrow> r_cardinality r \<noteq> ''many''"
  shows "json_lookup k (foldl (insert_row x) m rows) =
    (if rows_of k rows = [] then None else Some (render x (r_v (last (rows_of k rows)))))"
  using assms(3)
proof (induction rows rule: rev_induct)
  case (snoc r rows)
  have o: "ordered_map (foldl (insert_row x) m rows)" using assms(1) by simp
  show ?case
  proof (cases "r_ident r = k")
    case True
    then show ?thesis using snoc o by (simp add: insert_row_def [of x _ r] insert_value_def [of _ k])
  next
    case False
    then show ?thesis using snoc o by (simp add: insert_row_def [of x _ r])
  qed
qed (use assms(2) in simp)

section \<open>Plain patterns\<close>

definition plain :: "string \<Rightarrow> pull_attr_spec" where
  "plain i = Attribute i False i None None None"

definition plain_attr :: "string \<Rightarrow> attr_spec" where
  "plain_attr i = \<lparr>a_display = i, a_ident = i, a_rename = None, a_default = None, a_limit = None\<rparr>"

lemma plain_attrs [simp]:
  "forward_attrs (map plain idents) = map plain_attr idents" "reverse_attrs (map plain idents) = []"
  "List.map_filter any_attr (map plain idents) = map plain_attr idents" "override_idents (map plain idents) = {}"
  by (induction idents) (auto simp: forward_attrs_def reverse_attrs_def override_idents_def plain_def plain_attr_def map_filter_simps)

lemma plain_attr_ident [simp]: "a_ident (plain_attr i) = i"
  by (simp add: plain_attr_def)

lemma spec_by_ident_plain: "spec_by_ident (map plain_attr idents) i = (if i \<in> set idents then Some (plain_attr i) else None)"
  unfolding spec_by_ident_def by (induction idents rule: rev_induct) (auto simp: plain_attr_def)

lemma plain_output_key [simp]: "output_key (spec_by_ident (map plain_attr idents) i) i = i"
  by (simp add: spec_by_ident_plain output_key_def plain_attr_def)

lemma plain_max_rows [simp]: "max_rows (spec_by_ident (map plain_attr idents) i) = DEFAULT_MANY_LIMIT"
  by (simp add: spec_by_ident_plain max_rows_def plain_attr_def resolve_limit_def)

lemma pull_specs_plain [simp]: "pull_specs x c depth e ov (map plain idents) st = st"
  by (induction idents) (simp_all add: pull_specs.simps plain_def)

lemma apply_default_plain [simp]: "foldl (apply_default F) m (map plain_attr idents) = m"
  by (induction idents) (simp_all add: apply_default_def plain_attr_def)

lemma batch_default_plain [simp]: "foldl batch_default res (map plain_attr idents) = res"
  by (induction idents) (simp_all add: batch_default_def plain_attr_def)

lemma forward_rows:
  assumes "\<forall>r\<in>set rows. r_component r \<longrightarrow> ref_target (r_v r) = None" "\<forall>k. length (rows_of k rows) \<le> DEFAULT_MANY_LIMIT"
  shows "foldl (forward_row x (map plain_attr idents) depth visited)
      \<lparr>counts = \<lambda>_. 0, found_idents = {}, pending_components = [], f_map = m\<rparr> rows
    = \<lparr>counts = \<lambda>k. length (rows_of k rows), found_idents = r_ident ` set rows, pending_components = [],
        f_map = foldl (insert_row x) m rows\<rparr>"
  using assms
proof (induction rows rule: rev_induct)
  case (snoc r rows)
  have "length (rows_of k rows) \<le> DEFAULT_MANY_LIMIT" for k
    using snoc.prems(2) [rule_format, of k] by simp
  moreover have "length (rows_of (r_ident r) rows) < DEFAULT_MANY_LIMIT" using snoc.prems(2) [rule_format, of "r_ident r"] by simp
  ultimately show ?case using snoc
    by (auto simp: forward_row_def Let_def insert_row_def [of x _ r] render_def [of x "r_v r"] fun_eq_iff split: option.splits)
qed simp

lemma execute_pull_plain:
  assumes "\<forall>r\<in>set rows. r_component r \<longrightarrow> ref_target (r_v r) = None" "\<forall>k. length (rows_of k rows) \<le> DEFAULT_MANY_LIMIT"
    and "rows = order_rows x (filter (\<lambda>r. r_ident r \<in> set idents) (joined c (\<lambda>d. c_e d = e)))" "idents \<noteq> []"
  shows "execute_pull x c depth e (map plain idents) (m, visited) = (foldl (insert_row x) m rows, visited)"
  using assms(4)
  by (simp add: execute_pull.simps pull_attributes_def pull_forward_attributes_batched_def pull_reverse_attributes_batched_def
      image_image forward_rows [OF assms(1,2)] flip: assms(3))

lemma in_map_Some: "res e = Some m \<Longrightarrow> in_map e f res = res(e \<mapsto> f m)"
  by (simp add: in_map_def)

lemma batch_rows:
  assumes "\<forall>r\<in>set rows. r_component r \<longrightarrow> ref_target (r_v r) = None" "\<forall>r\<in>set rows. r_e r \<in> S"
  shows "foldl (batch_row x (map plain_attr idents)) (empty_maps S, []) rows
    = (\<lambda>e. if e \<in> S then Some (foldl (insert_row x) (id_map e) (filter (\<lambda>r. r_e r = e) rows)) else None, [])"
  using assms
proof (induction rows rule: rev_induct)
  case (snoc r rows)
  then show ?case
    by (auto simp: batch_row_def Let_def in_map_Some insert_row_def [of x _ r] render_def [of x "r_v r"] fun_eq_iff split: option.splits)
qed (simp add: empty_maps_def fun_eq_iff)

lemma take_results_distinct:
  "distinct ids \<Longrightarrow> take_results res ids = map (\<lambda>e. JObject (case res e of Some m \<Rightarrow> m | None \<Rightarrow> id_map e)) ids"
  by (induction ids arbitrary: res) (auto intro!: map_cong)

section \<open>Rows and live values\<close>

lemma filter_joined: "filter (\<lambda>r. r_e r = e) (joined c P) = joined c (\<lambda>d. P d \<and> c_e d = e)"
proof -
  have "filter (\<lambda>r. r_e r = e) (concat (map (\<lambda>d. map (\<lambda>s. \<lparr>r_e = c_e d, r_attr = s, r_v = c_v d\<rparr>) (f d)) (filter Q ds)))
    = concat (map (\<lambda>d. map (\<lambda>s. \<lparr>r_e = c_e d, r_attr = s, r_v = c_v d\<rparr>) (f d)) (filter (\<lambda>d. Q d \<and> c_e d = e) ds))"
    for f Q and ds :: "cur_row list"
    by (induction ds) (auto simp: filter_map comp_def)
  then show ?thesis by (simp add: joined_def conj_assoc)
qed

lemma joined_entity: "r \<in> set (joined c P) \<Longrightarrow> \<exists>d\<in>set (current (cx_facts c)). P d \<and> c_e d = r_e r"
  by (auto simp: joined_def)

definition schema_ok :: "schema_row list \<Rightarrow> bool" where
  "schema_ok S \<longleftrightarrow> distinct (map s_entid S) \<and> distinct (map s_ident S)"

lemma filter_key: "distinct (map f xs) \<Longrightarrow> y \<in> set xs \<Longrightarrow> filter (\<lambda>z. f z = f y) xs = [y]"
proof (induction xs)
  case (Cons z xs)
  then show ?case by (cases "y = z") (auto simp: filter_empty_conv image_iff)
qed simp

lemma rows_of_joined:
  assumes "schema_ok (cx_schema c)" "s \<in> set (cx_schema c)"
  shows "rows_of (s_ident s) (joined c P) = map (\<lambda>d. \<lparr>r_e = c_e d, r_attr = s, r_v = c_v d\<rparr>)
    (filter (\<lambda>d. c_store d = cx_store c \<and> P d \<and> c_a d = s_entid s) (current (cx_facts c)))"
proof -
  have pick: "filter (\<lambda>z. s_ident z = s_ident s \<and> s_entid z = a) (cx_schema c) = (if a = s_entid s then [s] else [])" for a
  proof -
    have "filter (\<lambda>z. s_ident z = s_ident s) (cx_schema c) = [s]"
      using filter_key [of s_ident "cx_schema c" s] assms by (simp add: schema_ok_def)
    then have "filter (\<lambda>z. s_entid z = a) (filter (\<lambda>z. s_ident z = s_ident s) (cx_schema c)) = (if a = s_entid s then [s] else [])" by simp
    then show ?thesis by (simp add: conj_commute)
  qed
  have one: "rows_of (s_ident s) (map (\<lambda>z. \<lparr>r_e = c_e d, r_attr = z, r_v = c_v d\<rparr>) (filter (\<lambda>z. s_entid z = c_a d) (cx_schema c)))
      = (if c_a d = s_entid s then [\<lparr>r_e = c_e d, r_attr = s, r_v = c_v d\<rparr>] else [])" for d
    using pick [of "c_a d"] by (simp add: filter_map comp_def conj_commute)
  have "rows_of (s_ident s) (concat (map (\<lambda>d. map (\<lambda>z. \<lparr>r_e = c_e d, r_attr = z, r_v = c_v d\<rparr>) (filter (\<lambda>z. s_entid z = c_a d) (cx_schema c))) (filter Q ds)))
    = map (\<lambda>d. \<lparr>r_e = c_e d, r_attr = s, r_v = c_v d\<rparr>) (filter (\<lambda>d. Q d \<and> c_a d = s_entid s) ds)" for Q and ds :: "cur_row list"
  proof (induction ds)
    case (Cons d ds)
    then show ?case using one [of d] by (cases "Q d"; cases "c_a d = s_entid s") simp_all
  qed simp
  then show ?thesis by (simp add: joined_def conj_assoc)
qed

abbreviation live_values :: "pull_ctx \<Rightarrow> int \<Rightarrow> int \<Rightarrow> typed_value set" where
  "live_values c e a \<equiv> {v. live (cx_facts c) (cx_store c, e, a, v) \<noteq> None}"

lemma values_joined:
  assumes "schema_ok (cx_schema c)" "s \<in> set (cx_schema c)" "proj_ok (cx_facts c)"
  shows "distinct (map r_v (rows_of (s_ident s) (joined c (\<lambda>d. c_e d = e))))"
    and "set (map r_v (rows_of (s_ident s) (joined c (\<lambda>d. c_e d = e)))) = live_values c e (s_entid s)"
proof -
  let ?ds = "filter (\<lambda>d. c_store d = cx_store c \<and> c_e d = e \<and> c_a d = s_entid s) (current (cx_facts c))"
  have vs: "map r_v (rows_of (s_ident s) (joined c (\<lambda>d. c_e d = e))) = map c_v ?ds"
    unfolding rows_of_joined [OF assms(1,2)] by simp
  have pk: "distinct (map cur_key (current (cx_facts c)))" and pl: "live (cx_facts c) = proj (cx_facts c)"
    using assms(3) by (simp_all add: proj_ok_def primary_keys_def)
  have "distinct (map cur_key ?ds)" using pk by (rule distinct_map_filter)
  moreover have "map cur_key ?ds = map (\<lambda>v. (cx_store c, e, s_entid s, v)) (map c_v ?ds)" by (auto simp: cur_key_def)
  ultimately have "distinct (map (\<lambda>v. (cx_store c, e, s_entid s, v)) (map c_v ?ds))" by simp
  then have "distinct (map c_v ?ds)" unfolding distinct_map [of _ "map c_v ?ds"] by (rule conjunct1)
  then show "distinct (map r_v (rows_of (s_ident s) (joined c (\<lambda>d. c_e d = e))))" unfolding vs .
  have "proj (cx_facts c) k \<noteq> None \<longleftrightarrow> k \<in> cur_key ` set (current (cx_facts c))" for k
    by (simp add: proj_def map_of_eq_None_iff image_image)
  then show "set (map r_v (rows_of (s_ident s) (joined c (\<lambda>d. c_e d = e)))) = live_values c e (s_entid s)"
    unfolding vs pl by (force simp: cur_key_def image_iff)
qed

section \<open>What a plain pattern promises\<close>

text \<open>The answer for an entity: its id, and for each attribute of the pattern the values that are live
  in the log, as an array or as the value.\<close>

definition answers :: "'x pgx_scheme \<Rightarrow> pull_ctx \<Rightarrow> int \<Rightarrow> string list \<Rightarrow> json_map \<Rightarrow> bool" where
  "answers x c e idents m \<longleftrightarrow>
     json_lookup '':db/id'' m = Some (json_int e)
   \<and> (\<forall>k. k \<noteq> '':db/id'' \<longrightarrow> k \<notin> set idents \<inter> s_ident ` set (cx_schema c) \<longrightarrow> json_lookup k m = None)
   \<and> (\<forall>s\<in>set (cx_schema c). s_ident s \<in> set idents \<longrightarrow>
        (if live_values c e (s_entid s) = {} then json_lookup (s_ident s) m = None
         else if cardinality (s_info s) = ''many''
         then \<exists>vs. distinct vs \<and> set vs = live_values c e (s_entid s) \<and> json_lookup (s_ident s) m = Some (JArray (map (render x) vs))
         else \<exists>v\<in>live_values c e (s_entid s). json_lookup (s_ident s) m = Some (render x v)))"

text \<open>What is relied on: the server returns the rows of a query in some order, the schema has one row for
  each attribute, the projection is the current state of the log, and the attributes of the pattern
  are no components and have no more live values than the default limit.\<close>

definition plain_ok :: "'x pullenv_scheme \<Rightarrow> pull_ctx \<Rightarrow> string list \<Rightarrow> int set \<Rightarrow> bool" where
  "plain_ok x c idents E \<longleftrightarrow>
     (\<forall>rows. mset (order_rows x rows) = mset rows) \<and> schema_ok (cx_schema c) \<and> proj_ok (cx_facts c)
   \<and> idents \<noteq> [] \<and> '':db/id'' \<notin> set idents
   \<and> (\<forall>s\<in>set (cx_schema c). s_ident s \<in> set idents \<longrightarrow> \<not> component (s_info s)
        \<and> (\<forall>e\<in>E. card (live_values c e (s_entid s)) \<le> DEFAULT_MANY_LIMIT))"

lemma joined_schema: "r \<in> set (joined c P) \<Longrightarrow> r_attr r \<in> set (cx_schema c)"
  by (auto simp: joined_def)

definition wanted :: "pull_ctx \<Rightarrow> string list \<Rightarrow> int \<Rightarrow> pull_row list" where
  "wanted c idents e = filter (\<lambda>r. r_ident r \<in> set idents) (joined c (\<lambda>d. c_e d = e))"

lemma wanted_row:
  assumes "plain_ok x c idents E" "r \<in> set (wanted c idents e)"
  shows "\<not> r_component r" "r_attr r \<in> set (cx_schema c)" "r_ident r \<in> set idents" "r_e r = e"
proof -
  have "r \<in> set (joined c (\<lambda>d. c_e d = e))" "r_ident r \<in> set idents" using assms(2) by (simp_all add: wanted_def)
  then show "r_attr r \<in> set (cx_schema c)" "r_ident r \<in> set idents" "r_e r = e"
    using joined_schema [of r] joined_entity [of r c "\<lambda>d. c_e d = e"] by auto
  then show "\<not> r_component r" using assms(1) by (simp add: plain_ok_def)
qed

lemma wanted_values:
  assumes "plain_ok x c idents E" "s \<in> set (cx_schema c)" "s_ident s \<in> set idents" "mset rows = mset (wanted c idents e)"
  shows "distinct (map r_v (rows_of (s_ident s) rows))" "set (map r_v (rows_of (s_ident s) rows)) = live_values c e (s_entid s)"
    "\<forall>r\<in>set (rows_of (s_ident s) rows). r_attr r = s"
proof -
  have ok: "schema_ok (cx_schema c)" "proj_ok (cx_facts c)" using assms(1) by (simp_all add: plain_ok_def)
  have w: "rows_of (s_ident s) (wanted c idents e) = rows_of (s_ident s) (joined c (\<lambda>d. c_e d = e))"
    unfolding wanted_def filter_filter by (rule filter_cong) (use assms(3) in auto)
  have "mset (rows_of (s_ident s) rows) = mset (rows_of (s_ident s) (joined c (\<lambda>d. c_e d = e)))"
    unfolding w [symmetric] mset_filter assms(4) ..
  then have m: "mset (map r_v (rows_of (s_ident s) rows)) = mset (map r_v (rows_of (s_ident s) (joined c (\<lambda>d. c_e d = e))))"
      "set (rows_of (s_ident s) rows) = set (rows_of (s_ident s) (joined c (\<lambda>d. c_e d = e)))"
    unfolding mset_map by (metis, rule mset_eq_setD)
  show "distinct (map r_v (rows_of (s_ident s) rows))"
    using mset_eq_imp_distinct_iff [OF m(1)] values_joined(1) [OF ok(1) assms(2) ok(2)] by blast
  show "set (map r_v (rows_of (s_ident s) rows)) = live_values c e (s_entid s)"
    using mset_eq_setD [OF m(1)] values_joined(2) [OF ok(1) assms(2) ok(2)] by blast
  show "\<forall>r\<in>set (rows_of (s_ident s) rows). r_attr r = s" unfolding m(2) rows_of_joined [OF ok(1) assms(2)] by simp
qed

lemma answers_rows:
  assumes "plain_ok x c idents E" "mset rows = mset (wanted c idents e)"
  shows "answers x c e idents (foldl (insert_row x) (id_map e) rows)"
proof -
  have set: "set rows = set (wanted c idents e)" by (rule mset_eq_setD [OF assms(2)])
  have id: "'':db/id'' \<notin> set idents" using assms(1) by (simp add: plain_ok_def)
  have idents: "r_ident r \<in> set idents \<inter> s_ident ` set (cx_schema c)" if "r \<in> set rows" for r
    using wanted_row(2,3) [OF assms(1)] that set by blast
  have out: "k \<notin> r_ident ` set rows" if "k \<notin> set idents \<inter> s_ident ` set (cx_schema c)" for k
    using idents that by (metis (no_types, lifting) imageE)
  have "json_lookup '':db/id'' (foldl (insert_row x) (id_map e) rows) = Some (json_int e)"
    using lookup_rows_other [OF id_map_simps(1) out, of "'':db/id''" x e] id by simp
  moreover have "json_lookup k (foldl (insert_row x) (id_map e) rows) = None"
    if "k \<noteq> '':db/id''" "k \<notin> set idents \<inter> s_ident ` set (cx_schema c)" for k
    using lookup_rows_other [OF id_map_simps(1) out, of k x e] that by simp
  moreover have "if live_values c e (s_entid s) = {} then json_lookup (s_ident s) (foldl (insert_row x) (id_map e) rows) = None
      else if cardinality (s_info s) = ''many''
      then \<exists>vs. distinct vs \<and> set vs = live_values c e (s_entid s)
        \<and> json_lookup (s_ident s) (foldl (insert_row x) (id_map e) rows) = Some (JArray (map (render x) vs))
      else \<exists>v\<in>live_values c e (s_entid s). json_lookup (s_ident s) (foldl (insert_row x) (id_map e) rows) = Some (render x v)"
    if s: "s \<in> set (cx_schema c)" "s_ident s \<in> set idents" for s
  proof -
    let ?rs = "rows_of (s_ident s) rows" and ?m = "foldl (insert_row x) (id_map e) rows"
    note v = wanted_values [OF assms(1) s assms(2)]
    have none: "json_lookup (s_ident s) (id_map e) = None" using s(2) id by auto
    have empty: "?rs = [] \<longleftrightarrow> live_values c e (s_entid s) = {}" unfolding v(2) [symmetric] by (auto simp: filter_empty_conv)
    have attr: "r_attr r = s" if "r \<in> set rows" "r_ident r = s_ident s" for r using v(3) that by simp
    show ?thesis
    proof (cases "cardinality (s_info s) = ''many''")
      case True
      then have "\<forall>r\<in>set rows. r_ident r = s_ident s \<longrightarrow> r_cardinality r = ''many''" using attr by metis
      then have "json_lookup (s_ident s) ?m = (if ?rs = [] then None else Some (JArray (map (\<lambda>r. render x (r_v r)) ?rs)))"
        by (rule lookup_rows_many [OF id_map_simps(1) none])
      then have "json_lookup (s_ident s) ?m = (if ?rs = [] then None else Some (JArray (map (render x) (map r_v ?rs))))"
        by (simp add: comp_def)
      then show ?thesis using True v(1,2) empty by (metis (no_types, lifting))
    next
      case False
      then have "\<forall>r\<in>set rows. r_ident r = s_ident s \<longrightarrow> r_cardinality r \<noteq> ''many''" using attr by metis
      then have "json_lookup (s_ident s) ?m = (if ?rs = [] then None else Some (render x (r_v (last ?rs))))"
        by (rule lookup_rows_one [OF id_map_simps(1) none])
      moreover have "r_v (last ?rs) \<in> live_values c e (s_entid s)" if "?rs \<noteq> []"
        unfolding v(2) [symmetric] using last_in_set [OF that] by simp
      ultimately show ?thesis using False empty by auto
    qed
  qed
  ultimately show ?thesis unfolding answers_def by blast
qed

lemma wanted_limit:
  assumes "plain_ok x c idents E" "e \<in> E" "mset rows = mset (wanted c idents e)"
  shows "length (rows_of k rows) \<le> DEFAULT_MANY_LIMIT"
proof (cases "rows_of k rows = []")
  case False
  then obtain r where r: "r \<in> set rows" "r_ident r = k" by (auto simp: filter_empty_conv)
  let ?s = "r_attr r"
  have s: "?s \<in> set (cx_schema c)" "s_ident ?s \<in> set idents"
    using wanted_row(2,3) [OF assms(1)] mset_eq_setD [OF assms(3)] r(1) by blast+
  have "length (rows_of k rows) = card (live_values c e (s_entid ?s))"
    using wanted_values(1,2) [OF assms(1) s assms(3)] distinct_card r(2) by (metis length_map)
  then show ?thesis using assms(1,2) s by (simp add: plain_ok_def)
qed simp

lemma pull_entity_plain:
  assumes "plain_ok x c idents {e}"
  shows "pull_entity x c (map plain idents) e = JObject (foldl (insert_row x) (id_map e) (order_rows x (wanted c idents e)))"
proof -
  let ?rows = "order_rows x (wanted c idents e)"
  have m: "mset ?rows = mset (wanted c idents e)" and ne: "idents \<noteq> []" using assms by (simp_all add: plain_ok_def)
  have "\<forall>r\<in>set ?rows. r_component r \<longrightarrow> ref_target (r_v r) = None"
    using wanted_row(1) [OF assms] mset_eq_setD [OF m] by blast
  then show ?thesis
    using execute_pull_plain [OF _ _ _ ne, of ?rows x c e 0 "id_map e" "{e}"] wanted_limit [OF assms _ m]
    by (simp add: pull_entity_def wanted_def)
qed

lemma pull_many_plain:
  assumes "plain_ok x c idents (set es)" "distinct es"
  shows "\<exists>ms. pull_many_batched x c (map plain idents) es = Inr (JArray (map JObject ms)) \<and> list_all2 (\<lambda>e. answers x c e idents) es ms"
proof (cases "es = []")
  case True
  then show ?thesis by (simp add: pull_many_batched_def)
next
  case False
  let ?w = "filter (\<lambda>r. r_ident r \<in> set idents) (joined c (\<lambda>d. c_e d \<in> set es))"
  let ?rows = "order_rows x ?w" and ?m = "\<lambda>e. foldl (insert_row x) (id_map e) (filter (\<lambda>r. r_e r = e) (order_rows x ?w))"
  have m: "mset ?rows = mset ?w" and ne: "idents \<noteq> []" using assms(1) by (simp_all add: plain_ok_def)
  have w: "filter (\<lambda>r. r_e r = e) ?w = wanted c idents e" if "e \<in> set es" for e
  proof -
    have "filter (\<lambda>r. r_e r = e) ?w = filter (\<lambda>r. r_ident r \<in> set idents) (filter (\<lambda>r. r_e r = e) (joined c (\<lambda>d. c_e d \<in> set es)))"
      by (simp add: conj_commute)
    also have "\<dots> = wanted c idents e"
      unfolding filter_joined wanted_def using that by (intro arg_cong [where f = "filter _"] arg_cong [where f = "joined c"]) auto
    finally show ?thesis .
  qed
  have rows: "\<not> r_component r" "r_e r \<in> set es" if "r \<in> set ?rows" for r
  proof -
    have r: "r \<in> set ?w" using that mset_eq_setD [OF m] by blast
    then show e: "r_e r \<in> set es" using joined_entity [of r c "\<lambda>d. c_e d \<in> set es"] by auto
    have "r \<in> set (filter (\<lambda>q. r_e q = r_e r) ?w)" using r by simp
    then have "r \<in> set (wanted c idents (r_e r))" unfolding w [OF e] .
    then show "\<not> r_component r" by (rule wanted_row(1) [OF assms(1)])
  qed
  have "answers x c e idents (?m e)" if "e \<in> set es" for e
  proof (rule answers_rows [OF assms(1)])
    show "mset (filter (\<lambda>r. r_e r = e) ?rows) = mset (wanted c idents e)" unfolding w [OF that, symmetric] mset_filter m ..
  qed
  then have "list_all2 (\<lambda>e. answers x c e idents) es (map ?m es)" by (simp add: list_all2_map2 list_all2_same)
  moreover have "pull_many_batched x c (map plain idents) es = Inr (JArray (map JObject (map ?m es)))"
  proof -
    have b: "foldl (batch_row x (map plain_attr idents)) (empty_maps (set es), []) ?rows = (\<lambda>e. if e \<in> set es then Some (?m e) else None, [])"
      by (rule batch_rows) (use rows in auto)
    have t: "take_results (\<lambda>e. if e \<in> set es then Some (?m e) else None) es = map (\<lambda>e. JObject (?m e)) es"
      unfolding take_results_distinct [OF assms(2)] by (rule map_cong) simp_all
    show ?thesis using False ne b t by (simp add: pull_many_batched_def image_image expand_pending_def Let_def comp_def)
  qed
  ultimately show ?thesis by blast
qed

text \<open>Patterns of keywords.\<close>

definition kw_ident :: "keyword \<Rightarrow> string" where
  "kw_ident kw = fst (parse_keyword kw)"

lemma parse_keywords:
  assumes "\<forall>kw\<in>set kws. take 1 (kw_name kw) \<noteq> ''_''"
  shows "parse_pull_pattern x (map VKeyword kws) = Inr (map plain (map kw_ident kws))"
  using assms
  by (induction kws) (simp_all add: parse_keyword_def kw_ident_def plain_def Let_def)

lemma get_store_id: "get_store_id_from_schema db (get_schema_for_store n) = of_option (PullMentat (InvalidStoreName n ''Store not found in mentat.stores'')) (map_of (stores db) n)"
  by (simp add: get_store_id_from_schema_def get_schema_for_store_def)

section \<open>Properties of plain patterns\<close>

text \<open>C8. A pull of a pattern of forward attributes gives, for each of them, exactly the values that are
  live in the log: an array of them, each once, for an attribute of cardinality many, one of them
  otherwise, and no entry where there is none.  The attributes are no components and stay within the
  default limit, and the projection is that of the log (\<open>plain_ok\<close>).\<close>

theorem pull_live_values:
  assumes "parse_value x pattern = Inr (VVector (map VKeyword kws))" "\<forall>kw\<in>set kws. take 1 (kw_name kw) \<noteq> ''_''"
    and "map_of (stores db) store_name = Some sid" "plain_ok x (store_ctx db (get_schema_for_store store_name) sid) (map kw_ident kws) {e}"
  shows "\<exists>m. pull x db store_name pattern e = Inr (JObject m)
    \<and> answers x (store_ctx db (get_schema_for_store store_name) sid) e (map kw_ident kws) m"
proof -
  have "mset (order_rows x rows) = mset rows" for rows using assms(4) by (simp add: plain_ok_def)
  then show ?thesis
    using pull_entity_plain [OF assms(4)] answers_rows [OF assms(4)]
    by (simp add: pull_def get_store_id parse_pattern_def assms(1,3) parse_keywords [OF assms(2)])
qed

text \<open>C16. Pulling several entities in one batch gives, for such a pattern and different entities, one answer for
  each entity in the order of the request, with the same promise as pulling them one by one.\<close>

theorem pull_many_live_values:
  assumes "parse_value x pattern = Inr (VVector (map VKeyword kws))" "\<forall>kw\<in>set kws. take 1 (kw_name kw) \<noteq> ''_''"
    and "map_of (stores db) store_name = Some sid" "plain_ok x (store_ctx db (get_schema_for_store store_name) sid) (map kw_ident kws) (set es)"
    and "distinct es"
  shows "\<exists>ms. pull_many x db store_name pattern es = Inr (JArray (map JObject ms))
    \<and> list_all2 (\<lambda>e. answers x (store_ctx db (get_schema_for_store store_name) sid) e (map kw_ident kws)) es ms"
proof -
  have "\<not> list_ex is_complex (map plain (map kw_ident kws))" by (induction kws) (simp_all add: is_complex_def plain_def)
  then show ?thesis
    using pull_many_plain [OF assms(4,5)]
    by (simp add: pull_many_def get_store_id parse_pattern_def assms(1,3) parse_keywords [OF assms(2)] Let_def)
qed

text \<open>Outside these patterns the batch differs from the pull of one entity: it ignores the direction of
  a reverse attribute, and an entity that is asked for twice is answered once.\<close>

lemma pull_many_reverse:
  "pull_many_batched x c [Attribute i True f rn df l] es = pull_many_batched x c [Attribute f False f rn df l] es"
proof -
  let ?a = "\<lambda>d. \<lparr>a_display = d, a_ident = f, a_rename = rn, a_default = df, a_limit = l\<rparr>"
  have "batch_row x [?a i] = batch_row x [?a f]"
    by (intro ext) (simp add: batch_row_def spec_by_ident_def output_key_def cong: option.case_cong)
  moreover have "batch_default res (?a i) = batch_default res (?a f)" for res
    by (cases df) (simp_all add: batch_default_def output_key_def cong: if_cong)
  ultimately show ?thesis by (cases "es = []") (simp_all add: pull_many_batched_def map_filter_simps Let_def)
qed

lemma take_results_twice: "take_results res [e, e] ! 1 = JObject (id_map e)"
  by simp

text \<open>An instant in the second half of a second is shown one second late.\<close>

lemma pull_instant:
  "decode_row_typed_value x (TInstant m) = json_int (if m mod 1000000 < 500000 \<or> m mod 1000000 = 500000 \<and> m < 0 then m else m + 1000000)"
proof -
  define q r where "q = m div 1000000" and "r = m mod 1000000"
  then have m: "m = 1000000 * q + r" "0 \<le> r" "r < 1000000" by simp_all
  have "(2 * m + 1000000) div 2000000 = (if r < 500000 then q else q + 1)" using m by auto
  moreover have "- ((2 * - m + 1000000) div 2000000) = (if r \<le> 500000 then q else q + 1)" using m by auto
  ultimately have "epoch_seconds m = (if r < 500000 \<or> r = 500000 \<and> m < 0 then q else q + 1)" by (simp add: epoch_seconds_def)
  then show ?thesis using m by (auto simp: algebra_simps simp flip: r_def)
qed

section \<open>Recursion and cycles\<close>

text \<open>No entity is expanded below itself: an object is either a bare id, or its id is none of its
  ancestors' and its entries are so, too.\<close>

fun acyclic_json :: "int set \<Rightarrow> json \<Rightarrow> bool" where
  "acyclic_json A (JObject m) \<longleftrightarrow>
     (\<exists>e. m = id_map e \<or> json_lookup '':db/id'' m = Some (json_int e) \<and> e \<notin> A
        \<and> (\<forall>p\<in>set m. acyclic_json (insert e A) (snd p)))"
| "acyclic_json A (JArray vs) \<longleftrightarrow> (\<forall>v\<in>set vs. acyclic_json A v)"
| "acyclic_json A v \<longleftrightarrow> True"

lemma acyclic_id_map [simp]: "acyclic_json A (JObject (id_map e))"
  by auto

declare acyclic_json.simps(1) [simp del]

lemma acyclic_scalar [simp]: "acyclic_json A (json_int i)" "acyclic_json A (json_f64 f)"
  by (simp_all add: json_int_def json_f64_def split: f64.splits)

lemma acyclic_decode [simp]: "acyclic_json A (decode_row_typed_value x v)"
  by (cases v) simp_all

text \<open>A map under construction for the entity \<open>e\<close> below the ancestors \<open>A\<close>.\<close>

definition map_ok :: "int set \<Rightarrow> int \<Rightarrow> json_map \<Rightarrow> bool" where
  "map_ok A e m \<longleftrightarrow> ordered_map m \<and> json_lookup '':db/id'' m = Some (json_int e) \<and> (\<forall>p\<in>set m. acyclic_json (insert e A) (snd p))"

lemma set_json_insert: "p \<in> set (json_insert k v m) \<Longrightarrow> p \<in> set m \<or> snd p = v"
  using set_bt_insert [of str_cmp k v m] by (auto simp: json_insert_def)

lemma lookup_in_set: "json_lookup k m = Some v \<Longrightarrow> (k, v) \<in> set m"
  unfolding json_lookup_def by (induction str_cmp k m rule: bt_get.induct) (auto split: ordering.splits)

lemma map_ok_insert:
  "map_ok A e m \<Longrightarrow> k \<noteq> '':db/id'' \<Longrightarrow> acyclic_json (insert e A) v \<Longrightarrow> map_ok A e (json_insert k v m)"
  unfolding map_ok_def using set_json_insert by fastforce

lemma map_ok_insert_value:
  assumes "map_ok A e m" "k \<noteq> '':db/id''" "acyclic_json (insert e A) v"
  shows "map_ok A e (insert_value m k v cardn)"
proof -
  have prev: "acyclic_json (insert e A) w" if "json_lookup k m = Some w" for w
    using lookup_in_set [OF that] assms(1) unfolding map_ok_def by fastforce
  show ?thesis
    using assms prev by (auto simp: insert_value_def map_ok_insert split: option.splits json.splits)
qed

lemma map_ok_id_map [simp]: "map_ok A e (id_map e)"
  by (simp add: map_ok_def) (simp add: id_map_def)

lemma map_ok_acyclic: "map_ok A e m \<Longrightarrow> e \<notin> A \<Longrightarrow> acyclic_json A (JObject m)"
  unfolding map_ok_def acyclic_json.simps(1) by blast

lemma foldl_invariant:
  assumes "Q st" "\<And>st r. r \<in> set rows \<Longrightarrow> Q st \<Longrightarrow> Q (f st r)"
  shows "Q (foldl f st rows)"
  using assms by (induction rows arbitrary: st) simp_all

text \<open>What is relied on: the server returns the rows of a query, and \<open>:db/id\<close> is not an attribute.\<close>

definition tree_ok :: "'x pullenv_scheme \<Rightarrow> pull_ctx \<Rightarrow> bool" where
  "tree_ok x c \<longleftrightarrow> (\<forall>rows. mset (order_rows x rows) = mset rows) \<and> (\<forall>s\<in>set (cx_schema c). s_ident s \<noteq> '':db/id'')"

lemma tree_rows:
  assumes "tree_ok x c"
  shows "r \<in> set (order_rows x (filter P (joined c Q))) \<Longrightarrow> r_ident r \<noteq> '':db/id''"
    "r \<in> set (entity_rows x c e) \<Longrightarrow> r_ident r \<noteq> '':db/id''"
proof -
  have o: "set (order_rows x rows) = set rows" for rows using assms mset_eq_setD by (metis tree_ok_def)
  have i: "r_ident r \<noteq> '':db/id''" if "r \<in> set (joined c Q)" for Q
    using joined_schema [OF that] assms by (simp add: tree_ok_def)
  show "r \<in> set (order_rows x (filter P (joined c Q))) \<Longrightarrow> r_ident r \<noteq> '':db/id''" using o i by auto
  show "r \<in> set (entity_rows x c e) \<Longrightarrow> r_ident r \<noteq> '':db/id''" unfolding entity_rows_def using o i by blast
qed

text \<open>The state of a pull of the entity \<open>e\<close> below the ancestors \<open>A\<close>: they all have been visited.\<close>

definition state_ok :: "int set \<Rightarrow> int \<Rightarrow> int set \<Rightarrow> json_map \<times> int set \<Rightarrow> bool" where
  "state_ok A e V st \<longleftrightarrow> map_ok A e (fst st) \<and> insert e A \<subseteq> V \<and> V \<subseteq> snd st"

lemma state_ok_map: "state_ok A e V (m, v) \<Longrightarrow> k \<noteq> '':db/id'' \<Longrightarrow> acyclic_json (insert e A) w \<Longrightarrow> state_ok A e V (insert_value m k w cardn, v)"
  by (simp add: state_ok_def map_ok_insert_value)

lemma state_ok_sub:
  assumes "state_ok (insert e A) r (insert r v) (sub, v')" "state_ok A e V (m, v)" "r \<notin> insert e A" "k \<noteq> '':db/id''"
  shows "state_ok A e V (insert_value m k (JObject sub) cardn, v')"
proof -
  have "map_ok (insert e A) r sub" using assms(1) by (simp add: state_ok_def)
  then have "acyclic_json (insert e A) (JObject sub)" using map_ok_acyclic assms(3) by blast
  then have "state_ok A e V (insert_value m k (JObject sub) cardn, v)" by (rule state_ok_map [OF assms(2,4)])
  then show ?thesis using assms(1) by (auto simp: state_ok_def)
qed

lemma wildcard_row_ok:
  assumes "r_ident r \<noteq> '':db/id''" "state_ok A e V st"
    and "\<And>f r v. expand = Some f \<Longrightarrow> insert e A \<subseteq> v \<Longrightarrow> state_ok (insert e A) r (insert r v) (f r (id_map r, insert r v))"
  shows "state_ok A e V (wildcard_row x c expand ov st r)"
proof (cases st)
  case (Pair m v)
  have v: "insert e A \<subseteq> v" using assms(2) Pair by (auto simp: state_ok_def)
  show ?thesis
  proof (cases "ref_target (r_v r)")
    case None
    then show ?thesis using assms(1,2) Pair state_ok_map by (simp add: wildcard_row_def)
  next
    case (Some rid)
    show ?thesis
    proof (cases "r_ident r \<notin> ov \<and> r_component r \<and> expand \<noteq> None \<and> rid \<notin> v")
      case True
      then obtain f where f: "expand = Some f" by auto
      obtain sub v' where s: "f rid (id_map rid, insert rid v) = (sub, v')" by fastforce
      have "state_ok A e V (insert_value m (r_ident r) (JObject sub) (r_cardinality r), v')"
        by (rule state_ok_sub [OF _ assms(2) [unfolded Pair] _ assms(1)]) (use assms(3) [OF f v, of rid] s True v in auto)
      then show ?thesis using True Some Pair f s by (simp add: wildcard_row_def)
    next
      case False
      then show ?thesis using assms(1,2) Pair Some state_ok_map [of A e V m v "r_ident r"]
        by (auto simp: wildcard_row_def split: option.splits)
    qed
  qed
qed

lemma pull_wildcard_ok:
  assumes "tree_ok x c" "state_ok A e V st"
  shows "state_ok A e V (pull_wildcard x c depth ov e st)"
  using assms
proof (induction x c depth ov e st arbitrary: A V rule: pull_wildcard.induct)
  case (1 x c depth ov e st)
  have row: "state_ok A e V (wildcard_row x c (if depth < MAX_RECURSION_DEPTH then Some (pull_wildcard x c (depth + 1) {}) else None) ov st' r)"
    if "r \<in> set (entity_rows x c e)" "state_ok A e V st'" for st' r
  proof (rule wildcard_row_ok [OF tree_rows(2) [OF 1(2) that(1)] that(2)])
    fix f r v assume f: "(if depth < MAX_RECURSION_DEPTH then Some (pull_wildcard x c (depth + 1) {}) else None) = Some f" "insert e A \<subseteq> v"
    then have "state_ok (insert e A) r (insert r v) (id_map r, insert r v)" by (auto simp: state_ok_def)
    then show "state_ok (insert e A) r (insert r v) (f r (id_map r, insert r v))"
      using 1(1) [OF that(1) _ 1(2)] f(1) by (auto split: if_splits)
  qed
  show ?case unfolding pull_wildcard.simps [of x c depth ov e st] by (rule foldl_invariant [where Q = "state_ok A e V"]) (rule 1(3), rule row)
qed

lemma sub_wildcard_ok:
  assumes "tree_ok x c" "insert e A \<subseteq> v"
  shows "state_ok (insert e A) r (insert r v) (pull_wildcard x c depth {} r (id_map r, insert r v))"
  by (rule pull_wildcard_ok [OF assms(1)]) (use assms(2) in \<open>auto simp: state_ok_def\<close>)

lemma recursive_row_ok:
  assumes "tree_ok x c" "r_ident r \<noteq> '':db/id''" "state_ok A e V st"
  shows "state_ok A e V (recursive_row x c depth i st r)"
proof (cases st)
  case (Pair m v)
  have v: "insert e A \<subseteq> v" using assms(3) Pair by (auto simp: state_ok_def)
  note keep = state_ok_map [OF assms(3) [unfolded Pair] assms(2)]
  show ?thesis
  proof (cases "ref_target (r_v r)")
    case None
    then show ?thesis using assms(3) Pair keep by (simp add: recursive_row_def)
  next
    case (Some rid)
    obtain sub v' where s: "pull_wildcard x c (depth + 1) {} rid (id_map rid, insert rid v) = (sub, v')" by fastforce
    have "state_ok A e V (insert_value m (r_ident r) (JObject sub) (r_cardinality r), v')" if "rid \<notin> v"
      by (rule state_ok_sub [OF _ assms(3) [unfolded Pair] _ assms(2)]) (use sub_wildcard_ok [OF assms(1) v, of rid "depth + 1"] s v that in auto)
    then show ?thesis using assms(3) Pair Some s keep by (simp add: recursive_row_def)
  qed
qed

lemma pull_all_ok:
  assumes "tree_ok x c" "state_ok A e V st"
  shows "state_ok A e V (pull_all_attributes_for_recursive x c depth i e st)"
  unfolding pull_all_attributes_for_recursive_def
  by (rule foldl_invariant [where Q = "state_ok A e V"]) (rule assms(2), rule recursive_row_ok [OF assms(1) tree_rows(2) [OF assms(1)]])

text \<open>The keys that a specification asks for.\<close>

definition scalar :: "json \<Rightarrow> bool" where
  "scalar v \<longleftrightarrow> (case v of JArray vs \<Rightarrow> False | JObject m \<Rightarrow> False | _ \<Rightarrow> True)"

lemma acyclic_json_scalar: "scalar v \<Longrightarrow> acyclic_json A v"
  by (cases v) (simp_all add: scalar_def)

definition key_ok :: "attr_spec \<Rightarrow> bool" where
  "key_ok a \<longleftrightarrow> a_display a \<noteq> '':db/id'' \<and> a_ident a \<noteq> '':db/id'' \<and> a_rename a \<noteq> Some '':db/id''
     \<and> (case a_default a of None \<Rightarrow> True | Some v \<Rightarrow> scalar v)"

lemma key_ok_output: "key_ok a \<Longrightarrow> output_key (Some a) (a_ident a) \<noteq> '':db/id''" "key_ok a \<Longrightarrow> output_key (Some a) (a_display a) \<noteq> '':db/id''"
  by (auto simp: key_ok_def output_key_def split: option.splits)

lemma spec_by_ident_set: "spec_by_ident attrs i = Some a \<Longrightarrow> a \<in> set attrs \<and> a_ident a = i"
  unfolding spec_by_ident_def by (auto dest: map_of_SomeD)

lemma output_key_ok:
  assumes "\<forall>a\<in>set attrs. key_ok a" "i \<noteq> '':db/id''"
  shows "output_key (spec_by_ident attrs i) i \<noteq> '':db/id''"
proof (cases "spec_by_ident attrs i")
  case None
  then show ?thesis using assms(2) by (simp add: output_key_def)
next
  case (Some a)
  then show ?thesis using spec_by_ident_set [OF Some] assms(1) key_ok_output(1) [of a] by auto
qed

definition pending_ok :: "int set \<Rightarrow> int \<Rightarrow> string \<times> string \<times> int \<Rightarrow> bool" where
  "pending_ok A e pc \<longleftrightarrow> (case pc of (key, cardn, rid) \<Rightarrow> key \<noteq> '':db/id'' \<and> rid \<notin> insert e A)"

lemma forward_row_ok:
  assumes "\<forall>a\<in>set attrs. key_ok a" "r_ident r \<noteq> '':db/id''" "insert e A \<subseteq> v"
    and "map_ok A e (f_map s) \<and> (\<forall>pc\<in>set (pending_components s). pending_ok A e pc)"
  shows "map_ok A e (f_map (forward_row x attrs depth v s r)) \<and> (\<forall>pc\<in>set (pending_components (forward_row x attrs depth v s r)). pending_ok A e pc)"
  using assms(3,4) output_key_ok [OF assms(1,2)] map_ok_insert_value
  by (auto simp: forward_row_def Let_def pending_ok_def split: option.splits)

lemma expand_component_ok:
  assumes "tree_ok x c" "pending_ok A e pc" "state_ok A e V st"
  shows "state_ok A e V (expand_component x c depth st pc)"
proof -
  obtain m v where st: "st = (m, v)" by (cases st)
  obtain key cardn rid where pc: "pc = (key, cardn, rid)" by (cases pc)
  obtain sub v' where s: "pull_wildcard x c (depth + 1) {} rid (id_map rid, insert rid v) = (sub, v')" by fastforce
  have v: "insert e A \<subseteq> v" using assms(3) st by (auto simp: state_ok_def)
  have "state_ok A e V (insert_value m key (JObject sub) cardn, v')"
    by (rule state_ok_sub [OF _ assms(3) [unfolded st]])
      (use sub_wildcard_ok [OF assms(1) v, of rid "depth + 1"] s assms(2) pc in \<open>auto simp: pending_ok_def\<close>)
  then show ?thesis by (simp add: expand_component_def st pc s [simplified])
qed

lemma apply_default_ok: "key_ok a \<Longrightarrow> map_ok A e m \<Longrightarrow> map_ok A e (apply_default F m a)"
  using key_ok_output(1) [of a] by (auto simp: apply_default_def key_ok_def intro!: map_ok_insert acyclic_json_scalar split: option.splits)

lemma pull_forward_ok:
  assumes "tree_ok x c" "\<forall>a\<in>set attrs. key_ok a" "state_ok A e V st"
  shows "state_ok A e V (pull_forward_attributes_batched x c depth e attrs st)"
proof (cases "attrs = []")
  case False
  obtain m v where st: "st = (m, v)" by (cases st)
  have v: "insert e A \<subseteq> v" "map_ok A e m" "insert e A \<subseteq> V" "V \<subseteq> v" using assms(3) st by (auto simp: state_ok_def)
  let ?rows = "order_rows x (filter (\<lambda>r. r_ident r \<in> a_ident ` set attrs) (joined c (\<lambda>d. c_e d = e)))"
  define s where "s = foldl (forward_row x attrs depth v) \<lparr>counts = \<lambda>_. 0, found_idents = {}, pending_components = [], f_map = m\<rparr> ?rows"
  have s: "map_ok A e (f_map s) \<and> (\<forall>pc\<in>set (pending_components s). pending_ok A e pc)"
    unfolding s_def
    by (rule foldl_invariant) (simp add: v(2), rule forward_row_ok [OF assms(2) tree_rows(1) [OF assms(1)] v(1)])
  define st' where "st' = foldl (expand_component x c depth) (f_map s, v) (pending_components s)"
  have st': "state_ok A e V st'"
    unfolding st'_def
    by (rule foldl_invariant [where Q = "state_ok A e V"])
      (use s v in \<open>simp add: state_ok_def\<close>, rule expand_component_ok [OF assms(1)], use s in blast)
  have "map_ok A e (foldl (apply_default (found_idents s)) (fst st') attrs)"
    by (rule foldl_invariant [where Q = "map_ok A e"])
      (use st' in \<open>simp add: state_ok_def\<close>, rule apply_default_ok, use assms(2) in blast)
  then show ?thesis using False st st'
    by (simp add: pull_forward_attributes_batched_def state_ok_def split_beta Let_def flip: s_def st'_def)
qed (use assms(3) in \<open>simp add: pull_forward_attributes_batched_def split_beta\<close>)

lemma reverse_entry_ok: "key_ok a \<Longrightarrow> map_ok A e m \<Longrightarrow> map_ok A e (reverse_entry refs m a)"
  using key_ok_output(2) [of a]
  by (auto simp: reverse_entry_def key_ok_def Let_def acyclic_json_scalar intro!: map_ok_insert split: option.splits)

lemma pull_reverse_ok:
  assumes "\<forall>a\<in>set attrs. key_ok a" "map_ok A e m"
  shows "map_ok A e (pull_reverse_attributes_batched x c e attrs m)"
proof -
  have "map_ok A e (foldl (reverse_entry refs) m attrs)" for refs
    by (rule foldl_invariant [where Q = "map_ok A e"]) (use assms reverse_entry_ok in blast)+
  then show ?thesis using assms(2) by (simp add: pull_reverse_attributes_batched_def Let_def split_beta)
qed

text \<open>Specifications without nested patterns, whose keys are not \<open>:db/id\<close>.\<close>

primrec tree_spec :: "pull_attr_spec \<Rightarrow> bool" where
  "tree_spec (Attribute i rv f rn df l) \<longleftrightarrow> key_ok \<lparr>a_display = i, a_ident = f, a_rename = rn, a_default = df, a_limit = l\<rparr>"
| "tree_spec (MapSpec i rv f sub rn l) \<longleftrightarrow> False"
| "tree_spec (RecursiveSpec i rv f d rn) \<longleftrightarrow> i \<noteq> '':db/id'' \<and> rn \<noteq> Some '':db/id''"
| "tree_spec Wildcard \<longleftrightarrow> True"

lemma attr_of_ok: "\<forall>s\<in>set specs. tree_spec s \<Longrightarrow> \<forall>a\<in>set (List.map_filter (attr_of b) specs). key_ok a"
proof
  fix a assume "\<forall>s\<in>set specs. tree_spec s" "a \<in> set (List.map_filter (attr_of b) specs)"
  then obtain s where s: "tree_spec s" "attr_of b s = Some a" by (auto simp: map_filter_def)
  then show "key_ok a" by (cases s) (auto split: if_splits)
qed

lemma pull_attributes_ok:
  assumes "tree_ok x c" "\<forall>s\<in>set specs. tree_spec s" "state_ok A e V st"
  shows "state_ok A e V (pull_attributes x c depth e specs st)"
proof -
  obtain m v where f: "pull_forward_attributes_batched x c depth e (forward_attrs specs) st = (m, v)" by fastforce
  have s: "state_ok A e V (m, v)"
    using pull_forward_ok [OF assms(1) attr_of_ok [OF assms(2)] assms(3)] f unfolding forward_attrs_def by metis
  have "map_ok A e (pull_reverse_attributes_batched x c e (reverse_attrs specs) m)"
    unfolding reverse_attrs_def by (rule pull_reverse_ok [OF attr_of_ok [OF assms(2)]]) (use s in \<open>simp add: state_ok_def\<close>)
  then show ?thesis using s by (simp add: pull_attributes_def f state_ok_def)
qed

lemma map_ok_list: "map_ok A e m \<Longrightarrow> k \<noteq> '':db/id'' \<Longrightarrow> \<forall>v\<in>set vs. acyclic_json (insert e A) v \<Longrightarrow> vs \<noteq> []
    \<Longrightarrow> map_ok A e (json_insert k (if one then hd vs else JArray vs) m)"
  by (rule map_ok_insert) auto

lemma rec_each_not_Nil: "rs \<noteq> [] \<Longrightarrow> fst (rec_each x c depth i rv f d rn rs v) \<noteq> []"
  by (cases rs) (simp_all add: rec_each.simps split_beta)

lemma execute_pull_ok:
  shows "tree_ok x c \<Longrightarrow> \<forall>s\<in>set specs. tree_spec s \<Longrightarrow> state_ok A e V st \<Longrightarrow> state_ok A e V (execute_pull x c depth e specs st)"
    and "tree_ok x c \<Longrightarrow> \<forall>s\<in>set specs. tree_spec s \<Longrightarrow> state_ok A e V st \<Longrightarrow> state_ok A e V (pull_specs x c depth e ov specs st)"
    and "length (fst (map_each x c depth sub rs v)) = length rs"
    and "tree_ok x c \<Longrightarrow> tree_spec (RecursiveSpec i rv f d rn) \<Longrightarrow> insert e A \<subseteq> V \<Longrightarrow> V \<subseteq> v \<Longrightarrow>
      (\<forall>w\<in>set (fst (rec_each x c depth i rv f d rn rs v)). acyclic_json (insert e A) w) \<and> V \<subseteq> snd (rec_each x c depth i rv f d rn rs v)"
proof (induction x c depth e specs st and x c depth e ov specs st and x c depth sub rs v and x c depth i rv f d rn rs v
    arbitrary: A V and A V and and A e V rule: execute_pull_pull_specs_map_each_rec_each.induct)
  case (1 x c depth e specs st)
  show ?case unfolding execute_pull.simps by (rule 1(1) [OF 1(2,3) pull_attributes_ok [OF 1(2-4)]])
next
  case (2 x c depth e ov st)
  then show ?case by (simp add: pull_specs.simps)
next
  case (3 x c depth e ov spec rest st)
  show ?case unfolding pull_specs.simps(2)
  proof (rule 3(3) [OF 3(4)], goal_cases)
    case 2
    show ?case
    proof (cases spec)
      case (RecursiveSpec i rv f d rn)
      let ?ids = "if rv then query_reverse_refs x c e f None else query_forward_refs x c e f None"
      let ?one = "\<not> rv \<and> schema_cardinality c f = ''one''" and ?key = "case rn of None \<Rightarrow> i | Some k \<Rightarrow> k"
      show ?thesis
      proof (cases "recursion_limit d \<le> depth \<or> ?ids = []")
        case False
        let ?rs = "if ?one then take 1 ?ids else ?ids"
        obtain vs v where r: "rec_each x c depth i rv f d rn ?rs (snd st) = (vs, v)" by fastforce
        have spec: "tree_spec (RecursiveSpec i rv f d rn)" using 3(5) RecursiveSpec by simp
        have st: "map_ok A e (fst st)" "insert e A \<subseteq> V" "V \<subseteq> snd st" using 3(6) by (simp_all add: state_ok_def)
        have "(\<forall>w\<in>set vs. acyclic_json (insert e A) w) \<and> V \<subseteq> v"
          using 3(2) [OF RecursiveSpec _ refl refl refl _ 3(4) spec st(2,3)] False r by simp
        moreover have "?rs \<noteq> []" using False by (auto split: if_splits)
        then have "vs \<noteq> []" using rec_each_not_Nil [of ?rs x c depth i rv f d rn "snd st"] unfolding r by simp
        moreover have "?key \<noteq> '':db/id''" using spec by (cases rn) simp_all
        ultimately show ?thesis using st r False map_ok_list [OF st(1), of ?key vs ?one]
          by (simp add: RecursiveSpec state_ok_def Let_def)
      qed (use 3(6) RecursiveSpec in \<open>auto simp: Let_def\<close>)
    qed (use 3(5,6) pull_wildcard_ok [OF 3(4)] in simp_all)
  qed (use 3(5) in simp)
next
  case (4 x c depth sub v)
  show ?case by (simp add: map_each.simps)
next
  case (5 x c depth sub r rs v)
  obtain m v1 where p: "(if depth < MAX_RECURSION_DEPTH then execute_pull x c (depth + 1) r sub (id_map r, insert r v)
      else (id_map r, insert r v)) = (m, v1)" by fastforce
  show ?case using 5(2) [OF p [symmetric]] by (simp add: map_each.simps(2) p split_beta)
next
  case (6 x c depth i rv f d rn v)
  then show ?case by (simp add: rec_each.simps)
next
  case (7 x c depth i rv f d rn r rs v)
  show ?case
  proof (cases "r \<in> v")
    case True
    show ?thesis using 7(1) [OF True 7(4-7)] True by (simp add: rec_each.simps(2) split_beta)
  next
    case False
    obtain m v1 where p: "(if depth < recursion_limit d
        then execute_pull x c (depth + 1) r [RecursiveSpec i rv f d rn] (pull_all_attributes_for_recursive x c (depth + 1) f r (id_map r, insert r v))
        else (id_map r, insert r v)) = (m, v1)" by fastforce
    have start: "state_ok (insert e A) r (insert r v) (id_map r, insert r v)" using 7(6,7) by (auto simp: state_ok_def)
    have "state_ok (insert e A) r (insert r v) (m, v1)"
    proof (cases "depth < recursion_limit d")
      case True
      then show ?thesis using 7(2) [OF False True 7(4) _ pull_all_ok [OF 7(4) start]] 7(5) p by simp
    qed (use p start in simp)
    then have m: "map_ok (insert e A) r m" "insert r v \<subseteq> v1" by (auto simp: state_ok_def)
    have "acyclic_json (insert e A) (JObject m)" by (rule map_ok_acyclic [OF m(1)]) (use False 7(6,7) in auto)
    moreover have "V \<subseteq> v1 - {r}" using m(2) False 7(7) by auto
    ultimately show ?thesis using 7(3) [OF False p [symmetric] 7(4-6)] False p by (simp add: rec_each.simps(2) split_beta)
  qed
qed

text \<open>C9. A pull with recursion comes back on every graph of references, cyclic or not, with a tree in which
  no entity is expanded below itself: where a reference leads back to an ancestor the tree has the
  bare id.  This holds for patterns of attributes, wildcards and recursive specifications; the
  components that a wildcard follows are part of the tree.\<close>

theorem pull_tree_acyclic:
  assumes "parse_value x pattern = Inr (VVector items)" "parse_pull_pattern x items = Inr specs" "\<forall>s\<in>set specs. tree_spec s"
    and "map_of (stores db) store_name = Some sid" "tree_ok x (store_ctx db (get_schema_for_store store_name) sid)"
  shows "\<exists>j. pull x db store_name pattern e = Inr j \<and> acyclic_json {} j"
proof -
  let ?c = "store_ctx db (get_schema_for_store store_name) sid"
  have "state_ok {} e {e} (execute_pull x ?c 0 e specs (id_map e, {e}))"
    by (rule execute_pull_ok(1) [OF assms(5,3)]) (simp add: state_ok_def)
  then have "acyclic_json {} (pull_entity x ?c specs e)"
    unfolding pull_entity_def state_ok_def by (intro map_ok_acyclic [of _ e]) simp_all
  then show ?thesis by (simp add: pull_def get_store_id parse_pattern_def assms(1,2,4))
qed

section \<open>Examples\<close>

definition sample_pullenv :: pullenv where
  "sample_pullenv = pgx.extend sample_pgx \<lparr>parse_text = \<lambda>_. ''error'', order_rows = id, order_ids = id\<rparr>"

lemma order_sample [simp]: "order_rows sample_pullenv = id"
  by (simp add: sample_pullenv_def pgx.defs)

definition sample_attr :: "int \<Rightarrow> string \<Rightarrow> string \<Rightarrow> schema_row" where
  "sample_attr a i t = \<lparr>s_entid = a, s_ident = i, s_info = \<lparr>value_type = t, cardinality = ''many'', unique_constraint = None,
     fulltext = False, indexed = False, component = False, no_history = False\<rparr>\<rparr>"

definition sample_pull_db :: pull_db where
  "sample_pull_db = \<lparr>stores = [(''default'', 0)],
     catalogs = \<lambda>_. \<lparr>schema_rows = [sample_attr 65 '':p/n'' ''string'', sample_attr 66 '':p/f'' ''ref''], ident_rows = [], gen_row = None\<rparr>,
     facts = sample_tables\<rparr>"

lemma live_sample_tables: "live sample_tables (sid, e, a, v) = (if sid = 0 \<and> e = 100 \<and> a = 65 \<and> v = TText ''a'' then Some 1 else None)"
  by (auto simp: live_def sample_tables_def log_eav_def)

lemma sample_live: "live_values (store_ctx sample_pull_db s sid) e a = (if sid = 0 \<and> e = 100 \<and> a = 65 then {TText ''a''} else {})"
  by (auto simp: store_ctx_def sample_pull_db_def live_sample_tables)

lemma sample_plain_ok: "plain_ok sample_pullenv (store_ctx sample_pull_db ''mentat'' 0) ['':p/n''] E"
  unfolding plain_ok_def
proof (intro conjI ballI impI allI)
  show "proj_ok (cx_facts (store_ctx sample_pull_db ''mentat'' 0))" using proj_ok_sample by (simp add: store_ctx_def sample_pull_db_def)
  show "schema_ok (cx_schema (store_ctx sample_pull_db ''mentat'' 0))" by (simp add: store_ctx_def sample_pull_db_def schema_ok_def sample_attr_def)
  fix s e assume "s \<in> set (cx_schema (store_ctx sample_pull_db ''mentat'' 0))"
  show "card (live_values (store_ctx sample_pull_db ''mentat'' 0) e (s_entid s)) \<le> DEFAULT_MANY_LIMIT"
    unfolding sample_live by (simp add: DEFAULT_MANY_LIMIT_def)
qed (auto simp: store_ctx_def sample_pull_db_def sample_attr_def)

definition sample_keyword :: keyword where
  "sample_keyword = Keyword \<lparr>components = ''p/n'', boundary = 1\<rparr>"

lemma sample_keyword_simps: "kw_ident sample_keyword = '':p/n''" "take 1 (kw_name sample_keyword) \<noteq> ''_''"
  by code_simp+

lemma sample_pattern: "parse_value sample_pullenv ''[:p/n]'' = Inr (VVector (map VKeyword [sample_keyword]))"
  by code_simp

lemma sample_answers:
  assumes "answers x (store_ctx sample_pull_db ''mentat'' 0) e ['':p/n''] m"
  shows "json_lookup '':p/n'' m = (if e = 100 then Some (JArray [JString ''a'']) else None)"
proof -
  let ?c = "store_ctx sample_pull_db ''mentat'' 0" and ?s = "sample_attr 65 '':p/n'' ''string''"
  have s: "?s \<in> set (cx_schema ?c)" by (simp add: store_ctx_def sample_pull_db_def)
  have f: "s_ident ?s = '':p/n''" "s_entid ?s = 65" "cardinality (s_info ?s) = ''many''" by (simp_all add: sample_attr_def)
  have a: "if live_values ?c e 65 = {} then json_lookup '':p/n'' m = None
      else \<exists>vs. distinct vs \<and> set vs = live_values ?c e 65 \<and> json_lookup '':p/n'' m = Some (JArray (map (render x) vs))"
    using assms s f unfolding answers_def by (metis list.set_intros(1))
  show ?thesis
  proof (cases "e = 100")
    case True
    then obtain vs where v: "distinct vs" "set vs = {TText ''a''}" "json_lookup '':p/n'' m = Some (JArray (map (render x) vs))"
      using a unfolding sample_live by auto
    then have "vs = [TText ''a'']" by (cases vs; cases "tl vs") (auto simp: subset_singleton_iff)
    then show ?thesis using True v(3) by (simp add: render_def)
  next
    case False
    then show ?thesis using a unfolding sample_live by simp
  qed
qed

lemma sample_store: "map_of (stores sample_pull_db) ''default'' = Some 0" "get_schema_for_store ''default'' = ''mentat''"
  "map kw_ident [sample_keyword] = ['':p/n'']" "\<forall>kw\<in>set [sample_keyword]. take 1 (kw_name kw) \<noteq> ''_''"
  using sample_keyword_simps by (simp_all add: sample_pull_db_def get_schema_for_store_def)

theorem pull_live_values_witness:
  "\<exists>m. mentat_pull sample_pullenv sample_pull_db ''[:p/n]'' 100 = Inr (JObject m) \<and> json_lookup '':p/n'' m = Some (JArray [JString ''a''])"
proof -
  obtain m where "pull sample_pullenv sample_pull_db ''default'' ''[:p/n]'' 100 = Inr (JObject m)"
      "answers sample_pullenv (store_ctx sample_pull_db ''mentat'' 0) 100 ['':p/n''] m"
    using pull_live_values [OF sample_pattern sample_store(4,1), unfolded sample_store(2,3), OF sample_plain_ok] by blast
  then show ?thesis using sample_answers by (force simp: mentat_pull_def)
qed

theorem pull_many_live_values_witness:
  "\<exists>m1 m2. mentat_pull_many sample_pullenv sample_pull_db ''[:p/n]'' [7, 100] = Inr (JArray [JObject m1, JObject m2])
    \<and> json_lookup '':p/n'' m1 = None \<and> json_lookup '':p/n'' m2 = Some (JArray [JString ''a''])"
proof -
  obtain ms where p: "pull_many sample_pullenv sample_pull_db ''default'' ''[:p/n]'' [7, 100] = Inr (JArray (map JObject ms))"
    and l: "list_all2 (\<lambda>e. answers sample_pullenv (store_ctx sample_pull_db ''mentat'' 0) e ['':p/n'']) [7, 100] ms"
    using pull_many_live_values [OF sample_pattern sample_store(4,1), unfolded sample_store(2,3), OF sample_plain_ok, of "[7, 100]"] by auto
  obtain m1 m2 where m: "ms = [m1, m2]" using l by (auto simp: list_all2_Cons1)
  then have "answers sample_pullenv (store_ctx sample_pull_db ''mentat'' 0) 7 ['':p/n''] m1"
      "answers sample_pullenv (store_ctx sample_pull_db ''mentat'' 0) 100 ['':p/n''] m2" using l by simp_all
  then show ?thesis using p m sample_answers [of sample_pullenv 7 m1] sample_answers [of sample_pullenv 100 m2]
    by (simp add: mentat_pull_many_def)
qed

text \<open>Two friends of each other.\<close>

definition sample_cycle_db :: pull_db where
  "sample_cycle_db = sample_pull_db\<lparr>facts := \<lparr>datoms = [],
     current = [\<lparr>c_store = 0, c_e = 1, c_a = 66, c_v = TRef 2, c_tx = 1\<rparr>, \<lparr>c_store = 0, c_e = 2, c_a = 66, c_v = TRef 1, c_tx = 1\<rparr>]\<rparr>\<rparr>"

definition sample_tree :: json where
  "sample_tree = JObject [('':db/id'', json_int 1), ('':p/f'', JArray [JObject [('':db/id'', json_int 2), ('':p/f'', JArray [JObject (id_map 1)])]])]"

definition sample_friends :: keyword where
  "sample_friends = Keyword \<lparr>components = ''p/f'', boundary = 1\<rparr>"

theorem pull_tree_acyclic_witness:
  "mentat_pull sample_pullenv sample_cycle_db ''[{:p/f ...}]'' 1 = Inr sample_tree \<and> acyclic_json {} sample_tree"
proof -
  let ?items = "[VMap [(VKeyword sample_friends, VPlainSymbol (PlainSymbol ''...''))]]" and ?specs = "[RecursiveSpec '':p/f'' False '':p/f'' Unbounded None]"
  have p: "parse_value sample_pullenv ''[{:p/f ...}]'' = Inr (VVector ?items)" by code_simp
  have q: "parse_pull_pattern sample_pullenv ?items = Inr ?specs" by code_simp
  have t: "tree_ok sample_pullenv (store_ctx sample_cycle_db (get_schema_for_store ''default'') 0)"
    by (simp add: tree_ok_def store_ctx_def sample_cycle_db_def sample_pull_db_def sample_attr_def)
  have r: "pull sample_pullenv sample_cycle_db ''default'' ''[{:p/f ...}]'' 1 = Inr sample_tree" by code_simp
  show ?thesis
    using pull_tree_acyclic [OF p q _ _ t, of 1] r by (simp add: mentat_pull_def sample_cycle_db_def sample_pull_db_def)
qed

end
