(* ===== verification/Spec2Isabelle.thy ===== *)
theory Spec2Isabelle
  imports Edn_Roundtrip Tx_Functions Transaction Insertion_Values Insertion_Unique Daemon Pull_Results
begin

text \<open>
  Verification of pg_mentat, a Datomic-like database inside PostgreSQL.

  \<^bold>\<open>The program.\<close>  The crate \<open>edn\<close> reads and prints EDN values.  The extension \<open>pg_mentat\<close> keeps facts
  (entity, attribute, value, transaction, added) in an append-only log of typed tables, with a
  projection of the facts that are live; its transactor reads EDN transactions and writes both, its
  pull API reads the projection, and each server process caches the schema.  The daemon \<open>mentatd\<close>
  serves clients over the network: it decodes requests, calls the extension through SQL, caches
  results of queries and keeps sessions and snapshots.

  \<^bold>\<open>Theories and sources\<close> (paths under \<open>src/\<close>).

  \<^item> \<open>Prelude\<close>: results with errors and early return, strings as bytes.  \<open>Ordered\<close>: the contract of
    Rust's \<open>Ord\<close> as the locales \<open>rust_ord\<close> and \<open>rust_ord_eq\<close>, and \<open>BTreeSet\<close> and \<open>BTreeMap\<close> over them.
    They are interpreted for strings and names (\<open>Symbols\<close>), EDN values (\<open>Edn_Value\<close>) and the
    integers of the upsert map (\<open>Upsert\<close>).
  \<^item> \<open>Symbols\<close>: \<open>edn/src/namespaceable_name.rs\<close>, \<open>symbols.rs\<close>.  \<open>Edn_Value\<close>: \<open>types.rs\<close> and the texts of
    \<open>pretty_print.rs\<close>.  \<open>Nesting\<close>: \<open>depth.rs\<close>.  \<open>Edn_Grammar\<close>: the value grammar of \<open>edn/src/lib.rs\<close>.
    \<open>Edn_Reader\<close>, \<open>Edn_Roundtrip\<close>: their properties.
  \<^item> \<open>Typed_Store\<close>: the functions of \<open>pg_mentat/src/functions/transact.rs\<close> on the typed tables and
    \<open>pg_mentat/sql/24_current_projection.sql\<close>.  \<open>Projection\<close>: the abstract store of live facts and the
    refinement.  \<open>Upsert\<close>, \<open>Transact\<close>: the rest of \<open>transact.rs\<close>, from the text of a transaction to
    its report.  \<open>Tempids\<close>, \<open>Insertion\<close>, \<open>Insertion_Values\<close>, \<open>Insertion_Unique\<close>, \<open>Tx_Functions\<close>,
    \<open>Transaction\<close>: their properties.
  \<^item> \<open>Schema_Cache\<close>: \<open>pg_mentat/src/cache.rs\<close> with several server processes.  \<open>Errors\<close>: \<open>error.rs\<close>.
  \<^item> \<open>Json\<close>: values of \<open>serde_json\<close>.  \<open>Pull\<close>: \<open>pg_mentat/src/functions/pull.rs\<close>, pattern parser and
    evaluation.  \<open>Pull_Results\<close>: its properties.
  \<^item> \<open>Query_Cache\<close>: \<open>mentatd/src/cache.rs\<close>.  \<open>Sessions\<close>: \<open>session.rs\<close>, \<open>db_cache.rs\<close>.  \<open>Msgpack\<close>: Transit
    over MessagePack in \<open>mentatd/src/protocol\<close>.  \<open>Daemon\<close>: handlers of \<open>mentatd/src/server.rs\<close> that keep
    state.

  \<^bold>\<open>How code is rendered.\<close>  A struct is a record, an enum a datatype, \<open>Result\<close> a sum with the error on
  the left, a method that mutates a function that returns the new state.  An SQL statement is the
  operation on lists of rows that its text says, with primary keys and conflicts.  Third-party code
  is a field of a record of functions (\<open>ext\<close>, \<open>pgx\<close>, \<open>txenv\<close>, \<open>wire\<close>, \<open>lru_ops\<close>, \<open>backend\<close>, \<open>pullenv\<close>);
  what a theorem needs of it is a named hypothesis.  So is what the server alone decides, such as
  the order of rows or the row that \<open>LIMIT 1\<close> returns.

  \<^bold>\<open>What is shown.\<close>

  \<^item> EDN: the order of values is total on well-formed values; what the reader returns is well formed
    and within the nesting limit; printed values and string literals read back.
  \<^item> Storage: writing rows refines the abstract store, and after every sequence of transactions the
    projection is the current state of the log, provided that the datoms of a transaction have values
    of one type for each entity and attribute and are not about the transaction itself
    (\<open>tx_well_formed\<close>); the transactor does not check this of retractions, and \<open>history_two_types\<close> is a
    run in which the projection departs from the log.  Rebuilding is right from any state.
  \<^item> Transactions: the values that an entity has afterwards and uniqueness, each with the values for
    which it holds and a lemma with a value for which it does not (\<open>insert_datoms_fraction\<close>,
    \<open>insert_datoms_nan\<close>); stable tempids, unification by identity attributes (\<open>existing_remapped\<close>: the
    entity of the database need not keep its id), the closure of \<open>retractEntity\<close>, bounded retries.
  \<^item> Pull: for patterns of forward attributes the live values, one by one and in a batch, when the
    projection is that of the log; trees without an entity below itself for recursive patterns.
  \<^item> Caches: coherence of the schema cache where a generation row exists and nothing uncommitted is
    left in a cache, and what lookups give otherwise; how old an answer of the query cache can be.
  \<^item> Daemon: round trip and bounds of the binary format, sessions, the circuit breaker, lazy queries.

  \<^bold>\<open>Bounds.\<close>  There is no fuel: every recursive definition has a termination proof.  Where the code has a
  limit the model has the same one: 256 levels for the EDN reader, 64 for MessagePack, five attempts
  of a transaction, 1000 values and 100 levels for a pull.  The repetition rules of the grammar and
  the loop over recursive references repeat a test that never fails, which makes them total.

  \<^bold>\<open>Simplifications.\<close>  The transactor is modelled on the default store and without advisory locks.  A
  call of the schema cache is one step, and so is a transaction with its commit or with the rollback of
  the SQL transaction around it.  The runs of the daemon are of whole operations; the race within an
  insertion into the query cache is a property of its own.  Of a speculative transaction the result
  is modelled, its rollback being the server's.  Values that the server refuses to store abort the transaction
  and are not modelled, nor are failures of the server during a pull.  Spans of EDN values and the
  layout of the pretty printer are left out.

  \<^bold>\<open>Not modelled.\<close>  The Datalog compiler (\<open>query.rs\<close>, \<open>recursive_queries.rs\<close>) and what builds on it
  (time travel, materialized views, subscriptions, virtual tables) produce SQL text whose meaning
  needs a semantics of SQL; the model covers only the statements of fixed shape.  The query and
  transaction grammars of \<open>edn\<close> serve that compiler.  Store management, excision and bootstrap are
  sequences of statements on database schemas and tables and are left out, as are the
  convenience functions around query, pull and transaction, the crates \<open>core\<close> and \<open>core-traits\<close>,
  the EDN and JSON forms of requests, and most stateless operations of the daemon.  The scripting
  layer runs a third-party interpreter.  HTTP, WebSocket, streaming, pool, configuration, metrics,
  monitoring and planner settings are input and output or settings of the server.
\<close>

end
